(* ===== verification/Rust_Prelude.thy ===== *)
theory Rust_Prelude
  imports Main "HOL-Library.AList" "HOL-Library.Sublist" "HOL-Library.Char_ord"
    "HOL-Library.List_Lexorder"
begin

text \<open>
  What the components share: the parts of Rust and of its standard library that the modelled
  code uses.

  \<^item> \<open>Result<T, String>\<close> is the sum \<open>'a result\<close>, with \<open>Err\<close> and \<open>Ok\<close> for its injections.
  \<^item> A fallible operation on a state is \<open>('s, 'a) io\<close>; \<open>io_bind\<close> is the \<open>?\<close> operator and
    \<open>io_ignore\<close> the idiom \<open>let _ = f().await\<close>.
  \<^item> A Rust string is the list of its Unicode scalar values. The model's alphabet is
    \<^typ>\<open>char\<close>, that is the scalar values below 256. Scalar values from 128 on take two bytes
    in UTF-8, so byte lengths, byte offsets and the panics of slicing inside a character are
    visible in the model (\<open>str_len\<close>, \<open>slice_to\<close>, \<open>slice_from\<close>).
  \<^item> A \<open>HashMap\<close> that the code iterates over is an association list with distinct keys: its
    list order is the unspecified iteration order, so a theorem about every list is a theorem
    about every iteration order.
\<close>

section \<open>Results and fallible stateful operations\<close>

type_synonym 'a result = "string + 'a"

abbreviation Err :: "'e \<Rightarrow> 'e + 'a" where
  "Err \<equiv> Inl"

abbreviation Ok :: "'a \<Rightarrow> 'e + 'a" where
  "Ok \<equiv> Inr"

type_synonym ('s, 'a) io = "'s \<Rightarrow> 'a result \<times> 's"

definition is_ok :: "'e + 'a \<Rightarrow> bool" where
  "is_ok r = (case r of Err _ \<Rightarrow> False | Ok _ \<Rightarrow> True)"

definition res_bind :: "'e + 'a \<Rightarrow> ('a \<Rightarrow> 'e + 'b) \<Rightarrow> 'e + 'b" where
  "res_bind r k = (case r of Err e \<Rightarrow> Err e | Ok a \<Rightarrow> k a)"

definition io_ret :: "'a \<Rightarrow> ('s, 'a) io" where
  "io_ret a s = (Ok a, s)"

definition io_err :: "string \<Rightarrow> ('s, 'a) io" where
  "io_err e s = (Err e, s)"

definition io_run :: "('s \<Rightarrow> 'a \<times> 's) \<Rightarrow> ('s, 'a) io" where
  "io_run f s = (case f s of (a, t) \<Rightarrow> (Ok a, t))"

definition io_lift :: "'a result \<Rightarrow> ('s, 'a) io" where
  "io_lift r s = (r, s)"

definition io_bind :: "('s, 'a) io \<Rightarrow> ('a \<Rightarrow> ('s, 'b) io) \<Rightarrow> ('s, 'b) io" where
  "io_bind m k s = (case m s of (Err e, t) \<Rightarrow> (Err e, t) | (Ok a, t) \<Rightarrow> k a t)"

definition io_ignore :: "('s, 'a) io \<Rightarrow> ('s, unit) io" where
  "io_ignore m s = (Ok (), snd (m s))"

section \<open>Characters\<close>

definition code :: "char \<Rightarrow> nat" where
  "code c = of_char c"

text \<open>\<open>char::len_utf8\<close> on the model's alphabet.\<close>

definition len_utf8 :: "char \<Rightarrow> nat" where
  "len_utf8 c = (if code c < 128 then 1 else 2)"

text \<open>\<open>char::is_whitespace\<close>: the Unicode property White\_Space below 256.\<close>

definition is_whitespace :: "char \<Rightarrow> bool" where
  "is_whitespace c = (let n = code c in 9 \<le> n \<and> n \<le> 13 \<or> n = 32 \<or> n = 133 \<or> n = 160)"

definition is_ascii_digit :: "char \<Rightarrow> bool" where
  "is_ascii_digit c = (let n = code c in 48 \<le> n \<and> n \<le> 57)"

definition is_ascii_alphabetic :: "char \<Rightarrow> bool" where
  "is_ascii_alphabetic c = (let n = code c in 65 \<le> n \<and> n \<le> 90 \<or> 97 \<le> n \<and> n \<le> 122)"

text \<open>
  \<open>char::is_alphabetic\<close> and \<open>char::is_alphanumeric\<close> below 256: the letters of Latin-1 are
  the feminine and masculine ordinal indicators, the micro sign and 192 to 255 without the
  multiplication and division signs; its other numeric characters are the three superscripts
  and the three vulgar fractions.
\<close>

definition is_alphabetic :: "char \<Rightarrow> bool" where
  "is_alphabetic c = (let n = code c in
     is_ascii_alphabetic c \<or> n = 170 \<or> n = 181 \<or> n = 186 \<or>
     (192 \<le> n \<and> n \<noteq> 215 \<and> n \<noteq> 247))"

definition is_alphanumeric :: "char \<Rightarrow> bool" where
  "is_alphanumeric c = (let n = code c in
     is_alphabetic c \<or> is_ascii_digit c \<or> n = 178 \<or> n = 179 \<or> n = 185 \<or>
     (188 \<le> n \<and> n \<le> 190))"

definition ascii_lower :: "char \<Rightarrow> char" where
  "ascii_lower c = (let n = code c in if 65 \<le> n \<and> n \<le> 90 then char_of (n + 32) else c)"

definition char_lower :: "char \<Rightarrow> char" where
  "char_lower c = (let n = code c in
     if 65 \<le> n \<and> n \<le> 90 \<or> 192 \<le> n \<and> n \<le> 222 \<and> n \<noteq> 215 then char_of (n + 32) else c)"

section \<open>Strings\<close>

definition str_len :: "string \<Rightarrow> nat" where
  "str_len s = sum_list (map len_utf8 s)"

definition to_ascii_lowercase :: "string \<Rightarrow> string" where
  "to_ascii_lowercase s = map ascii_lower s"

definition to_lowercase :: "string \<Rightarrow> string" where
  "to_lowercase s = map char_lower s"

definition eq_ignore_ascii_case :: "string \<Rightarrow> string \<Rightarrow> bool" where
  "eq_ignore_ascii_case s t = (to_ascii_lowercase s = to_ascii_lowercase t)"

fun starts_with :: "string \<Rightarrow> string \<Rightarrow> bool" where
  "starts_with s [] = True"
| "starts_with [] (p # ps) = False"
| "starts_with (c # cs) (p # ps) = (c = p \<and> starts_with cs ps)"

definition ends_with :: "string \<Rightarrow> string \<Rightarrow> bool" where
  "ends_with s p = starts_with (rev s) (rev p)"

fun contains :: "string \<Rightarrow> string \<Rightarrow> bool" where
  "contains [] p = (p = [])"
| "contains (c # cs) p = (starts_with (c # cs) p \<or> contains cs p)"

definition trim_start :: "string \<Rightarrow> string" where
  "trim_start s = dropWhile is_whitespace s"

definition trim :: "string \<Rightarrow> string" where
  "trim s = rev (dropWhile is_whitespace (rev (dropWhile is_whitespace s)))"

text \<open>\<open>str::split_whitespace\<close>\<close>

function split_whitespace :: "string \<Rightarrow> string list" where
  "split_whitespace s =
     (let t = trim_start s in
      if t = [] then []
      else takeWhile (\<lambda>c. \<not> is_whitespace c) t # split_whitespace (dropWhile (\<lambda>c. \<not> is_whitespace c) t))"
  by pat_completeness auto

termination
proof (relation "measure length")
  fix s t :: string
  assume t: "t = trim_start s" "t \<noteq> []"
  obtain c cs where c: "t = c # cs" using t(2) by (meson list.exhaust)
  have nonspace: "\<not> is_whitespace c"
    using t hd_dropWhile [of is_whitespace s] unfolding c trim_start_def by (metis list.sel(1))
  have "length (dropWhile (\<lambda>c. \<not> is_whitespace c) cs) \<le> length cs" by (rule length_dropWhile_le)
  moreover have "length t \<le> length s" unfolding t(1) trim_start_def by (rule length_dropWhile_le)
  ultimately show "(dropWhile (\<lambda>c. \<not> is_whitespace c) t, s) \<in> measure length" using c nonspace by simp
qed simp

declare split_whitespace.simps [simp del]

text \<open>
  Byte slices \<open>&s[..n]\<close> and \<open>&s[n..]\<close>: \<open>None\<close> is the panic on an offset past the end or
  inside a character.
\<close>

fun slice_to :: "string \<Rightarrow> nat \<Rightarrow> string option" where
  "slice_to s 0 = Some []"
| "slice_to [] (Suc n) = None"
| "slice_to (c # cs) (Suc n) =
     (if len_utf8 c \<le> Suc n then map_option (Cons c) (slice_to cs (Suc n - len_utf8 c)) else None)"

fun slice_from :: "string \<Rightarrow> nat \<Rightarrow> string option" where
  "slice_from s 0 = Some s"
| "slice_from [] (Suc n) = None"
| "slice_from (c # cs) (Suc n) =
     (if len_utf8 c \<le> Suc n then slice_from cs (Suc n - len_utf8 c) else None)"

text \<open>\<open>str::split(char)\<close> gives at least one piece; \<open>join\<close> is the inverse.\<close>

fun split_char :: "char \<Rightarrow> string \<Rightarrow> string list" where
  "split_char d [] = [[]]"
| "split_char d (c # cs) =
     (if c = d then [] # split_char d cs
      else (case split_char d cs of [] \<Rightarrow> [[c]] | p # ps \<Rightarrow> (c # p) # ps))"

fun join :: "string \<Rightarrow> string list \<Rightarrow> string" where
  "join sep [] = []"
| "join sep [x] = x"
| "join sep (x # y # zs) = x @ sep @ join sep (y # zs)"

text \<open>\<open>str::replace\<close>: left to right, non-overlapping; an empty pattern matches around every
  character.\<close>

function replace_nonempty :: "string \<Rightarrow> string \<Rightarrow> string \<Rightarrow> string" where
  "replace_nonempty p r s =
     (if p = [] then s
      else case s of [] \<Rightarrow> []
      | c # cs \<Rightarrow> if starts_with s p then r @ replace_nonempty p r (drop (length p) s)
                 else c # replace_nonempty p r cs)"
  by pat_completeness auto
termination
  by (relation "measure (\<lambda>(p, r, s). length s)") (auto intro!: diff_less)

definition str_replace :: "string \<Rightarrow> string \<Rightarrow> string \<Rightarrow> string" where
  "str_replace s p r =
     (if p = [] then r @ concat (map (\<lambda>c. c # r) s) else replace_nonempty p r s)"

text \<open>\<open>str::replace\<close> with a character as its pattern.\<close>

definition replace_char :: "string \<Rightarrow> char \<Rightarrow> string \<Rightarrow> string" where
  "replace_char s p r = concat (map (\<lambda>c. if c = p then r else [c]) s)"

text \<open>Decimal rendering of unsigned integers and two-digit lower-case hexadecimal.\<close>

fun show_nat :: "nat \<Rightarrow> string" where
  "show_nat n = (if n < 10 then [char_of (48 + n)] else show_nat (n div 10) @ [char_of (48 + n mod 10)])"

declare show_nat.simps [simp del]

definition hex_digit :: "nat \<Rightarrow> char" where
  "hex_digit n = char_of (if n < 10 then 48 + n else 87 + n)"

text \<open>The reading side of quoted text, in SQL and in CSV: it ends at the first closing character that is
  not doubled.\<close>

fun read_delimited :: "char \<Rightarrow> string \<Rightarrow> (string \<times> string) option" where
  "read_delimited q [] = None"
| "read_delimited q [c] = (if c = q then Some ([], []) else None)"
| "read_delimited q (c # d # cs) =
     (if c \<noteq> q then map_option (apfst (Cons c)) (read_delimited q (d # cs))
      else if d = q then map_option (apfst (Cons q)) (read_delimited q cs)
      else Some ([], d # cs))"

section \<open>Hash maps with an explicit iteration order\<close>

type_synonym ('k, 'v) hash_map = "('k \<times> 'v) list"

abbreviation hm_wf :: "('k, 'v) hash_map \<Rightarrow> bool" where
  "hm_wf m \<equiv> distinct (map fst m)"

abbreviation hm_get :: "('k, 'v) hash_map \<Rightarrow> 'k \<Rightarrow> 'v option" where
  "hm_get m k \<equiv> map_of m k"

abbreviation hm_insert :: "'k \<Rightarrow> 'v \<Rightarrow> ('k, 'v) hash_map \<Rightarrow> ('k, 'v) hash_map" where
  "hm_insert k v m \<equiv> AList.update k v m"

abbreviation hm_remove :: "'k \<Rightarrow> ('k, 'v) hash_map \<Rightarrow> ('k, 'v) hash_map" where
  "hm_remove k m \<equiv> AList.delete k m"

definition hm_collect :: "('k \<times> 'v) list \<Rightarrow> ('k, 'v) hash_map" where
  "hm_collect kvs = fold (\<lambda>(k, v) m. hm_insert k v m) kvs []"

section \<open>Lemmas\<close>

named_theorems io_simps \<open>evaluation of fallible stateful operations\<close>

lemma is_ok_simps [simp]: "is_ok (Ok a)" "\<not> is_ok (Err e)"
  by (simp_all add: is_ok_def)

lemma is_ok_iff: "is_ok r \<longleftrightarrow> (\<exists>a. r = Ok a)"
  by (cases r) auto

lemma res_bind_simps [simp]: "res_bind (Err e) k = Err e" "res_bind (Ok a) k = k a"
  by (simp_all add: res_bind_def)

lemma res_bind_eq_Ok: "res_bind r k = Ok b \<longleftrightarrow> (\<exists>a. r = Ok a \<and> k a = Ok b)"
  by (cases r) auto

lemma io_ret_eval [io_simps, simp]: "io_ret a s = (Ok a, s)"
  by (simp add: io_ret_def)

lemma io_err_eval [io_simps, simp]: "io_err e s = (Err e, s)"
  by (simp add: io_err_def)

lemma io_lift_eval [io_simps, simp]: "io_lift r s = (r, s)"
  by (simp add: io_lift_def)

lemma io_ignore_eval [io_simps, simp]: "io_ignore m s = (Ok (), snd (m s))"
  by (simp add: io_ignore_def)

lemma io_bind_Ok [io_simps]: "m s = (Ok a, t) \<Longrightarrow> io_bind m k s = k a t"
  by (simp add: io_bind_def)

lemma io_bind_Err [io_simps]: "m s = (Err e, t) \<Longrightarrow> io_bind m k s = (Err e, t)"
  by (simp add: io_bind_def)

lemma io_run_eq: "io_run f s = (r, t) \<longleftrightarrow> (\<exists>a. r = Ok a \<and> f s = (a, t))"
  by (auto simp: io_run_def split: prod.splits)

lemma io_bind_run [io_simps, simp]: "io_bind (io_run f) k s = (case f s of (a, t) \<Rightarrow> k a t)"
  by (simp add: io_bind_def io_run_def split: prod.split)

lemma io_bind_ret [simp]: "io_bind (io_ret a) k = k a"
  by (rule ext) (simp add: io_bind_def)

lemma io_bind_ignore [simp]: "io_bind (io_ignore m) k s = k () (snd (m s))"
  by (simp add: io_bind_def)

lemma io_bind_eq_Ok:
  "io_bind m k s = (Ok b, s') \<longleftrightarrow> (\<exists>a t. m s = (Ok a, t) \<and> k a t = (Ok b, s'))"
  by (auto simp: io_bind_def split: prod.splits sum.splits)

lemma io_bind_eq_Err:
  "io_bind m k s = (Err e, s') \<longleftrightarrow>
     m s = (Err e, s') \<or> (\<exists>a t. m s = (Ok a, t) \<and> k a t = (Err e, s'))"
  by (auto simp: io_bind_def split: prod.splits sum.splits)

text \<open>An invariant of the state that every step keeps is kept by a sequence of steps.\<close>

definition io_keeps :: "('s \<Rightarrow> bool) \<Rightarrow> ('s, 'a) io \<Rightarrow> bool" where
  "io_keeps P m \<longleftrightarrow> (\<forall>s. P s \<longrightarrow> P (snd (m s)))"

lemma io_keepsI: "(\<And>s. P s \<Longrightarrow> P (snd (m s))) \<Longrightarrow> io_keeps P m"
  by (simp add: io_keeps_def)

lemma io_keepsD: "io_keeps P m \<Longrightarrow> P s \<Longrightarrow> P (snd (m s))"
  by (simp add: io_keeps_def)

lemma io_keeps_bind:
  assumes "io_keeps P m" and "\<And>a. io_keeps P (k a)"
  shows "io_keeps P (io_bind m k)"
proof (rule io_keepsI)
  fix s assume "P s"
  with assms show "P (snd (io_bind m k s))"
    by (auto simp: io_keeps_def io_bind_def split: prod.splits sum.splits)
qed

lemma io_keeps_basic [simp]:
  "io_keeps P (io_ret a)" "io_keeps P (io_err e)" "io_keeps P (io_lift r)"
  by (simp_all add: io_keeps_def)

lemma io_keeps_run: "(\<And>s a t. f s = (a, t) \<Longrightarrow> P s \<Longrightarrow> P t) \<Longrightarrow> io_keeps P (io_run f)"
  by (simp add: io_keeps_def io_run_def split: prod.split)

lemma io_keeps_ignore: "io_keeps P m \<Longrightarrow> io_keeps P (io_ignore m)"
  by (simp add: io_keeps_def)

subsection \<open>Strings\<close>

lemma starts_with_iff: "starts_with s p \<longleftrightarrow> prefix p s"
  by (induction s p rule: starts_with.induct) auto

lemma contains_iff: "contains s p \<longleftrightarrow> sublist p s"
proof (induction s p rule: contains.induct)
  case (1 p)
  show ?case by simp
next
  case (2 c cs p)
  then show ?case by (auto simp: starts_with_iff sublist_Cons_right simp del: starts_with.simps)
qed

lemma str_len_simps [simp]:
  "str_len [] = 0" "str_len (c # s) = len_utf8 c + str_len s"
  "str_len (s @ t) = str_len s + str_len t"
  by (simp_all add: str_len_def)

lemma len_utf8_bounds [simp]: "0 < len_utf8 c" "1 \<le> len_utf8 c" "len_utf8 c \<le> 2"
  by (simp_all add: len_utf8_def)

lemma length_le_str_len: "length s \<le> str_len s"
proof (induction s)
  case (Cons c s)
  then show ?case using len_utf8_bounds(2) [of c] by simp
qed simp

lemma slice_to_Some: "slice_to s n = Some p \<Longrightarrow> prefix p s \<and> str_len p = n"
proof (induction s n arbitrary: p rule: slice_to.induct)
  case (3 c cs n)
  then show ?case by (fastforce split: if_splits)
qed auto

lemma slice_to_append: "slice_to (p @ s) (str_len p) = Some p"
proof (induction p)
  case Nil
  show ?case by simp
next
  case (Cons c p)
  obtain n where n: "str_len (c # p) = Suc n"
    using len_utf8_bounds(1) [of c] by (metis add_gr_0 gr0_implies_Suc str_len_simps(2))
  then have "Suc n - len_utf8 c = str_len p" by simp
  with Cons n show ?case by (simp del: str_len_simps) (metis le_add1 str_len_simps(2))
qed

lemma slice_from_append: "slice_from (p @ s) (str_len p) = Some s"
proof (induction p)
  case (Cons c cs)
  obtain n where n: "len_utf8 c = Suc n" by (metis len_utf8_bounds(1) gr0_conv_Suc)
  with Cons show ?case by (simp add: n)
qed simp

lemma slice_to_iff: "slice_to s n = Some p \<longleftrightarrow> prefix p s \<and> str_len p = n"
  using slice_to_append by (auto simp: prefix_def dest!: slice_to_Some)

lemma split_char_not_Nil [simp]: "split_char d s \<noteq> []"
  by (induction s) (auto split: list.splits)

lemma split_char_Cons_same [simp]: "split_char d (d # cs) = [] # split_char d cs"
  by simp

lemma join_Cons: "xs \<noteq> [] \<Longrightarrow> join sep (x # xs) = x @ sep @ join sep xs"
  by (cases xs) auto

lemma join_split_char: "join [d] (split_char d s) = s"
proof (induction s)
  case Nil
  show ?case by simp
next
  case (Cons c cs)
  obtain p ps where s: "split_char d cs = p # ps"
    using split_char_not_Nil [of d cs] by (cases "split_char d cs") auto
  show ?case
  proof (cases "c = d")
    case True
    then show ?thesis using Cons by (simp add: join_Cons)
  next
    case False
    then show ?thesis using Cons s by (cases ps) auto
  qed
qed

lemma split_char_no_sep: "d \<notin> set p \<Longrightarrow> split_char d p = [p]"
  by (induction p) auto

lemma split_char_append: "split_char d (s @ d # t) = split_char d s @ split_char d t"
  by (induction s) (auto split: list.splits simp: append_eq_Cons_conv)

lemma split_char_append_sep:
  "d \<notin> set p \<Longrightarrow> split_char d (p @ d # s) = p # split_char d s"
  by (induction p) auto

lemma split_char_join:
  "xs \<noteq> [] \<Longrightarrow> (\<And>x. x \<in> set xs \<Longrightarrow> d \<notin> set x) \<Longrightarrow> split_char d (join [d] xs) = xs"
proof (induction xs rule: join.induct [of "\<lambda>_ xs. _ xs" "[d]"])
  case (2 sep x)
  then show ?case by (simp add: split_char_no_sep)
next
  case (3 sep x y zs)
  then show ?case by (simp add: split_char_append_sep)
qed auto

lemma replace_char_simps [simp]:
  "replace_char [] p r = []"
  "replace_char (c # cs) p r = (if c = p then r else [c]) @ replace_char cs p r"
  by (simp_all add: replace_char_def)

lemma read_delimited_end:
  assumes "rest = [] \<or> hd rest \<noteq> q"
  shows "read_delimited q (q # rest) = Some ([], rest)"
  using assms by (cases rest) auto

lemma read_delimited_replace:
  assumes "rest = [] \<or> hd rest \<noteq> q"
  shows "read_delimited q (replace_char name q [q, q] @ q # rest) = Some (name, rest)"
proof (induction name)
  case Nil
  show ?case using read_delimited_end [OF assms] by simp
next
  case (Cons c cs)
  show ?case
  proof (cases "c = q")
    case True
    then show ?thesis using Cons.IH by simp
  next
    case False
    obtain d ds where "replace_char cs q [q, q] @ q # rest = d # ds"
      by (cases "replace_char cs q [q, q] @ q # rest") auto
    then show ?thesis using False Cons.IH by simp
  qed
qed

lemma read_delimited_shorter: "read_delimited q s = Some (v, rest) \<Longrightarrow> length rest < length s"
  by (induction q s arbitrary: v rule: read_delimited.induct) (fastforce split: if_splits)+

lemma join_concat: "join sep (x # xs) = x @ concat (map (\<lambda>y. sep @ y) xs)"
  by (induction xs arbitrary: x) simp_all

text \<open>The loop that writes a separator before every element but the first.\<close>

lemma fold_separated:
  assumes "\<And>out x. push out x = out @ f x"
  shows "fold (\<lambda>(i, x) out. push (if 0 < i then out @ sep else out) x) (List.enumerate 0 xs) out = out @ join sep (map f xs)"
proof -
  have push: "push = (\<lambda>out x. out @ f x)" using assms by blast
  have later: "fold (\<lambda>(i, x) out. (if 0 < i then out @ sep else out) @ f x) (List.enumerate (Suc n) xs) out =
      out @ concat (map (\<lambda>x. sep @ f x) xs)" for n out xs
    by (induction xs arbitrary: n out) simp_all
  show ?thesis
    unfolding push by (cases xs) (simp_all add: later join_concat comp_def)
qed

lemma trim_trim: "trim (trim s) = trim s"
proof -
  have "dropWhile is_whitespace (trim s) = trim s"
  proof (cases "dropWhile is_whitespace s")
    case (Cons c cs)
    then have ws: "\<not> is_whitespace c" by (metis hd_dropWhile list.distinct(1) list.sel(1))
    have "trim s = c # rev (dropWhile is_whitespace (rev cs))" if "\<exists>x\<in>set cs. \<not> is_whitespace x"
      using that by (simp add: trim_def Cons dropWhile_append)
    moreover have "trim s = [c]" if "\<forall>x\<in>set cs. is_whitespace x"
      using that ws by (simp add: trim_def Cons dropWhile_append)
    ultimately show ?thesis using ws by (cases "\<exists>x\<in>set cs. \<not> is_whitespace x") auto
  next
    case Nil
    then show ?thesis unfolding trim_def Nil by simp
  qed
  moreover have "rev (dropWhile is_whitespace (rev (trim s))) = trim s"
    by (simp add: trim_def)
  ultimately show ?thesis by (metis trim_def)
qed

subsection \<open>Hash maps\<close>

lemma hm_get_insert [simp]: "hm_get (hm_insert k v m) = (hm_get m)(k \<mapsto> v)"
  by (rule update_conv')

lemma hm_wf_insert [simp]: "hm_wf m \<Longrightarrow> hm_wf (hm_insert k v m)"
  by (simp add: distinct_update)

lemma hm_get_remove [simp]: "hm_get (hm_remove k m) = (hm_get m)(k := None)"
  by (rule delete_conv')

lemma hm_wf_remove [simp]: "hm_wf m \<Longrightarrow> hm_wf (hm_remove k m)"
  by (simp add: distinct_delete)

lemma hm_collect_fold:
  "hm_get (fold (\<lambda>(k, v) m. hm_insert k v m) kvs m) = hm_get m ++ map_of (rev kvs)"
  by (induction kvs arbitrary: m) (auto simp: fun_eq_iff map_add_def split: option.splits)

lemma hm_collect_get: "hm_get (hm_collect kvs) = map_of (rev kvs)"
  by (simp add: hm_collect_def hm_collect_fold)

lemma hm_collect_wf_fold: "hm_wf m \<Longrightarrow> hm_wf (fold (\<lambda>(k, v) m. hm_insert k v m) kvs m)"
  by (induction kvs arbitrary: m) auto

lemma hm_collect_wf: "hm_wf (hm_collect kvs)"
  by (simp add: hm_collect_def hm_collect_wf_fold)

section \<open>Simulation\<close>

text \<open>
  The contract between a component and its specification: a relation between abstract and concrete
  states that every operation keeps. It is kept by every sequence of operations.
\<close>

locale simulation =
  fixes rel :: "'a \<Rightarrow> 'c \<Rightarrow> bool"
    and abstract_step :: "'op \<Rightarrow> 'a \<Rightarrow> 'a"
    and concrete_step :: "'op \<Rightarrow> 'c \<Rightarrow> 'c"
  assumes simulates_step: "rel a c \<Longrightarrow> rel (abstract_step x a) (concrete_step x c)"
begin

lemma simulates_run: "rel a c \<Longrightarrow> rel (fold abstract_step xs a) (fold concrete_step xs c)"
  by (induction xs arbitrary: a c) (simp_all add: simulates_step)

end

end
