(* ===== verification/Json.thy ===== *)
theory Json
  imports Rust_Prelude "HOL-Library.Word"
begin

text \<open>
  JSON values as \<open>serde_json::Value\<close> has them, and the interface of a serializer.

  The crate builds \<open>serde_json\<close> with \<open>arbitrary_precision\<close> and \<open>preserve_order\<close>
  (\<open>dbx-core/Cargo.toml\<close>): a number is its decimal text, and an object is a map iterated in the
  order of insertion. \<open>serde_json\<close> itself is not part of
  the repository: a codec is an argument of the operations that (de)serialize, and \<open>codec_ok\<close>
  states what they rely on, that reading back what was written gives the value.
\<close>

type_synonym json_number = string

datatype json =
    JNull
  | JBool bool
  | JNumber json_number
  | JString string
  | JArray "json list"
  | JObject "(string \<times> json) list"

text \<open>
  Equality of values (\<open>PartialEq\<close> of \<open>serde_json::Value\<close>). An object is an \<open>IndexMap\<close>: two objects
  are equal when they have as many entries and every entry of the first is one of the second; the
  order does not matter. The keys of an object are distinct, in it and in the values it holds.
\<close>

fun json_eq :: "json \<Rightarrow> json \<Rightarrow> bool" where
  "json_eq JNull JNull = True"
| "json_eq (JBool a) (JBool b) = (a = b)"
| "json_eq (JNumber m) (JNumber n) = (m = n)"
| "json_eq (JString s) (JString t) = (s = t)"
| "json_eq (JArray xs) (JArray ys) = list_all2 json_eq xs ys"
| "json_eq (JObject fs) (JObject gs) =
     (length fs = length gs \<and>
      list_all (\<lambda>(k, v). case map_of gs k of None \<Rightarrow> False | Some w \<Rightarrow> json_eq v w) fs)"
| "json_eq _ _ = False"

fun json_wf :: "json \<Rightarrow> bool" where
  "json_wf (JArray xs) = list_all json_wf xs"
| "json_wf (JObject fs) = (distinct (map fst fs) \<and> list_all (\<lambda>(k, v). json_wf v) fs)"
| "json_wf _ = True"

lemma json_eq_refl: "json_wf v \<Longrightarrow> json_eq v v"
proof (induction v rule: json_wf.induct)
  case (1 xs)
  then show ?case by (auto simp: list_all_iff list_all2_conv_all_nth)
next
  case (2 fs)
  then show ?case by (fastforce simp: list_all_iff)
qed simp_all

record ('a, 'b) codec =
  to_vec :: "'a \<Rightarrow> 'b result"
  from_slice :: "'b \<Rightarrow> 'a result"

definition codec_ok :: "('a, 'b) codec \<Rightarrow> bool" where
  "codec_ok c \<longleftrightarrow> (\<forall>a. \<exists>b. to_vec c a = Ok b \<and> from_slice c b = Ok a)"

lemma codec_okE:
  assumes "codec_ok c"
  obtains b where "to_vec c a = Ok b" "from_slice c b = Ok a"
  using assms by (auto simp: codec_ok_def)

lemma codec_ok_roundtrip: "codec_ok c \<Longrightarrow> to_vec c a = Ok b \<Longrightarrow> from_slice c b = Ok a"
  by (auto simp: codec_ok_def) (metis Inr_inject)

end
