(* ===== verification/State_Store.thy ===== *)
theory State_Store
  imports Json
begin

text \<open>
  The key-value stores that persist transaction logs and state-machine entries: the
  \<open>state_store\<close> table of the local SQLite database (\<open>storage.rs\<close>), the trait
  \<open>StateBackend\<close> and its implementations \<open>LocalBackend\<close>, \<open>RedisBackend\<close> and
  \<open>DBBackend\<close> (\<open>state_persistence.rs\<close>).

  Every access can fail. A store carries the schedule of the outcomes of its coming accesses
  (\<open>faults\<close>: \<open>Some e\<close> fails with \<open>e\<close>, \<open>None\<close> succeeds; past the end all succeed), so that a
  theorem about every store is a theorem about every pattern of I/O errors.

  The locale \<open>kv_backend\<close> is the contract of the trait, over a view of the store as a map; it
  is interpreted on the three backends. \<open>versioned_backend\<close> adds the contract of
  \<open>compare_and_swap\<close>, which only \<open>LocalBackend\<close> implements.
\<close>

section \<open>Failing accesses\<close>

record fault_schedule =
  faults :: "string option list"

definition attempt ::
    "(string \<Rightarrow> string) \<Rightarrow> ('x fault_schedule_scheme, 'a) io \<Rightarrow> ('x fault_schedule_scheme, 'a) io" where
  "attempt wrap m s =
     (case faults s of
        [] \<Rightarrow> m s
      | None # fs \<Rightarrow> m (s\<lparr>faults := fs\<rparr>)
      | Some e # fs \<Rightarrow> (Err (wrap e), s\<lparr>faults := fs\<rparr>))"

section \<open>The table state\_store\<close>

record 'b state_row =
  row_value :: 'b
  row_content_type :: string
  row_version :: nat

record 'b storage = fault_schedule +
  rows :: "string \<rightharpoonup> 'b state_row"

definition with_conn :: "('b storage, 'a) io \<Rightarrow> ('b storage, 'a) io" where
  "with_conn m = attempt id m"

definition upsert_row :: "string \<Rightarrow> 'b \<Rightarrow> string \<Rightarrow> (string \<rightharpoonup> 'b state_row) \<Rightarrow> (string \<rightharpoonup> 'b state_row)" where
  "upsert_row key val ct m =
     m(key \<mapsto> (case m key of
        None \<Rightarrow> \<lparr>row_value = val, row_content_type = ct, row_version = 1\<rparr>
      | Some r \<Rightarrow> \<lparr>row_value = val, row_content_type = ct, row_version = row_version r + 1\<rparr>))"

definition save_state :: "string \<Rightarrow> 'b \<Rightarrow> string \<Rightarrow> ('b storage, unit) io" where
  "save_state key val ct = with_conn (\<lambda>s. (Ok (), s\<lparr>rows := upsert_row key val ct (rows s)\<rparr>))"

definition load_state :: "string \<Rightarrow> ('b storage, ('b \<times> string) option) io" where
  "load_state key =
     with_conn (\<lambda>s. (Ok (map_option (\<lambda>r. (row_value r, row_content_type r)) (rows s key)), s))"

definition delete_state :: "string \<Rightarrow> ('b storage, unit) io" where
  "delete_state key = with_conn (\<lambda>s. (Ok (), s\<lparr>rows := (rows s)(key := None)\<rparr>))"

definition state_exists :: "string \<Rightarrow> ('b storage, bool) io" where
  "state_exists key = with_conn (\<lambda>s. (Ok (rows s key \<noteq> None), s))"

definition get_state_version :: "string \<Rightarrow> ('b storage, nat option) io" where
  "get_state_version key = with_conn (\<lambda>s. (Ok (map_option row_version (rows s key)), s))"

definition compare_and_swap_row ::
    "string \<Rightarrow> nat option \<Rightarrow> 'b \<Rightarrow> string \<Rightarrow> ('b storage, bool) io" where
  "compare_and_swap_row key expected_version new_value ct =
     with_conn (\<lambda>s. case (rows s key, expected_version) of
         (None, None) \<Rightarrow>
           (Ok True, s\<lparr>rows := (rows s)(key \<mapsto>
              \<lparr>row_value = new_value, row_content_type = ct, row_version = 1\<rparr>)\<rparr>)
       | (Some r, Some expected) \<Rightarrow>
           if row_version r = expected
           then (Ok True, s\<lparr>rows := (rows s)(key \<mapsto>
              \<lparr>row_value = new_value, row_content_type = ct, row_version = row_version r + 1\<rparr>)\<rparr>)
           else (Ok False, s)
       | _ \<Rightarrow> (Ok False, s))"

section \<open>The trait StateBackend\<close>

record ('s, 'b) state_backend =
  be_save :: "string \<Rightarrow> 'b \<Rightarrow> ('s, unit) io"
  be_save_with_content_type :: "string \<Rightarrow> 'b \<Rightarrow> string \<Rightarrow> ('s, unit) io"
  be_load :: "string \<Rightarrow> ('s, 'b option) io"
  be_delete :: "string \<Rightarrow> ('s, unit) io"
  be_exists :: "string \<Rightarrow> ('s, bool) io"
  be_compare_and_swap :: "string \<Rightarrow> 'b option \<Rightarrow> 'b \<Rightarrow> ('s, bool) io"

text \<open>The provided method of the trait, which a backend without CAS inherits.\<close>

definition cas_unsupported :: "string \<Rightarrow> 'b option \<Rightarrow> 'b \<Rightarrow> ('s, bool) io" where
  "cas_unsupported key old new = io_err ''CAS not supported by this backend''"

definition octet_stream :: string where
  "octet_stream = ''application/octet-stream''"

subsection \<open>LocalBackend\<close>

record state_entry =
  entry_key :: string
  current_state :: string
  entry_version :: nat
  entry_metadata :: json

definition local_compare_and_swap ::
    "(state_entry, 'b) codec \<Rightarrow> string \<Rightarrow> 'b option \<Rightarrow> 'b \<Rightarrow> ('b storage, bool) io" where
  "local_compare_and_swap c key old new =
     (case old of
        None \<Rightarrow> compare_and_swap_row key None new ''application/json''
      | Some data \<Rightarrow>
          (case from_slice c data of
             Err e \<Rightarrow> io_err (''CAS deserialize error: '' @ e)
           | Ok entry \<Rightarrow>
               compare_and_swap_row key (Some (entry_version entry)) new ''application/json''))"

definition local_backend :: "(state_entry, 'b) codec \<Rightarrow> ('b storage, 'b) state_backend" where
  "local_backend c = \<lparr>
     be_save = (\<lambda>key val. save_state key val octet_stream),
     be_save_with_content_type = save_state,
     be_load = (\<lambda>key. io_bind (load_state key) (\<lambda>r. io_ret (map_option fst r))),
     be_delete = delete_state,
     be_exists = state_exists,
     be_compare_and_swap = local_compare_and_swap c\<rparr>"

subsection \<open>RedisBackend\<close>

record 'b redis = fault_schedule +
  redis_keys :: "string \<rightharpoonup> 'b"

definition prefixed :: "string \<Rightarrow> string \<Rightarrow> string" where
  "prefixed pre key = pre @ '':'' @ key"

text \<open>A command first opens a connection, then runs: two accesses, each with its own error.\<close>

definition redis_command ::
    "string \<Rightarrow> ('b redis, 'a) io \<Rightarrow> ('b redis, 'a) io" where
  "redis_command what m =
     io_bind (attempt (\<lambda>e. ''redis connection error: '' @ e) (io_ret ()))
       (\<lambda>_. attempt (\<lambda>e. ''redis '' @ what @ '' error: '' @ e) m)"

definition redis_save :: "string \<Rightarrow> string \<Rightarrow> 'b \<Rightarrow> ('b redis, unit) io" where
  "redis_save pre key val =
     redis_command ''set'' (\<lambda>s. (Ok (), s\<lparr>redis_keys := (redis_keys s)(prefixed pre key \<mapsto> val)\<rparr>))"

definition redis_load :: "string \<Rightarrow> string \<Rightarrow> ('b redis, 'b option) io" where
  "redis_load pre key = redis_command ''get'' (\<lambda>s. (Ok (redis_keys s (prefixed pre key)), s))"

definition redis_delete :: "string \<Rightarrow> string \<Rightarrow> ('b redis, unit) io" where
  "redis_delete pre key =
     redis_command ''del'' (\<lambda>s. (Ok (), s\<lparr>redis_keys := (redis_keys s)(prefixed pre key := None)\<rparr>))"

definition redis_exists :: "string \<Rightarrow> string \<Rightarrow> ('b redis, bool) io" where
  "redis_exists pre key =
     redis_command ''exists'' (\<lambda>s. (Ok (redis_keys s (prefixed pre key) \<noteq> None), s))"

definition redis_backend :: "string \<Rightarrow> ('b redis, 'b) state_backend" where
  "redis_backend pre = \<lparr>
     be_save = redis_save pre,
     be_save_with_content_type = (\<lambda>key val _. redis_save pre key val),
     be_load = redis_load pre,
     be_delete = redis_delete pre,
     be_exists = redis_exists pre,
     be_compare_and_swap = cas_unsupported\<rparr>"

subsection \<open>DBBackend\<close>

text \<open>\<open>DBBackend::new\<close> panics (\<open>None\<close>) unless the table name is a plain ASCII identifier.\<close>

definition is_ascii_alphanumeric :: "char \<Rightarrow> bool" where
  "is_ascii_alphanumeric c = (is_ascii_alphabetic c \<or> is_ascii_digit c)"

definition db_backend_new :: "string \<Rightarrow> string option" where
  "db_backend_new schema_table =
     (case schema_table of
        [] \<Rightarrow> None
      | c # _ \<Rightarrow>
          if is_ascii_digit c then None
          else if \<not> list_all (\<lambda>c. is_ascii_alphanumeric c \<or> c = CHR ''_'') schema_table then None
          else Some schema_table)"

record 'b database = fault_schedule +
  db_rows :: "string \<rightharpoonup> 'b state_row"

definition db_command :: "string \<Rightarrow> ('b database, 'a) io \<Rightarrow> ('b database, 'a) io" where
  "db_command what m =
     io_bind (attempt (\<lambda>e. ''db pool error: '' @ e) (io_ret ()))
       (\<lambda>_. attempt (\<lambda>e. ''db '' @ what @ '' error: '' @ e) m)"

definition db_save :: "string \<Rightarrow> 'b \<Rightarrow> string \<Rightarrow> ('b database, unit) io" where
  "db_save key val ct =
     db_command ''upsert'' (\<lambda>s. (Ok (), s\<lparr>db_rows := upsert_row key val ct (db_rows s)\<rparr>))"

definition db_load :: "string \<Rightarrow> ('b database, 'b option) io" where
  "db_load key = db_command ''query'' (\<lambda>s. (Ok (map_option row_value (db_rows s key)), s))"

definition db_delete :: "string \<Rightarrow> ('b database, unit) io" where
  "db_delete key = db_command ''delete'' (\<lambda>s. (Ok (), s\<lparr>db_rows := (db_rows s)(key := None)\<rparr>))"

definition db_exists :: "string \<Rightarrow> ('b database, bool) io" where
  "db_exists key = db_command ''exists'' (\<lambda>s. (Ok (db_rows s key \<noteq> None), s))"

definition db_backend :: "('b database, 'b) state_backend" where
  "db_backend = \<lparr>
     be_save = (\<lambda>key val. db_save key val octet_stream),
     be_save_with_content_type = db_save,
     be_load = db_load,
     be_delete = db_delete,
     be_exists = db_exists,
     be_compare_and_swap = cas_unsupported\<rparr>"

section \<open>The contract of a backend\<close>

text \<open>
  Over the view of a store as a map: an access that fails changes nothing, one that succeeds
  has its effect on its key only, and reads report what was last written.
\<close>

locale kv_backend =
  fixes B :: "('s, 'b) state_backend"
    and view :: "'s \<Rightarrow> string \<rightharpoonup> 'b"
  assumes save_ok: "be_save B k v s = (Ok u, t) \<Longrightarrow> view t = (view s)(k \<mapsto> v)"
    and save_err: "be_save B k v s = (Err e, t) \<Longrightarrow> view t = view s"
    and load_ok: "be_load B k s = (Ok r, t) \<Longrightarrow> r = view s k \<and> view t = view s"
    and load_err: "be_load B k s = (Err e, t) \<Longrightarrow> view t = view s"
    and delete_ok: "be_delete B k s = (Ok u, t) \<Longrightarrow> view t = (view s)(k := None)"
    and delete_err: "be_delete B k s = (Err e, t) \<Longrightarrow> view t = view s"
    and exists_ok: "be_exists B k s = (Ok b, t) \<Longrightarrow> b = (view s k \<noteq> None) \<and> view t = view s"
    and exists_err: "be_exists B k s = (Err e, t) \<Longrightarrow> view t = view s"
    and cas_true: "be_compare_and_swap B k old v s = (Ok True, t) \<Longrightarrow> view t = (view s)(k \<mapsto> v)"
    and cas_false: "be_compare_and_swap B k old v s = (Ok False, t) \<Longrightarrow> view t = view s"
    and cas_err: "be_compare_and_swap B k old v s = (Err e, t) \<Longrightarrow> view t = view s"
begin

text \<open>What a client of any backend may rely on: a write is read back, and other keys keep
  their contents.\<close>

lemma load_after_save:
  "be_save B k v s = (Ok u, t) \<Longrightarrow> be_load B k' t = (Ok r, t') \<Longrightarrow>
     r = (if k' = k then Some v else view s k')"
  using save_ok load_ok by fastforce

lemma load_view: "view (snd (be_load B k s)) = view s"
  using load_ok load_err by (cases "be_load B k s", cases "fst (be_load B k s)") auto

lemma save_view: "view (snd (be_save B k v s)) = view s \<or> view (snd (be_save B k v s)) = (view s)(k \<mapsto> v)"
  using save_ok save_err by (cases "be_save B k v s", cases "fst (be_save B k v s)") auto

lemma cas_view:
  "view (snd (be_compare_and_swap B k old v s)) = view s \<or>
   view (snd (be_compare_and_swap B k old v s)) = (view s)(k \<mapsto> v)"
proof (cases "be_compare_and_swap B k old v s")
  case (Pair r t)
  then show ?thesis
    using cas_true cas_false cas_err by (cases r) (auto, metis (full_types))
qed

end

text \<open>
  The contract of optimistic locking: each key has a version, CAS succeeds exactly when the
  caller's version is the stored one, and a success moves the version on.
\<close>

locale versioned_backend = kv_backend B view
  for B :: "('s, 'b) state_backend" and view :: "'s \<Rightarrow> string \<rightharpoonup> 'b" +
  fixes version :: "'s \<Rightarrow> string \<rightharpoonup> nat"
    and c :: "(state_entry, 'b) codec"
  assumes cas_iff: "be_compare_and_swap B k (Some old) v s = (Ok b, t) \<Longrightarrow>
      b \<longleftrightarrow> (\<exists>e. from_slice c old = Ok e \<and> version s k = Some (entry_version e))"
    and cas_version: "be_compare_and_swap B k (Some old) v s = (Ok True, t) \<Longrightarrow>
      version t = (version s)(k \<mapsto> the (version s k) + 1)"
    and cas_failed: "be_compare_and_swap B k (Some old) v s = (r, t) \<Longrightarrow> r \<noteq> Ok True \<Longrightarrow>
      version t = version s"
    and load_version: "version (snd (be_load B k s)) = version s"
    and version_dom: "dom (version s) = dom (view s)"

section \<open>The backends meet the contract\<close>

lemma attempt_cases:
  assumes "attempt wrap m s = (r, t)"
  obtains (fault) fs e where "r = Err (wrap e)" "t = s\<lparr>faults := fs\<rparr>"
    | (run) fs where "m (s\<lparr>faults := fs\<rparr>) = (r, t)"
proof (cases "faults s")
  case Nil
  then have "s\<lparr>faults := []\<rparr> = s" by simp
  with Nil assms run [of "[]"] show ?thesis by (simp add: attempt_def)
next
  case (Cons f fs)
  with assms fault run [of fs] show ?thesis
    by (cases f) (auto simp: attempt_def)
qed

definition storage_view :: "'b storage \<Rightarrow> string \<rightharpoonup> 'b" where
  "storage_view s k = map_option row_value (rows s k)"

definition storage_version :: "'b storage \<Rightarrow> string \<rightharpoonup> nat" where
  "storage_version s k = map_option row_version (rows s k)"

definition redis_view :: "string \<Rightarrow> 'b redis \<Rightarrow> string \<rightharpoonup> 'b" where
  "redis_view pre s k = redis_keys s (prefixed pre k)"

definition database_view :: "'b database \<Rightarrow> string \<rightharpoonup> 'b" where
  "database_view s k = map_option row_value (db_rows s k)"

named_theorems store_defs \<open>definitions of the accesses to a store\<close>

lemmas [store_defs] = storage_view_def storage_version_def redis_view_def database_view_def
  with_conn_def save_state_def load_state_def delete_state_def state_exists_def
  compare_and_swap_row_def redis_command_def redis_save_def redis_load_def redis_delete_def
  redis_exists_def db_command_def db_save_def db_load_def db_delete_def db_exists_def
  cas_unsupported_def

lemma prefixed_inject [simp]: "prefixed pre k = prefixed pre k' \<longleftrightarrow> k = k'"
  by (simp add: prefixed_def)

lemma upsert_row_same [simp]:
  "upsert_row k v ct m k = Some \<lparr>row_value = v, row_content_type = ct,
     row_version = (case m k of None \<Rightarrow> 1 | Some r \<Rightarrow> row_version r + 1)\<rparr>"
  by (simp add: upsert_row_def split: option.split)

lemma upsert_row_other [simp]: "k' \<noteq> k \<Longrightarrow> upsert_row k v ct m k' = m k'"
  by (simp add: upsert_row_def)

lemma local_cas_cases:
  assumes "local_compare_and_swap c k old v s = (r, t)"
  obtains (err) e fs where "r = Err e" "t = s\<lparr>faults := fs\<rparr>"
    | (stale) fs where "r = Ok False" "t = s\<lparr>faults := fs\<rparr>"
        "\<And>data n. old = Some data \<Longrightarrow> map_option row_version (rows s k) = Some n \<Longrightarrow>
           \<not> (\<exists>e. from_slice c data = Ok e \<and> entry_version e = n)"
    | (swapped) fs n ct where "r = Ok True"
        "t = s\<lparr>faults := fs, rows := (rows s)(k \<mapsto> \<lparr>row_value = v, row_content_type = ct, row_version = n\<rparr>)\<rparr>"
        "\<And>data. old = Some data \<Longrightarrow> \<exists>row. rows s k = Some row \<and> n = row_version row + 1 \<and>
           (\<exists>e. from_slice c data = Ok e \<and> entry_version e = row_version row)"
proof (cases "\<exists>data e. old = Some data \<and> from_slice c data = Err e")
  case True
  with assms err [of _ "faults s"] show ?thesis
    by (auto simp: local_compare_and_swap_def)
next
  case False
  then obtain ev where cas: "compare_and_swap_row k ev v ''application/json'' s = (r, t)"
    and ev: "\<And>data. old = Some data \<Longrightarrow>
      \<exists>entry. from_slice c data = Ok entry \<and> ev = Some (entry_version entry)"
    using assms by (cases old; fastforce simp: local_compare_and_swap_def split: sum.splits)
  show ?thesis
    using cas unfolding compare_and_swap_row_def with_conn_def
  proof (cases rule: attempt_cases)
    case (fault fs e)
    then show ?thesis by (rule err)
  next
    case (run fs)
    then show ?thesis
      using ev stale [where fs = fs] swapped [where fs = fs]
      by (cases "rows s k"; cases ev) (fastforce split: if_splits)+
  qed
qed

text \<open>
  The accesses of each backend on its view; \<open>store_access\<close> is the shape that gives the laws of
  the contract.
\<close>

lemmas store_access = fun_eq_iff io_bind_def option.map_comp comp_def

lemma local_access:
  "be_save (local_backend c) k v s = (r1, t) \<Longrightarrow>
     storage_view t = (if is_ok r1 then (storage_view s)(k \<mapsto> v) else storage_view s)"
  "be_load (local_backend c) k s = (r2, t) \<Longrightarrow>
     storage_view t = storage_view s \<and> (is_ok r2 \<longrightarrow> r2 = Ok (storage_view s k))"
  "be_delete (local_backend c) k s = (r3, t) \<Longrightarrow>
     storage_view t = (if is_ok r3 then (storage_view s)(k := None) else storage_view s)"
  "be_exists (local_backend c) k s = (r4, t) \<Longrightarrow>
     storage_view t = storage_view s \<and> (is_ok r4 \<longrightarrow> r4 = Ok (storage_view s k \<noteq> None))"
  "be_compare_and_swap (local_backend c) k old v s = (r5, t) \<Longrightarrow>
     storage_view t = (if r5 = Ok True then (storage_view s)(k \<mapsto> v) else storage_view s)"
  by (auto simp: local_backend_def store_defs store_access
      split: prod.splits sum.splits elim!: attempt_cases local_cas_cases)

lemma redis_access:
  "be_save (redis_backend pre) k v s = (r1, t) \<Longrightarrow>
     redis_view pre t = (if is_ok r1 then (redis_view pre s)(k \<mapsto> v) else redis_view pre s)"
  "be_load (redis_backend pre) k s = (r2, t) \<Longrightarrow>
     redis_view pre t = redis_view pre s \<and> (is_ok r2 \<longrightarrow> r2 = Ok (redis_view pre s k))"
  "be_delete (redis_backend pre) k s = (r3, t) \<Longrightarrow>
     redis_view pre t = (if is_ok r3 then (redis_view pre s)(k := None) else redis_view pre s)"
  "be_exists (redis_backend pre) k s = (r4, t) \<Longrightarrow>
     redis_view pre t = redis_view pre s \<and> (is_ok r4 \<longrightarrow> r4 = Ok (redis_view pre s k \<noteq> None))"
  by (auto simp: redis_backend_def store_defs store_access
      split: prod.splits sum.splits elim!: attempt_cases)

lemma db_access:
  "be_save db_backend k v s = (r1, t) \<Longrightarrow>
     database_view t = (if is_ok r1 then (database_view s)(k \<mapsto> v) else database_view s)"
  "be_load db_backend k s = (r2, t) \<Longrightarrow>
     database_view t = database_view s \<and> (is_ok r2 \<longrightarrow> r2 = Ok (database_view s k))"
  "be_delete db_backend k s = (r3, t) \<Longrightarrow>
     database_view t = (if is_ok r3 then (database_view s)(k := None) else database_view s)"
  "be_exists db_backend k s = (r4, t) \<Longrightarrow>
     database_view t = database_view s \<and> (is_ok r4 \<longrightarrow> r4 = Ok (database_view s k \<noteq> None))"
  by (auto simp: db_backend_def store_defs store_access
      split: prod.splits sum.splits elim!: attempt_cases)

lemma cas_unsupported_backends:
  "be_compare_and_swap (redis_backend pre) k old v = io_err ''CAS not supported by this backend''"
  "be_compare_and_swap db_backend k old v = io_err ''CAS not supported by this backend''"
  by (simp_all add: redis_backend_def db_backend_def cas_unsupported_def)

interpretation lb: kv_backend "local_backend c" storage_view
  for c :: "(state_entry, 'b) codec"
  by unfold_locales (auto dest: local_access)

interpretation rb: kv_backend "redis_backend pre" "redis_view pre"
  for pre :: string
  by unfold_locales (auto dest: redis_access simp: cas_unsupported_backends)

interpretation db: kv_backend db_backend database_view
  by unfold_locales (auto dest: db_access simp: cas_unsupported_backends)

interpretation lb: versioned_backend "local_backend c" storage_view storage_version c
  for c :: "(state_entry, 'b) codec"
proof unfold_locales
  fix k :: string and old v :: 'b and s t :: "'b storage" and b r
  show "be_compare_and_swap (local_backend c) k (Some old) v s = (Ok b, t) \<Longrightarrow>
      b \<longleftrightarrow> (\<exists>e. from_slice c old = Ok e \<and> storage_version s k = Some (entry_version e))"
    by (auto simp: local_backend_def storage_version_def elim!: local_cas_cases)
  show "be_compare_and_swap (local_backend c) k (Some old) v s = (Ok True, t) \<Longrightarrow>
      storage_version t = (storage_version s)(k \<mapsto> the (storage_version s k) + 1)"
    by (auto simp: local_backend_def storage_version_def fun_eq_iff elim!: local_cas_cases)
  show "be_compare_and_swap (local_backend c) k (Some old) v s = (r, t) \<Longrightarrow> r \<noteq> Ok True \<Longrightarrow>
      storage_version t = storage_version s"
    by (auto simp: local_backend_def storage_version_def fun_eq_iff elim!: local_cas_cases)
  show "storage_version (snd (be_load (local_backend c) k s)) = storage_version s"
    by (cases "be_load (local_backend c) k s")
      (auto simp: local_backend_def store_defs store_access
        split: prod.splits sum.splits elim!: attempt_cases)
  show "dom (storage_version s) = dom (storage_view s)"
    by (auto simp: storage_version_def storage_view_def dom_def)
qed

end
