(* ===== verification/State_Machine.thy ===== *)
theory State_Machine
  imports State_Store
begin

text \<open>
  The persistent state machine of \<open>state_persistence.rs\<close>: the states and the table of allowed
  transitions, and \<open>StateMachine\<close>, which stores one versioned entry per key and moves it with
  optimistic locking over the backend's \<open>compare_and_swap\<close>.

  \<open>sm_step\<close> runs any number of clients on one key: a client's attempt is a load followed by a
  CAS, and the steps of different clients interleave freely, with any pattern of I/O errors.
  The client lemmas are proved in \<open>versioned_backend\<close> and reach the program through its
  interpretation on \<open>LocalBackend\<close>.
\<close>

section \<open>States and transitions\<close>

datatype state_transition =
    Created | Running | Paused | OscSyncing | Completed | Failed | Cancelled | RollingBack
  | FullyRolledBack | PartiallyRolledBack | RecoveryRequired

fun as_str :: "state_transition \<Rightarrow> string" where
  "as_str Created = ''created''"
| "as_str Running = ''running''"
| "as_str Paused = ''paused''"
| "as_str OscSyncing = ''osc_syncing''"
| "as_str Completed = ''completed''"
| "as_str Failed = ''failed''"
| "as_str Cancelled = ''cancelled''"
| "as_str RollingBack = ''rolling_back''"
| "as_str FullyRolledBack = ''fully_rolled_back''"
| "as_str PartiallyRolledBack = ''partially_rolled_back''"
| "as_str RecoveryRequired = ''recovery_required''"

definition from_str :: "string \<Rightarrow> state_transition option" where
  "from_str s =
     (if s = ''created'' then Some Created
      else if s = ''running'' then Some Running
      else if s = ''paused'' then Some Paused
      else if s = ''osc_syncing'' then Some OscSyncing
      else if s = ''completed'' then Some Completed
      else if s = ''failed'' then Some Failed
      else if s = ''cancelled'' then Some Cancelled
      else if s = ''rolling_back'' then Some RollingBack
      else if s = ''fully_rolled_back'' then Some FullyRolledBack
      else if s = ''partially_rolled_back'' then Some PartiallyRolledBack
      else if s = ''recovery_required'' then Some RecoveryRequired
      else None)"

definition allowed_transitions :: "(state_transition \<times> state_transition list) list" where
  "allowed_transitions =
    [(Created, [Running, Cancelled]),
     (Running, [Paused, OscSyncing, Completed, Failed]),
     (Paused, [Running, Cancelled]),
     (OscSyncing, [Completed, Failed]),
     (Completed, [RollingBack, FullyRolledBack]),
     (Failed, [Running, Cancelled, RollingBack, RecoveryRequired]),
     (Cancelled, []),
     (RollingBack, [FullyRolledBack, PartiallyRolledBack, RecoveryRequired]),
     (FullyRolledBack, []),
     (PartiallyRolledBack, [RecoveryRequired]),
     (RecoveryRequired, [])]"

definition is_valid_transition :: "state_transition \<Rightarrow> state_transition \<Rightarrow> bool" where
  "is_valid_transition from to =
     list_ex (\<lambda>(state, allowed). state = from \<and> to \<in> set allowed) allowed_transitions"

section \<open>StateMachine\<close>

definition state_key :: "string \<Rightarrow> string" where
  "state_key key = ''state:'' @ key"

definition create_state ::
    "(state_entry, 'b) codec \<Rightarrow> ('s, 'b) state_backend \<Rightarrow> string \<Rightarrow> json \<Rightarrow> ('s, state_entry) io" where
  "create_state c B key metadata =
     (let entry = \<lparr>entry_key = key, current_state = as_str Created, entry_version = 1,
                   entry_metadata = metadata\<rparr>
      in io_bind (io_lift (to_vec c entry)) (\<lambda>data.
         io_bind (be_save B (state_key key) data) (\<lambda>_. io_ret entry)))"

text \<open>The checks and the update that one attempt of \<open>transition\<close> makes on the loaded entry.\<close>

definition advance_entry :: "state_transition \<Rightarrow> state_entry \<Rightarrow> state_entry result" where
  "advance_entry to entry =
     (case from_str (current_state entry) of
        None \<Rightarrow> Err (''Invalid current state: '' @ current_state entry)
      | Some current \<Rightarrow>
          if \<not> is_valid_transition current to
          then Err (''Invalid transition: '' @ as_str current @ '' -> '' @ as_str to)
          else Ok (entry\<lparr>current_state := as_str to, entry_version := entry_version entry + 1\<rparr>))"

definition load_entry ::
    "(state_entry, 'b) codec \<Rightarrow> ('s, 'b) state_backend \<Rightarrow> string \<Rightarrow> ('s, state_entry) io" where
  "load_entry c B key =
     io_bind (be_load B (state_key key)) (\<lambda>raw.
       case raw of
         Some data \<Rightarrow> io_lift (from_slice c data)
       | None \<Rightarrow> io_err (''State not found: '' @ key))"

definition compare_and_swap_state ::
    "(state_entry, 'b) codec \<Rightarrow> ('s, 'b) state_backend \<Rightarrow> string \<Rightarrow> nat \<Rightarrow> state_entry \<Rightarrow>
     ('s, bool) io" where
  "compare_and_swap_state c B key expected_version new_state =
     io_bind (io_lift (to_vec c \<lparr>entry_key = key, current_state = [],
                entry_version = expected_version, entry_metadata = JNull\<rparr>)) (\<lambda>old_data.
     io_bind (io_lift (to_vec c new_state)) (\<lambda>new_data.
       be_compare_and_swap B (state_key key) (Some old_data) new_data))"

fun transition_attempts ::
    "(state_entry, 'b) codec \<Rightarrow> ('s, 'b) state_backend \<Rightarrow> string \<Rightarrow> state_transition \<Rightarrow> nat \<Rightarrow>
     ('s, state_entry) io" where
  "transition_attempts c B key to 0 =
     io_err (''CAS failed after 3 retries for state key: '' @ key)"
| "transition_attempts c B key to (Suc n) =
     io_bind (load_entry c B key) (\<lambda>entry.
     io_bind (io_lift (advance_entry to entry)) (\<lambda>new.
     io_bind (compare_and_swap_state c B key (entry_version entry) new) (\<lambda>success.
       if success then io_ret new else transition_attempts c B key to n)))"

text \<open>\<open>for attempt in 0..=max_retries\<close> with \<open>max_retries = 3\<close>.\<close>

definition transition ::
    "(state_entry, 'b) codec \<Rightarrow> ('s, 'b) state_backend \<Rightarrow> string \<Rightarrow> state_transition \<Rightarrow>
     ('s, state_entry) io" where
  "transition c B key to = transition_attempts c B key to 4"

definition get_state ::
    "(state_entry, 'b) codec \<Rightarrow> ('s, 'b) state_backend \<Rightarrow> string \<Rightarrow> ('s, state_entry option) io" where
  "get_state c B key =
     io_bind (be_load B (state_key key)) (\<lambda>raw.
       case raw of
         Some data \<Rightarrow> io_bind (io_lift (from_slice c data)) (\<lambda>entry. io_ret (Some entry))
       | None \<Rightarrow> io_ret None)"

definition delete_state_entry :: "('s, 'b) state_backend \<Rightarrow> string \<Rightarrow> ('s, unit) io" where
  "delete_state_entry B key = be_delete B (state_key key)"

section \<open>Concurrent clients\<close>

text \<open>
  A client is idle, or has loaded and checked the entry it wants to replace. \<open>history\<close> lists
  the states the key has had, the newest first; no step of the program reads it.
\<close>

datatype client = Idle | Loaded state_entry state_entry

record 's sm_world =
  shared :: 's
  clients :: "nat \<Rightarrow> client"
  history :: "string list"

inductive sm_step ::
    "(state_entry, 'b) codec \<Rightarrow> ('s, 'b) state_backend \<Rightarrow> string \<Rightarrow> 's sm_world \<Rightarrow> 's sm_world \<Rightarrow> bool"
  for c B key where
  load: "clients w i = Idle \<Longrightarrow> load_entry c B key (shared w) = (Ok old, s) \<Longrightarrow>
      advance_entry to old = Ok new \<Longrightarrow>
      sm_step c B key w (w\<lparr>shared := s, clients := (clients w)(i := Loaded old new)\<rparr>)"
| load_failed: "clients w i = Idle \<Longrightarrow> load_entry c B key (shared w) = (r, s) \<Longrightarrow>
      (\<And>old. r = Ok old \<Longrightarrow> \<not> is_ok (advance_entry to old)) \<Longrightarrow>
      sm_step c B key w (w\<lparr>shared := s\<rparr>)"
| swap: "clients w i = Loaded old new \<Longrightarrow>
      compare_and_swap_state c B key (entry_version old) new (shared w) = (Ok True, s) \<Longrightarrow>
      sm_step c B key w (w\<lparr>shared := s, clients := (clients w)(i := Idle),
        history := current_state new # history w\<rparr>)"
| swap_failed: "clients w i = Loaded old new \<Longrightarrow>
      compare_and_swap_state c B key (entry_version old) new (shared w) = (r, s) \<Longrightarrow> r \<noteq> Ok True \<Longrightarrow>
      sm_step c B key w (w\<lparr>shared := s, clients := (clients w)(i := Idle)\<rparr>)"

inductive sm_reachable ::
    "(state_entry, 'b) codec \<Rightarrow> ('s, 'b) state_backend \<Rightarrow> string \<Rightarrow> 's sm_world \<Rightarrow> 's sm_world \<Rightarrow> bool"
  for c B key w0 where
  start: "sm_reachable c B key w0 w0"
| step: "sm_reachable c B key w0 w \<Longrightarrow> sm_step c B key w w' \<Longrightarrow> sm_reachable c B key w0 w'"

text \<open>A history is lawful when each state follows from the one before it by an allowed
  transition, and the first is the state of a new entry.\<close>

fun lawful :: "string list \<Rightarrow> bool" where
  "lawful [] = False"
| "lawful [s] = (s = as_str Created)"
| "lawful (s # s' # h) =
     (lawful (s' # h) \<and>
      (case (from_str s', from_str s) of
         (Some a, Some b) \<Rightarrow> is_valid_transition a b
       | _ \<Rightarrow> False))"

text \<open>
  What every interleaving keeps: the stored entry and its row agree on the version, the history
  is lawful and ends in the stored state with one entry per version, and a client whose version
  is the stored one holds the stored entry.
\<close>

definition client_ok :: "state_entry \<Rightarrow> client \<Rightarrow> bool" where
  "client_ok e cl =
     (case cl of
        Idle \<Rightarrow> True
      | Loaded old new \<Rightarrow> (\<exists>to. advance_entry to old = Ok new) \<and>
          entry_version old \<le> entry_version e \<and> (entry_version old = entry_version e \<longrightarrow> old = e))"

definition sm_inv ::
    "(state_entry, 'b) codec \<Rightarrow> ('s \<Rightarrow> string \<rightharpoonup> 'b) \<Rightarrow> ('s \<Rightarrow> string \<rightharpoonup> nat) \<Rightarrow> string \<Rightarrow>
     's sm_world \<Rightarrow> state_entry \<Rightarrow> bool" where
  "sm_inv c view version key w e \<longleftrightarrow>
     (\<exists>d. view (shared w) (state_key key) = Some d \<and> from_slice c d = Ok e) \<and>
     version (shared w) (state_key key) = Some (entry_version e) \<and>
     lawful (history w) \<and> hd (history w) = current_state e \<and>
     length (history w) = entry_version e \<and>
     (\<forall>i. client_ok e (clients w i))"

section \<open>Lemmas on transitions\<close>

lemma from_str_as_str [simp]: "from_str (as_str t) = Some t"
  by (cases t) (simp_all add: from_str_def)

lemma as_str_from_str: "from_str s = Some t \<Longrightarrow> as_str t = s"
  by (auto simp: from_str_def split: if_splits)

lemma as_str_inject [simp]: "as_str t = as_str u \<longleftrightarrow> t = u"
  by (metis from_str_as_str option.inject)

text \<open>The table written as an equation on each state.\<close>

lemma is_valid_transition_simps [simp]:
  "is_valid_transition Created to \<longleftrightarrow> to = Running \<or> to = Cancelled"
  "is_valid_transition Running to \<longleftrightarrow> to = Paused \<or> to = OscSyncing \<or> to = Completed \<or> to = Failed"
  "is_valid_transition Paused to \<longleftrightarrow> to = Running \<or> to = Cancelled"
  "is_valid_transition OscSyncing to \<longleftrightarrow> to = Completed \<or> to = Failed"
  "is_valid_transition Completed to \<longleftrightarrow> to = RollingBack \<or> to = FullyRolledBack"
  "is_valid_transition Failed to \<longleftrightarrow>
     to = Running \<or> to = Cancelled \<or> to = RollingBack \<or> to = RecoveryRequired"
  "is_valid_transition Cancelled to \<longleftrightarrow> False"
  "is_valid_transition RollingBack to \<longleftrightarrow>
     to = FullyRolledBack \<or> to = PartiallyRolledBack \<or> to = RecoveryRequired"
  "is_valid_transition FullyRolledBack to \<longleftrightarrow> False"
  "is_valid_transition PartiallyRolledBack to \<longleftrightarrow> to = RecoveryRequired"
  "is_valid_transition RecoveryRequired to \<longleftrightarrow> False"
  by (simp_all add: is_valid_transition_def allowed_transitions_def)

lemma advance_entry_Ok:
  "advance_entry to old = Ok new \<longleftrightarrow>
     (\<exists>cur. from_str (current_state old) = Some cur \<and> is_valid_transition cur to \<and>
        new = old\<lparr>current_state := as_str to, entry_version := entry_version old + 1\<rparr>)"
  by (auto simp: advance_entry_def split: option.split)

lemma lawful_advance:
  assumes "lawful h" "hd h = current_state old" "advance_entry to old = Ok new"
  shows "lawful (current_state new # h)"
  using assms by (cases h) (auto simp: advance_entry_Ok)

lemma lawful_states:
  "lawful h \<Longrightarrow> s \<in> set h \<Longrightarrow> \<exists>t. from_str s = Some t"
proof (induction h rule: lawful.induct)
  case (2 s')
  then show ?case by (simp del: as_str.simps)
qed (auto split: option.splits)

section \<open>Clients of a versioned backend\<close>

lemma compare_and_swap_state_ok:
  assumes "codec_ok c" "compare_and_swap_state c B key n new s = (r, t)"
  obtains old_data new_data where
    "from_slice c new_data = Ok new"
    "\<And>e. from_slice c old_data = Ok e \<longleftrightarrow> e = \<lparr>entry_key = key, current_state = [],
        entry_version = n, entry_metadata = JNull\<rparr>"
    "be_compare_and_swap B (state_key key) (Some old_data) new_data s = (r, t)"
proof -
  let ?old = "\<lparr>entry_key = key, current_state = [], entry_version = n, entry_metadata = JNull\<rparr>"
  obtain od where od: "to_vec c ?old = Ok od" "from_slice c od = Ok ?old"
    using assms(1) by (rule codec_okE)
  obtain nd where nd: "to_vec c new = Ok nd" "from_slice c nd = Ok new"
    using assms(1) by (rule codec_okE)
  show thesis
    by (rule that [of nd od]) (use od nd assms(2) in \<open>auto simp: compare_and_swap_state_def io_bind_def\<close>)
qed

context versioned_backend
begin

text \<open>Loading the entry reports the stored one and leaves view and versions alone.\<close>

lemma load_entry_stored:
  assumes "load_entry c B key s = (r, t)"
  shows "view t = view s" "version t = version s"
    "r = Ok e \<Longrightarrow> \<exists>d. view s (state_key key) = Some d \<and> from_slice c d = Ok e"
proof -
  obtain r' t' where l: "be_load B (state_key key) s = (r', t')" by fastforce
  then have t: "t = t'"
    using assms by (auto simp: load_entry_def io_bind_def split: sum.splits option.splits)
  show "view t = view s" using load_view [of "state_key key" s] l t by simp
  show "version t = version s" using load_version [of "state_key key" s] l t by simp
  show "\<exists>d. view s (state_key key) = Some d \<and> from_slice c d = Ok e" if "r = Ok e"
    using that assms l load_ok [of "state_key key" s _ t']
    by (auto simp: load_entry_def io_bind_def split: sum.splits option.splits)
qed

lemma swap_ok:
  assumes "codec_ok c" "compare_and_swap_state c B key n new s = (Ok True, t)"
  shows "version s (state_key key) = Some n" "version t (state_key key) = Some (n + 1)"
    "\<exists>d. view t (state_key key) = Some d \<and> from_slice c d = Ok new"
proof -
  obtain od nd where nd: "from_slice c nd = Ok new"
    and od: "\<And>e. from_slice c od = Ok e \<longleftrightarrow> e = \<lparr>entry_key = key, current_state = [],
        entry_version = n, entry_metadata = JNull\<rparr>"
    and cas: "be_compare_and_swap B (state_key key) (Some od) nd s = (Ok True, t)"
    using assms by (rule compare_and_swap_state_ok) blast
  show v: "version s (state_key key) = Some n" using cas_iff [OF cas] od by auto
  show "version t (state_key key) = Some (n + 1)" using cas_version [OF cas] v by simp
  show "\<exists>d. view t (state_key key) = Some d \<and> from_slice c d = Ok new"
    using cas_true [OF cas] nd by simp
qed

lemma swap_stale:
  assumes "codec_ok c" "compare_and_swap_state c B key n new s = (r, t)" "r \<noteq> Ok True"
  shows "view t = view s" "version t = version s"
    "r = Ok False \<Longrightarrow> version s (state_key key) \<noteq> Some n"
proof -
  obtain od nd where 1: "from_slice c nd = Ok new"
    and 2: "\<And>e. from_slice c od = Ok e \<longleftrightarrow> e = \<lparr>entry_key = key, current_state = [],
        entry_version = n, entry_metadata = JNull\<rparr>"
    and 3: "be_compare_and_swap B (state_key key) (Some od) nd s = (r, t)"
    using assms(1,2) by (rule compare_and_swap_state_ok) blast
  show "view t = view s"
  proof (cases r)
    case (Inl e)
    then show ?thesis using 3 cas_err by simp
  next
    case (Inr b)
    then show ?thesis using 3 assms(3) cas_false by (cases b) auto
  qed
  show "version t = version s" using cas_failed [OF 3 assms(3)] .
  show "version s (state_key key) \<noteq> Some n" if "r = Ok False"
    using cas_iff [OF 3 [unfolded that]] 2 by auto
qed

lemma sm_step_inv:
  assumes "codec_ok c" "sm_step c B key w w'" "sm_inv c view version key w e"
  shows "\<exists>e'. sm_inv c view version key w' e'"
  using assms(2)
proof (cases rule: sm_step.cases)
  case (load i old s to new)
  then have "old = e"
    using assms(3) load_entry_stored(3) [OF load(3)] by (auto simp: sm_inv_def)
  then have "sm_inv c view version key w' e"
    using load assms(3) load_entry_stored(1,2) [OF load(3)]
    by (auto simp: sm_inv_def client_ok_def)
  then show ?thesis ..
next
  case (load_failed i r s to)
  then have "sm_inv c view version key w' e"
    using assms(3) load_entry_stored(1,2) [OF load_failed(3)] by (simp add: sm_inv_def)
  then show ?thesis ..
next
  case (swap i old new s)
  have "client_ok e (clients w i)" using assms(3) by (simp add: sm_inv_def)
  moreover have "entry_version old = entry_version e"
    using swap_ok(1) [OF assms(1) swap(3)] assms(3) by (simp add: sm_inv_def)
  ultimately obtain to where "old = e" and adv: "advance_entry to e = Ok new"
    using swap(2) by (auto simp: client_ok_def)
  then have new: "entry_version new = entry_version e + 1" by (auto simp: advance_entry_Ok)
  have "client_ok new (clients w j)" for j
    using assms(3) new by (auto simp: sm_inv_def client_ok_def split: client.splits) (metis le_SucI, metis Suc_n_not_le_n)
  then have "sm_inv c view version key w' new"
    using swap assms(3) swap_ok(2,3) [OF assms(1) swap(3)] adv new \<open>old = e\<close>
      lawful_advance [OF _ _ adv]
    by (auto simp: sm_inv_def client_ok_def)
  then show ?thesis ..
next
  case (swap_failed i old new r s)
  then have "sm_inv c view version key w' e"
    using assms(3) swap_stale(1,2) [OF assms(1) swap_failed(3,4)]
    by (auto simp: sm_inv_def client_ok_def)
  then show ?thesis ..
qed

lemma sm_reachable_inv:
  assumes "codec_ok c" "sm_reachable c B key w0 w" "sm_inv c view version key w0 e0"
  shows "\<exists>e. sm_inv c view version key w e"
  using assms(2) by induction (use assms(1,3) sm_step_inv in blast)+

text \<open>One attempt on an entry whose version is the row's: a loaded entry wins its CAS.\<close>

lemma transition_attempts_ok:
  assumes "codec_ok c" "transition_attempts c B key to n s = (Ok new, t)"
  shows "\<exists>old d d'. view s (state_key key) = Some d \<and> from_slice c d = Ok old \<and>
    advance_entry to old = Ok new \<and> version s (state_key key) = Some (entry_version old) \<and>
    view t (state_key key) = Some d' \<and> from_slice c d' = Ok new \<and>
    version t (state_key key) = Some (entry_version new)"
  using assms(2)
proof (induction n arbitrary: s)
  case (Suc n)
  then obtain old s1 new' b s2 where
    l: "load_entry c B key s = (Ok old, s1)" and adv: "advance_entry to old = Ok new'" and
    sw: "compare_and_swap_state c B key (entry_version old) new' s1 = (Ok b, s2)" and
    fin: "(if b then io_ret new' else transition_attempts c B key to n) s2 = (Ok new, t)"
    by (auto simp: io_bind_eq_Ok io_lift_def)
  note st = load_entry_stored [OF l]
  show ?case
  proof (cases b)
    case True
    then show ?thesis
      using st fin adv swap_ok [OF assms(1), of key "entry_version old" new' s1 s2] sw
      by (auto simp: advance_entry_Ok io_ret_def)
  next
    case False
    then have "view s2 = view s" "version s2 = version s"
      using swap_stale [OF assms(1) sw] st by auto
    then show ?thesis using Suc.IH [of s2] fin False by auto
  qed
qed simp

end

section \<open>StateMachine over LocalBackend\<close>

text \<open>Without I/O errors an access is its effect on the rows.\<close>

lemma attempt_quiet [simp]: "faults s = [] \<Longrightarrow> attempt wrap m s = m s"
  by (simp add: attempt_def)

lemma local_quiet [simp]:
  assumes "faults s = []"
  shows "be_load (local_backend c) k s = (Ok (map_option row_value (rows s k)), s)"
    and "be_save (local_backend c) k v s = (Ok (), s\<lparr>rows := upsert_row k v octet_stream (rows s)\<rparr>)"
    and "be_delete (local_backend c) k s = (Ok (), s\<lparr>rows := (rows s)(k := None)\<rparr>)"
  using assms by (simp_all add: local_backend_def store_defs io_bind_def option.map_comp comp_def)

lemma local_cas_quiet:
  assumes "faults s = []" "rows s k = Some row" "from_slice c od = Ok e"
  shows "be_compare_and_swap (local_backend c) k (Some od) nd s =
    (if entry_version e = row_version row
     then (Ok True, s\<lparr>rows := (rows s)(k \<mapsto> \<lparr>row_value = nd, row_content_type = ''application/json'',
             row_version = row_version row + 1\<rparr>)\<rparr>)
     else (Ok False, s))"
  using assms by (auto simp: local_backend_def local_compare_and_swap_def store_defs)

lemma local_swap_quiet:
  assumes "codec_ok c" "faults s = []" "rows s (state_key key) = Some row" "to_vec c new = Ok nd"
  shows "compare_and_swap_state c (local_backend c) key n new s =
    (if n = row_version row
     then (Ok True, s\<lparr>rows := (rows s)(state_key key \<mapsto> \<lparr>row_value = nd,
             row_content_type = ''application/json'', row_version = row_version row + 1\<rparr>)\<rparr>)
     else (Ok False, s))"
proof -
  let ?old = "\<lparr>entry_key = key, current_state = [], entry_version = n, entry_metadata = JNull\<rparr>"
  obtain od where "to_vec c ?old = Ok od" "from_slice c od = Ok ?old"
    using assms(1) by (rule codec_okE)
  then show ?thesis
    using assms local_cas_quiet [where od = od and e = ?old and c = c and row = row]
    by (simp add: compare_and_swap_state_def io_bind_def io_lift_def)
qed

lemma load_entry_quiet:
  "faults s = [] \<Longrightarrow> load_entry c (local_backend c) key s =
     (case rows s (state_key key) of
        None \<Rightarrow> Err (''State not found: '' @ key)
      | Some row \<Rightarrow> from_slice c (row_value row), s)"
  by (auto simp: load_entry_def io_bind_def io_err_def io_lift_def split: option.splits)

text \<open>The reference for \<open>transition\<close>: one decision on the stored row.\<close>

definition transition_ref ::
    "(state_entry, 'b) codec \<Rightarrow> string \<Rightarrow> state_transition \<Rightarrow> 'b storage \<Rightarrow> state_entry result \<times> 'b storage" where
  "transition_ref c key to s =
     (case rows s (state_key key) of
        None \<Rightarrow> (Err (''State not found: '' @ key), s)
      | Some row \<Rightarrow>
          (case res_bind (from_slice c (row_value row)) (advance_entry to) of
             Inl e \<Rightarrow> (Err e, s)
           | Inr new \<Rightarrow>
               if entry_version new = row_version row + 1
               then (case to_vec c new of
                       Inl e \<Rightarrow> (Err e, s)
                     | Inr nd \<Rightarrow> (Ok new, s\<lparr>rows := (rows s)(state_key key \<mapsto>
                         \<lparr>row_value = nd, row_content_type = ''application/json'',
                          row_version = entry_version new\<rparr>)\<rparr>))
               else (Err (''CAS failed after 3 retries for state key: '' @ key), s)))"

lemma transition_attempt_quiet:
  assumes "codec_ok c" "faults s = []"
  shows "transition_attempts c (local_backend c) key to (Suc n) s =
    (case rows s (state_key key) of
       None \<Rightarrow> transition_ref c key to s
     | Some row \<Rightarrow>
         (case res_bind (from_slice c (row_value row)) (advance_entry to) of
            Inl e \<Rightarrow> transition_ref c key to s
          | Inr new \<Rightarrow>
              if entry_version new = row_version row + 1 then transition_ref c key to s
              else transition_attempts c (local_backend c) key to n s))"
proof (cases "rows s (state_key key)")
  case None
  then show ?thesis
    using assms by (simp add: transition_ref_def io_bind_def load_entry_quiet)
next
  case (Some row)
  note row = this
  show ?thesis
  proof (cases "res_bind (from_slice c (row_value row)) (advance_entry to)")
    case (Inl e)
    then show ?thesis
      using assms row
      by (cases "from_slice c (row_value row)") (simp_all add: transition_ref_def io_bind_def load_entry_quiet)
  next
    case (Inr new)
    obtain nd where nd: "to_vec c new = Ok nd"
      using assms(1) by (rule codec_okE)
    from Inr obtain old where old: "from_slice c (row_value row) = Ok old" "advance_entry to old = Ok new"
      by (auto simp: res_bind_eq_Ok)
    then have "entry_version new = entry_version old + 1"
      by (auto simp: advance_entry_Ok)
    then show ?thesis
      using assms row old nd local_swap_quiet [OF assms row nd]
      by (simp add: transition_ref_def io_bind_def load_entry_quiet)
  qed
qed

lemma transition_attempts_quiet:
  assumes "codec_ok c" "faults s = []"
  shows "transition_attempts c (local_backend c) key to (Suc n) s = transition_ref c key to s"
proof (induction n)
  case 0
  show ?case
    unfolding transition_attempt_quiet [OF assms]
    by (simp add: transition_ref_def split: option.split sum.split)
next
  case (Suc n)
  show ?case
    by (subst transition_attempt_quiet [OF assms])
      (simp add: Suc del: transition_attempts.simps split: option.split sum.split)
qed

lemma create_state_ok:
  assumes "codec_ok c" "create_state c (local_backend c) key md s0 = (Ok e, s)"
  obtains d ct where "to_vec c e = Ok d" "from_slice c d = Ok e"
    "e = \<lparr>entry_key = key, current_state = as_str Created, entry_version = 1, entry_metadata = md\<rparr>"
    "rows s = upsert_row (state_key key) d ct (rows s0)"
proof -
  let ?e = "\<lparr>entry_key = key, current_state = as_str Created, entry_version = 1, entry_metadata = md\<rparr>"
  obtain d where d: "to_vec c ?e = Ok d" "from_slice c d = Ok ?e"
    using assms(1) by (rule codec_okE)
  with assms(2) have "be_save (local_backend c) (state_key key) d s0 = (Ok (), s)" "e = ?e"
    by (auto simp: create_state_def io_bind_eq_Ok)
  then show thesis
    using d that [of d octet_stream]
    by (auto simp: local_backend_def save_state_def with_conn_def elim!: attempt_cases)
qed

definition fresh_world :: "'s \<Rightarrow> 's sm_world" where
  "fresh_world s = \<lparr>shared = s, clients = (\<lambda>_. Idle), history = [as_str Created]\<rparr>"

lemma fresh_world_inv:
  assumes "codec_ok c" "create_state c (local_backend c) key md s0 = (Ok e, s)"
    "rows s0 (state_key key) = None"
  shows "sm_inv c storage_view storage_version key (fresh_world s) e"
  using assms(1,2)
proof (cases rule: create_state_ok)
  case (1 d ct)
  then show ?thesis
    using assms(3)
    by (simp add: sm_inv_def fresh_world_def storage_view_def storage_version_def client_ok_def)
qed

section \<open>Properties\<close>

text \<open>A serializer that keeps the value itself, for the concrete instances.\<close>

definition plain_codec :: "('a, 'a) codec" where
  "plain_codec = \<lparr>to_vec = Inr, from_slice = Inr\<rparr>"

lemma plain_codec_ok [simp]: "codec_ok plain_codec"
  by (simp add: codec_ok_def plain_codec_def)

definition empty_storage :: "'b storage" where
  "empty_storage = \<lparr>faults = [], rows = Map.empty\<rparr>"

definition created_entry :: "string \<Rightarrow> state_entry" where
  "created_entry key = \<lparr>entry_key = key, current_state = ''created'', entry_version = 1,
     entry_metadata = JNull\<rparr>"

definition running_entry :: "string \<Rightarrow> state_entry" where
  "running_entry key = \<lparr>entry_key = key, current_state = ''running'', entry_version = 2,
     entry_metadata = JNull\<rparr>"

definition storage_with :: "string \<Rightarrow> state_entry \<Rightarrow> nat \<Rightarrow> string \<Rightarrow> state_entry storage" where
  "storage_with key e n ct = \<lparr>faults = [], rows = [state_key key \<mapsto>
     \<lparr>row_value = e, row_content_type = ct, row_version = n\<rparr>]\<rparr>"

lemma storage_with_simps [simp]:
  "faults (storage_with key e n ct) = []"
  "rows (storage_with key e n ct) (state_key key) =
     Some \<lparr>row_value = e, row_content_type = ct, row_version = n\<rparr>"
  by (simp_all add: storage_with_def)

lemma create_empty:
  "create_state plain_codec (local_backend plain_codec) key JNull empty_storage =
     (Ok (created_entry key), storage_with key (created_entry key) 1 octet_stream)"
  by (simp add: create_state_def Let_def io_bind_def plain_codec_def empty_storage_def created_entry_def
      storage_with_def upsert_row_def)

lemma create_again:
  "create_state plain_codec (local_backend plain_codec) key JNull
     (storage_with key (created_entry key) 1 octet_stream) =
     (Ok (created_entry key), storage_with key (created_entry key) 2 octet_stream)"
  by (simp add: create_state_def Let_def io_bind_def plain_codec_def created_entry_def
      storage_with_def upsert_row_def numeral_2_eq_2)

lemma load_created:
  "load_entry plain_codec (local_backend plain_codec) key
     (storage_with key (created_entry key) 1 octet_stream) =
     (Ok (created_entry key), storage_with key (created_entry key) 1 octet_stream)"
  by (simp add: load_entry_quiet plain_codec_def)

lemma advance_created: "advance_entry Running (created_entry key) = Ok (running_entry key)"
  by (simp add: advance_entry_Ok created_entry_def running_entry_def from_str_def)

lemma swap_created:
  "compare_and_swap_state plain_codec (local_backend plain_codec) key 1 (running_entry key)
     (storage_with key (created_entry key) 1 octet_stream) =
     (Ok True, storage_with key (running_entry key) 2 ''application/json'')"
proof -
  have "to_vec plain_codec (running_entry key) = Ok (running_entry key)" by (simp add: plain_codec_def)
  from local_swap_quiet [OF plain_codec_ok _ _ this] show ?thesis by (simp add: storage_with_def numeral_2_eq_2)
qed

lemmas created_runs = load_created advance_created swap_created

text \<open>C1: Whatever clients do concurrently to one key of a state machine over the local storage,
  with loads and CAS writes interleaved in any order and any I/O errors, the stored entry's states
  form a path in the table of allowed transitions from "created", its version is the number
  of states it has had, and the row's version agrees with it: no update is lost or overwritten. The
  clients are any number of calls of \<open>transition\<close>, after one creation on a key that was free.\<close>

theorem concurrent_transitions_lawful:
  assumes "codec_ok c"
    and "create_state c (local_backend c) key md s0 = (Ok e0, s)" "rows s0 (state_key key) = None"
    and "sm_reachable c (local_backend c) key (fresh_world s) w"
  shows "\<exists>row e. rows (shared w) (state_key key) = Some row \<and>
    from_slice c (row_value row) = Ok e \<and> row_version row = entry_version e \<and>
    lawful (history w) \<and> hd (history w) = current_state e \<and>
    length (history w) = entry_version e"
  using lb.sm_reachable_inv [OF assms(1,4) fresh_world_inv [OF assms(1-3)]]
  by (auto simp: sm_inv_def storage_view_def storage_version_def)

theorem concurrent_transitions_lawful_witness:
  "\<exists>w. sm_reachable plain_codec (local_backend plain_codec) ''job''
      (fresh_world (storage_with ''job'' (created_entry ''job'') 1 octet_stream)) w \<and>
    history w = [''running'', ''created''] \<and> lawful (history w) \<and>
    (\<exists>row e. rows (shared w) (state_key ''job'') = Some row \<and> row_version row = 2 \<and>
       from_slice plain_codec (row_value row) = Ok e \<and> entry_version e = 2)"
proof -
  let ?B = "local_backend plain_codec"
  let ?s = "storage_with ''job'' (created_entry ''job'') 1 octet_stream"
  let ?w1 = "(fresh_world ?s)\<lparr>shared := ?s,
    clients := (clients (fresh_world ?s))(0 := Loaded (created_entry ''job'') (running_entry ''job''))\<rparr>"
  let ?w2 = "?w1\<lparr>shared := storage_with ''job'' (running_entry ''job'') 2 ''application/json'',
    clients := (clients ?w1)(0 := Idle), history := current_state (running_entry ''job'') # history ?w1\<rparr>"
  have "sm_step plain_codec ?B ''job'' (fresh_world ?s) ?w1"
    by (rule sm_step.load [where to = Running]) (simp_all add: fresh_world_def created_runs [unfolded One_nat_def])
  moreover have "sm_step plain_codec ?B ''job'' ?w1 ?w2"
    by (rule sm_step.swap [where old = "created_entry ''job''"])
      (simp_all add: created_entry_def swap_created [unfolded created_entry_def One_nat_def])
  ultimately have r: "sm_reachable plain_codec ?B ''job'' (fresh_world ?s) ?w2"
    by (blast intro: sm_reachable.intros)
  have h: "history ?w2 = [''running'', ''created'']"
    by (simp add: fresh_world_def running_entry_def)
  from concurrent_transitions_lawful [OF plain_codec_ok create_empty _ r] h
  show ?thesis using r by (fastforce simp: empty_storage_def)
qed

text \<open>Optimistic locking: once a CAS that expects version \<open>n\<close> has succeeded, a CAS of another
  client that still expects \<open>n\<close> does not, whatever it wants to write.\<close>

lemma second_swap_loses:
  assumes "codec_ok c"
    and "compare_and_swap_state c (local_backend c) key n new1 s = (Ok True, t)"
  shows "fst (compare_and_swap_state c (local_backend c) key n new2 t) \<noteq> Ok True"
  using lb.swap_ok(2) [OF assms] lb.swap_ok(1) [OF assms(1), of key n new2 t]
  by (cases "compare_and_swap_state c (local_backend c) key n new2 t") auto


text \<open>C28: Without I/O errors \<open>transition\<close> is one decision on the stored row: it fails on a missing
  or undecodable entry and on a transition the table forbids, it stores the entry in its new
  state with both versions moved on by one, and it gives up after its four attempts exactly when
  the entry's version is not the row's.\<close>

theorem transition_spec:
  assumes "codec_ok c" "faults s = []"
  shows "transition c (local_backend c) key to s = transition_ref c key to s"
  using transition_attempts_quiet [OF assms, of key to 3]
  by (simp add: transition_def eval_nat_numeral del: transition_attempts.simps)

theorem transition_spec_witness:
  "transition plain_codec (local_backend plain_codec) ''job'' Running
     (storage_with ''job'' (created_entry ''job'') 1 octet_stream) =
     (Ok (running_entry ''job''), storage_with ''job'' (running_entry ''job'') 2 ''application/json'')"
  using transition_spec [OF plain_codec_ok, of "storage_with ''job'' (created_entry ''job'') 1 octet_stream"
      "''job''" Running]
  by (simp add: transition_ref_def plain_codec_def advance_created) (simp add: running_entry_def storage_with_def numeral_2_eq_2)

text \<open>A second \<open>create_state\<close> on a key leaves it stuck: the entry is written back with version
  1 while the row's version moves on, so every later \<open>transition\<close> fails with an error.\<close>

lemma create_twice_stuck:
  assumes "codec_ok c" "create_state c (local_backend c) key md s0 = (Ok e1, s1)"
    and "create_state c (local_backend c) key md' s1 = (Ok e2, s2)" "faults s2 = []"
  shows "\<exists>e. transition c (local_backend c) key to s2 = (Err e, s2)"
proof -
  obtain d ct where 1: "rows s1 = upsert_row (state_key key) d ct (rows s0)"
    using assms(1,2) by (rule create_state_ok)
  obtain d' ct' where 2: "from_slice c d' = Ok e2" "entry_version e2 = 1"
      "rows s2 = upsert_row (state_key key) d' ct' (rows s1)"
    using assms(1,3) by (rule create_state_ok) simp
  have "row_version (the (rows s2 (state_key key))) > 1"
    using 1 2 by (simp split: option.split)
  then show ?thesis
    using transition_attempts_quiet [OF assms(1,4), of key to 3] 2
    by (auto simp: transition_def eval_nat_numeral transition_ref_def advance_entry_Ok
        simp del: transition_attempts.simps split: sum.split)
qed

text \<open>Over the Redis and the SQL backend, which have no compare-and-swap, no transition
  succeeds, in any state of the store.\<close>

lemma transition_needs_cas:
  "fst (transition c (redis_backend pre) key to s) \<noteq> Ok e \<and>
   fst (transition c db_backend key to s') \<noteq> Ok e"
  by (auto simp: transition_def eval_nat_numeral compare_and_swap_state_def cas_unsupported_backends
      io_bind_def split: prod.splits sum.splits)

end
