(* ===== verification/Two_Phase_Commit.thy ===== *)
theory Two_Phase_Commit
  imports State_Machine "HOL-Library.Multiset"
begin

text \<open>
  The two-phase-commit coordinator of \<open>two_phase_commit.rs\<close>.

  The world of the coordinator is the state of its backend, the state of the participants'
  databases, the clock, and the trace of the calls made to participants (no operation reads
  the trace). Participants are arbitrary fallible operations on the databases' state, so the
  theorems hold for every pattern of prepare, commit and rollback failures. The backend is an
  argument; what the coordinator needs of it is the contract \<open>kv_backend\<close>.
\<close>

section \<open>Data\<close>

datatype transaction_status =
    Preparing | Prepared | Committing | Committed | RollingBack | RolledBack | Mixed | Unknown

fun status_as_str :: "transaction_status \<Rightarrow> string" where
  "status_as_str Preparing = ''preparing''"
| "status_as_str Prepared = ''prepared''"
| "status_as_str Committing = ''committing''"
| "status_as_str Committed = ''committed''"
| "status_as_str transaction_status.RollingBack = ''rolling_back''"
| "status_as_str RolledBack = ''rolled_back''"
| "status_as_str Mixed = ''mixed''"
| "status_as_str Unknown = ''unknown''"

definition status_from_str :: "string \<Rightarrow> transaction_status" where
  "status_from_str s =
     (if s = ''preparing'' then Preparing
      else if s = ''prepared'' then Prepared
      else if s = ''committing'' then Committing
      else if s = ''committed'' then Committed
      else if s = ''rolling_back'' then transaction_status.RollingBack
      else if s = ''rolled_back'' then RolledBack
      else if s = ''mixed'' then Mixed
      else Unknown)"

record vote_result =
  vote_participant_id :: string
  vote :: bool
  reason :: "string option"

record participant_commit_result =
  commit_participant_id :: string
  committed :: bool
  commit_error :: "string option"

record participant_info =
  info_id :: string
  info_name :: string
  info_role :: string

record transaction_log =
  transaction_id :: string
  status :: string
  participants :: "participant_info list"
  created_at :: string
  updated_at :: string
  tx_metadata :: json

text \<open>The trait \<open>Participant\<close>, with its operations on the state \<open>'e\<close> of the databases.\<close>

record 'e participant =
  pid :: string
  pname :: string
  prole :: string
  prepare :: "string \<Rightarrow> ('e, unit) io"
  commit :: "string \<Rightarrow> ('e, unit) io"
  rollback :: "string \<Rightarrow> ('e, unit) io"

datatype call = Prepare | Commit | Rollback

record ('s, 'e) world =
  store :: 's
  databases :: 'e
  clock :: "nat \<Rightarrow> string"
  ticks :: nat
  calls :: "(call \<times> string \<times> bool) list"

record ('s, 'b) two_phase_commit =
  backend :: "('s, 'b) state_backend"
  log_codec :: "(transaction_log, 'b) codec"
  entry_codec :: "(state_entry, 'b) codec"

section \<open>Effects\<close>

definition on_store :: "('s, 'a) io \<Rightarrow> (('s, 'e) world, 'a) io" where
  "on_store m w = (case m (store w) of (r, s) \<Rightarrow> (r, w\<lparr>store := s\<rparr>))"

definition now :: "(('s, 'e) world, string) io" where
  "now w = (Ok (clock w (ticks w)), w\<lparr>ticks := Suc (ticks w)\<rparr>)"

definition call_participant ::
    "call \<Rightarrow> string \<Rightarrow> 'e participant \<Rightarrow> (('s, 'e) world, unit) io" where
  "call_participant op tx p w =
     (let f = (case op of Prepare \<Rightarrow> prepare p | Commit \<Rightarrow> commit p | Rollback \<Rightarrow> rollback p)
      in case f tx (databases w) of
           (r, e) \<Rightarrow> (r, w\<lparr>databases := e, calls := calls w @ [(op, pid p, is_ok r)]\<rparr>))"

section \<open>The log\<close>

definition log_new ::
    "string \<Rightarrow> participant_info list \<Rightarrow> json \<Rightarrow> (('s, 'e) world, transaction_log) io" where
  "log_new tx infos metadata =
     io_bind now (\<lambda>created.
     io_bind now (\<lambda>updated.
       io_ret \<lparr>transaction_id = tx, status = status_as_str Preparing, participants = infos,
               created_at = created, updated_at = updated, tx_metadata = metadata\<rparr>))"

definition log_key :: "string \<Rightarrow> string" where
  "log_key tx = ''2pc:tx:'' @ tx"

definition save_log ::
    "('s, 'b) two_phase_commit \<Rightarrow> transaction_log \<Rightarrow> (('s, 'e) world, unit) io" where
  "save_log T log =
     io_bind (io_lift (to_vec (log_codec T) log)) (\<lambda>data.
       on_store (be_save (backend T) (log_key (transaction_id log)) data))"

definition load_log ::
    "('s, 'b) two_phase_commit \<Rightarrow> string \<Rightarrow> (('s, 'e) world, transaction_log option) io" where
  "load_log T tx =
     io_bind (on_store (be_load (backend T) (log_key tx))) (\<lambda>raw.
       case raw of
         Some data \<Rightarrow> io_bind (io_lift (from_slice (log_codec T) data)) (\<lambda>log. io_ret (Some log))
       | None \<Rightarrow> io_ret None)"

definition update_status ::
    "('s, 'b) two_phase_commit \<Rightarrow> string \<Rightarrow> transaction_status \<Rightarrow>
     (('s, 'e) world, transaction_log) io" where
  "update_status T tx st =
     io_bind (load_log T tx) (\<lambda>found.
       case found of
         None \<Rightarrow> io_err (''Transaction not found: '' @ tx)
       | Some log \<Rightarrow>
           io_bind now (\<lambda>t.
           let log' = log\<lparr>status := status_as_str st, updated_at := t\<rparr>
           in io_bind (save_log T log') (\<lambda>_. io_ret log')))"

section \<open>The phases\<close>

text \<open>The loop of \<open>prepare_phase\<close>: the votes so far, and whether it ran to its end or returned
  at the first rejection.\<close>

fun prepare_votes ::
    "string \<Rightarrow> 'e participant list \<Rightarrow> vote_result list \<Rightarrow> ('s, 'e) world \<Rightarrow>
     (vote_result list \<times> bool) \<times> ('s, 'e) world" where
  "prepare_votes tx [] results w = ((results, True), w)"
| "prepare_votes tx (p # ps) results w =
     (case call_participant Prepare tx p w of
        (Inr _, w') \<Rightarrow> prepare_votes tx ps (results @ [\<lparr>vote_participant_id = pid p, vote = True,
            reason = None\<rparr>]) w'
      | (Inl e, w') \<Rightarrow> ((results @ [\<lparr>vote_participant_id = pid p, vote = False,
            reason = Some e\<rparr>], False), w'))"

definition prepare_phase ::
    "('s, 'b) two_phase_commit \<Rightarrow> string \<Rightarrow> 'e participant list \<Rightarrow>
     (('s, 'e) world, vote_result list) io" where
  "prepare_phase T tx ps =
     io_bind (update_status T tx Preparing) (\<lambda>_.
     io_bind (io_run (prepare_votes tx ps [])) (\<lambda>(results, finished).
       if finished
       then io_bind (update_status T tx Prepared) (\<lambda>_. io_ret results)
       else io_ret results))"

text \<open>One attempt of \<open>commit_phase\<close> on the pending participants; \<open>retry\<close> is
  \<open>attempt < max_retries\<close>.\<close>

fun commit_round ::
    "string \<Rightarrow> bool \<Rightarrow> 'e participant list \<Rightarrow> participant_commit_result list \<Rightarrow>
     'e participant list \<Rightarrow> ('s, 'e) world \<Rightarrow>
     (participant_commit_result list \<times> 'e participant list) \<times> ('s, 'e) world" where
  "commit_round tx retry [] results next_pending w = ((results, next_pending), w)"
| "commit_round tx retry (p # pending) results next_pending w =
     (case call_participant Commit tx p w of
        (Inr _, w') \<Rightarrow> commit_round tx retry pending (results @ [\<lparr>commit_participant_id = pid p,
            committed = True, commit_error = None\<rparr>]) next_pending w'
      | (Inl e, w') \<Rightarrow>
          if retry then commit_round tx retry pending results (next_pending @ [p]) w'
          else commit_round tx retry pending (results @ [\<lparr>commit_participant_id = pid p,
            committed = False, commit_error = Some e\<rparr>]) next_pending w')"

fun commit_attempts ::
    "string \<Rightarrow> nat \<Rightarrow> 'e participant list \<Rightarrow> participant_commit_result list \<Rightarrow> ('s, 'e) world \<Rightarrow>
     participant_commit_result list \<times> ('s, 'e) world" where
  "commit_attempts tx 0 pending results w =
     (case commit_round tx False pending results [] w of ((results', _), w') \<Rightarrow> (results', w'))"
| "commit_attempts tx (Suc n) pending results w =
     (case commit_round tx True pending results [] w of
        ((results', next_pending), w') \<Rightarrow>
          if next_pending = [] then (results', w')
          else commit_attempts tx n next_pending results' w')"

definition commit_phase ::
    "string \<Rightarrow> 'e participant list \<Rightarrow> nat \<Rightarrow> ('s, 'e) world \<Rightarrow>
     participant_commit_result list \<times> ('s, 'e) world" where
  "commit_phase tx ps max_retries w = commit_attempts tx max_retries ps [] w"

fun rollback_errors ::
    "string \<Rightarrow> 'e participant list \<Rightarrow> ('s, 'e) world \<Rightarrow> string list \<times> ('s, 'e) world" where
  "rollback_errors tx [] w = ([], w)"
| "rollback_errors tx (p # ps) w =
     (case call_participant Rollback tx p w of
        (r, w') \<Rightarrow>
          (case rollback_errors tx ps w' of
             (errors, w'') \<Rightarrow>
               (case r of Inr _ \<Rightarrow> (errors, w'') | Inl e \<Rightarrow> ((pid p @ '': '' @ e) # errors, w''))))"

definition rollback_phase :: "string \<Rightarrow> 'e participant list \<Rightarrow> (('s, 'e) world, unit) io" where
  "rollback_phase tx ps w =
     (case rollback_errors tx ps w of
        (errors, w') \<Rightarrow> (if errors = [] then Ok () else Err (join ''; '' errors), w'))"

definition all_committed ::
    "'e participant list \<Rightarrow> participant_commit_result list \<Rightarrow> bool" where
  "all_committed ps results \<longleftrightarrow> ps = [] \<or> (results \<noteq> [] \<and> list_all committed results)"

definition commit_failures :: "participant_commit_result list \<Rightarrow> string list" where
  "commit_failures results =
     map (\<lambda>r. commit_participant_id r @ '': '' @
            (case commit_error r of Some e \<Rightarrow> e | None \<Rightarrow> ''unknown''))
       (filter (\<lambda>r. \<not> committed r) results)"

definition rejections :: "vote_result list \<Rightarrow> string list" where
  "rejections votes =
     map (\<lambda>v. vote_participant_id v @ '': '' @
            (case reason v of Some e \<Rightarrow> e | None \<Rightarrow> ''no reason''))
       (filter (\<lambda>v. \<not> vote v) votes)"

definition final_status :: "participant_commit_result list \<Rightarrow> transaction_status" where
  "final_status results = (if list_ex committed results then Mixed else RolledBack)"

section \<open>The coordinator\<close>

definition sm_key :: "string \<Rightarrow> string" where
  "sm_key tx = ''2pc_'' @ tx"

definition sm_transition ::
    "('s, 'b) two_phase_commit \<Rightarrow> string \<Rightarrow> state_transition \<Rightarrow> (('s, 'e) world, unit) io" where
  "sm_transition T tx to =
     io_ignore (on_store (transition (entry_codec T) (backend T) (sm_key tx) to))"

definition begin_transaction ::
    "('s, 'b) two_phase_commit \<Rightarrow> string \<Rightarrow> 'e participant list \<Rightarrow> json \<Rightarrow> (('s, 'e) world, unit) io" where
  "begin_transaction T tx ps metadata =
     (let infos = map (\<lambda>p. \<lparr>info_id = pid p, info_name = pname p, info_role = prole p\<rparr>) ps
      in io_bind (log_new tx infos metadata) (\<lambda>log.
         io_bind (save_log T log) (\<lambda>_.
         io_bind (on_store (create_state (entry_codec T) (backend T) (sm_key tx)
             (JObject [(''phase'', JString ''begin'')]))) (\<lambda>_. io_ret ()))))"

text \<open>What follows the commit phase, on its results.\<close>

definition finish_commit ::
    "('s, 'b) two_phase_commit \<Rightarrow> string \<Rightarrow> 'e participant list \<Rightarrow> participant_commit_result list \<Rightarrow>
     (('s, 'e) world, transaction_log) io" where
  "finish_commit T tx ps results =
     (if all_committed ps results
      then io_bind (update_status T tx Committed) (\<lambda>log.
           io_bind (sm_transition T tx Completed) (\<lambda>_. io_ret log))
      else io_bind (update_status T tx transaction_status.RollingBack) (\<lambda>_.
           io_bind (io_ignore (rollback_phase tx ps)) (\<lambda>_.
           io_bind (update_status T tx (final_status results)) (\<lambda>log.
           io_bind (sm_transition T tx Failed) (\<lambda>_.
             io_err (''Commit phase failed: '' @ join ''; '' (commit_failures results) @
               ''. Status: '' @ status log))))))"

definition decide_commit ::
    "('s, 'b) two_phase_commit \<Rightarrow> string \<Rightarrow> 'e participant list \<Rightarrow> (('s, 'e) world, transaction_log) io" where
  "decide_commit T tx ps =
     io_bind (update_status T tx Committing) (\<lambda>_.
     io_bind (io_run (commit_phase tx ps 2)) (finish_commit T tx ps))"

definition decide_abort ::
    "('s, 'b) two_phase_commit \<Rightarrow> string \<Rightarrow> 'e participant list \<Rightarrow> vote_result list \<Rightarrow>
     (('s, 'e) world, transaction_log) io" where
  "decide_abort T tx ps votes =
     io_bind (update_status T tx transaction_status.RollingBack) (\<lambda>_.
     io_bind (io_ignore (rollback_phase tx ps)) (\<lambda>_.
     io_bind (update_status T tx RolledBack) (\<lambda>log.
     io_bind (sm_transition T tx Failed) (\<lambda>_.
       io_err (''Prepare phase failed: participants did not agree. Rejections: ['' @
         join '', '' (rejections votes) @ '']. Status: '' @ status log)))))"

definition execute ::
    "('s, 'b) two_phase_commit \<Rightarrow> string \<Rightarrow> 'e participant list \<Rightarrow> json \<Rightarrow>
     (('s, 'e) world, transaction_log) io" where
  "execute T tx ps metadata =
     io_bind (begin_transaction T tx ps metadata) (\<lambda>_.
     io_bind (prepare_phase T tx ps) (\<lambda>votes.
       if list_all vote votes then decide_commit T tx ps
       else decide_abort T tx ps votes))"

definition roll_back_and_record ::
    "('s, 'b) two_phase_commit \<Rightarrow> string \<Rightarrow> 'e participant list \<Rightarrow> (('s, 'e) world, transaction_log) io" where
  "roll_back_and_record T tx ps =
     io_bind (rollback_phase tx ps) (\<lambda>_. update_status T tx RolledBack)"

definition recover_committing ::
    "('s, 'b) two_phase_commit \<Rightarrow> string \<Rightarrow> 'e participant list \<Rightarrow> (('s, 'e) world, transaction_log) io" where
  "recover_committing T tx ps =
     io_bind (io_run (commit_phase tx ps 2)) (\<lambda>results.
       if all_committed ps results then update_status T tx Committed
       else io_bind (rollback_phase tx ps) (\<lambda>_.
            io_bind (update_status T tx (final_status results)) (\<lambda>_.
              io_err (''Recovery failed during commit: '' @ join ''; '' (commit_failures results)))))"

definition recover_from ::
    "('s, 'b) two_phase_commit \<Rightarrow> string \<Rightarrow> 'e participant list \<Rightarrow> transaction_log \<Rightarrow>
     (('s, 'e) world, transaction_log) io" where
  "recover_from T tx ps log =
     (case status_from_str (status log) of
        Preparing \<Rightarrow> roll_back_and_record T tx ps
      | Prepared \<Rightarrow> roll_back_and_record T tx ps
      | Committing \<Rightarrow> recover_committing T tx ps
      | transaction_status.RollingBack \<Rightarrow> roll_back_and_record T tx ps
      | Committed \<Rightarrow> io_ret log
      | RolledBack \<Rightarrow> io_ret log
      | Mixed \<Rightarrow> io_ret log
      | Unknown \<Rightarrow> io_err (''Unknown transaction status for '' @ tx @ '': cannot recover''))"

definition recover ::
    "('s, 'b) two_phase_commit \<Rightarrow> string \<Rightarrow> 'e participant list \<Rightarrow> (('s, 'e) world, transaction_log) io" where
  "recover T tx ps =
     io_bind (load_log T tx) (\<lambda>found.
       case found of
         None \<Rightarrow> io_err (''No transaction log found for: '' @ tx)
       | Some log \<Rightarrow> recover_from T tx ps log)"

text \<open>The adapter \<open>FnParticipant\<close>: closures that ignore the transaction's id.\<close>

definition fn_participant ::
    "string \<Rightarrow> string \<Rightarrow> string \<Rightarrow> ('e, unit) io \<Rightarrow> ('e, unit) io \<Rightarrow> ('e, unit) io \<Rightarrow> 'e participant" where
  "fn_participant i name role prepare_fn commit_fn rollback_fn =
     \<lparr>pid = i, pname = name, prole = role, prepare = (\<lambda>_. prepare_fn), commit = (\<lambda>_. commit_fn),
      rollback = (\<lambda>_. rollback_fn)\<rparr>"

section \<open>Calls made by the phases\<close>

text \<open>
  A run of calls is described by the outcomes \<open>os\<close>, a list of participants with what they
  answered.
\<close>

type_synonym 'e outcomes = "('e participant \<times> unit result) list"

definition calls_of :: "call \<Rightarrow> 'e outcomes \<Rightarrow> (call \<times> string \<times> bool) list" where
  "calls_of op os = map (\<lambda>(p, r). (op, pid p, is_ok r)) os"

definition commit_result_of :: "'e participant \<times> unit result \<Rightarrow> participant_commit_result" where
  "commit_result_of x = \<lparr>commit_participant_id = pid (fst x), committed = is_ok (snd x),
     commit_error = (case snd x of Inl e \<Rightarrow> Some e | Inr _ \<Rightarrow> None)\<rparr>"

lemma calls_of_simps [simp]:
  "calls_of op [] = []" "calls_of op ((p, r) # os) = (op, pid p, is_ok r) # calls_of op os"
  "calls_of op (os @ os') = calls_of op os @ calls_of op os'"
  by (simp_all add: calls_of_def)

lemma call_participant_calls:
  "call_participant op tx p w = (r, w') \<Longrightarrow>
     calls w' = calls w @ [(op, pid p, is_ok r)] \<and> store w' = store w"
  by (auto simp: call_participant_def Let_def split: prod.splits)

lemma prepare_votes_calls:
  assumes "prepare_votes tx ps results w = ((results', fin), w')"
  obtains (agreed) "fin" "calls w' = calls w @ map (\<lambda>p. (Prepare, pid p, True)) ps"
      "list_all vote results' \<longleftrightarrow> list_all vote results" "store w' = store w"
    | (rejected) ok p rest where "\<not> fin" "ps = ok @ p # rest" "\<not> list_all vote results'"
      "calls w' = calls w @ map (\<lambda>p. (Prepare, pid p, True)) ok @ [(Prepare, pid p, False)]"
      "store w' = store w"
proof -
  have "(fin \<and> calls w' = calls w @ map (\<lambda>p. (Prepare, pid p, True)) ps \<and>
      (list_all vote results' \<longleftrightarrow> list_all vote results) \<and> store w' = store w) \<or>
    (\<exists>ok p rest. \<not> fin \<and> ps = ok @ p # rest \<and> \<not> list_all vote results' \<and>
      calls w' = calls w @ map (\<lambda>p. (Prepare, pid p, True)) ok @ [(Prepare, pid p, False)] \<and>
      store w' = store w)"
    using assms
  proof (induction ps arbitrary: results w)
    case (Cons p ps)
    obtain r w1 where c: "call_participant Prepare tx p w = (r, w1)" by fastforce
    note cs = call_participant_calls [OF c]
    show ?case
    proof (cases r)
      case (Inl e)
      then show ?thesis using Cons.prems c cs by (fastforce simp: list_all_iff)
    next
      case (Inr u)
      with Cons.prems c have "prepare_votes tx ps
          (results @ [\<lparr>vote_participant_id = pid p, vote = True, reason = None\<rparr>]) w1 =
          ((results', fin), w')" by simp
      from Cons.IH [OF this] show ?thesis
      proof (elim disjE exE conjE)
        fix ok q rest
        assume "\<not> fin" "ps = ok @ q # rest" "\<not> list_all vote results'" "store w' = store w1"
          "calls w' = calls w1 @ map (\<lambda>p. (Prepare, pid p, True)) ok @ [(Prepare, pid q, False)]"
        then show ?thesis
          using cs Inr by (intro disjI2 exI [of _ "p # ok"] exI [of _ q] exI [of _ rest]) simp
      qed (use cs Inr in simp)
    qed
  qed simp
  with that show thesis by blast
qed

lemma commit_round_calls:
  assumes "commit_round tx retry pending results nxt w = ((results', nxt'), w')"
  obtains os where "map fst os = pending" "calls w' = calls w @ calls_of Commit os"
    "results' = results @ map commit_result_of (filter (\<lambda>x. is_ok (snd x) \<or> \<not> retry) os)"
    "nxt' = nxt @ map fst (filter (\<lambda>x. \<not> is_ok (snd x) \<and> retry) os)" "store w' = store w"
proof -
  have "\<exists>os. map fst os = pending \<and> calls w' = calls w @ calls_of Commit os \<and>
    results' = results @ map commit_result_of (filter (\<lambda>x. is_ok (snd x) \<or> \<not> retry) os) \<and>
    nxt' = nxt @ map fst (filter (\<lambda>x. \<not> is_ok (snd x) \<and> retry) os) \<and> store w' = store w"
    using assms
  proof (induction pending arbitrary: results nxt w)
    case (Cons p pending)
    obtain r w1 where c: "call_participant Commit tx p w = (r, w1)" by fastforce
    let ?results = "results @ (if is_ok r \<or> \<not> retry then [commit_result_of (p, r)] else [])"
    let ?nxt = "nxt @ (if \<not> is_ok r \<and> retry then [p] else [])"
    have "commit_round tx retry pending ?results ?nxt w1 = ((results', nxt'), w')"
      using Cons.prems c by (cases r; cases retry) (simp_all add: commit_result_of_def)
    from Cons.IH [OF this] obtain os where os: "map fst os = pending"
      "calls w' = calls w1 @ calls_of Commit os"
      "results' = ?results @ map commit_result_of (filter (\<lambda>x. is_ok (snd x) \<or> \<not> retry) os)"
      "nxt' = ?nxt @ map fst (filter (\<lambda>x. \<not> is_ok (snd x) \<and> retry) os)" "store w' = store w1"
      by blast
    show ?case
      by (rule exI [of _ "(p, r) # os"]) (use os call_participant_calls [OF c] in simp)
  qed simp
  with that show thesis by blast
qed

lemma rollback_errors_calls:
  assumes "rollback_errors tx ps w = (errors, w')"
  obtains os where "map fst os = ps" "calls w' = calls w @ calls_of Rollback os"
    "errors = [] \<longleftrightarrow> list_all (\<lambda>x. is_ok (snd x)) os" "store w' = store w"
proof -
  have "\<exists>os. map fst os = ps \<and> calls w' = calls w @ calls_of Rollback os \<and>
    (errors = [] \<longleftrightarrow> list_all (\<lambda>x. is_ok (snd x)) os) \<and> store w' = store w"
    using assms
  proof (induction ps arbitrary: w errors)
    case (Cons p ps)
    obtain r w1 where c: "call_participant Rollback tx p w = (r, w1)" by fastforce
    obtain errors1 where n: "rollback_errors tx ps w1 = (errors1, w')"
      "errors = [] \<longleftrightarrow> is_ok r \<and> errors1 = []"
      using Cons.prems c by (cases r) (auto split: prod.splits)
    from Cons.IH [OF n(1)] obtain os where os: "map fst os = ps"
      "calls w' = calls w1 @ calls_of Rollback os"
      "errors1 = [] \<longleftrightarrow> list_all (\<lambda>x. is_ok (snd x)) os" "store w' = store w1" by blast
    show ?case
      by (rule exI [of _ "(p, r) # os"]) (use os n call_participant_calls [OF c] in simp)
  qed simp
  with that show thesis by blast
qed

lemma rollback_phase_calls:
  assumes "rollback_phase tx ps w = (r, w')"
  obtains os where "map fst os = ps" "calls w' = calls w @ calls_of Rollback os"
    "is_ok r \<longleftrightarrow> list_all (\<lambda>x. is_ok (snd x)) os" "store w' = store w"
proof -
  obtain errors where "rollback_errors tx ps w = (errors, w')" "is_ok r \<longleftrightarrow> errors = []"
    using assms by (auto simp: rollback_phase_def split: prod.splits if_splits)
  then show thesis using that by (elim rollback_errors_calls) simp
qed

text \<open>The ids of the participants that a run of calls succeeded on.\<close>

definition succeeded :: "call \<Rightarrow> (call \<times> string \<times> bool) list \<Rightarrow> string list" where
  "succeeded op cs = map (fst \<circ> snd) (filter (\<lambda>c. fst c = op \<and> snd (snd c)) cs)"

lemma succeeded_append [simp]: "succeeded op (cs @ cs') = succeeded op cs @ succeeded op cs'"
  by (simp add: succeeded_def)

lemma succeeded_other [simp]: "op \<noteq> op' \<Longrightarrow> succeeded op (calls_of op' os) = []"
  by (auto simp: succeeded_def calls_of_def filter_empty_conv)

lemma succeeded_calls_of:
  "succeeded op (calls_of op os) = map (pid \<circ> fst) (filter (\<lambda>x. is_ok (snd x)) os)"
  by (induction os) (auto simp: succeeded_def calls_of_def)

lemma mset_filter_split:
  "mset (map f (filter P xs)) + mset (map f (filter (\<lambda>x. \<not> P x) xs)) = mset (map f xs)"
  by (induction xs) auto

lemma commit_attempts_calls:
  assumes "commit_attempts tx n pending results w = (results', w')"
  shows "\<exists>cs rs. calls w' = calls w @ cs \<and> results' = results @ rs \<and> store w' = store w \<and>
    list_all (\<lambda>c. fst c = Commit) cs \<and>
    mset (map commit_participant_id rs) = mset (map pid pending) \<and>
    mset (succeeded Commit cs) = mset (map commit_participant_id (filter committed rs))"
  using assms
proof (induction n arbitrary: pending results w)
  case 0
  then obtain nxt where "commit_round tx False pending results [] w = ((results', nxt), w')"
    by (auto split: prod.splits)
  then show ?case
  proof (rule commit_round_calls)
    fix os assume os: "map fst os = pending" "calls w' = calls w @ calls_of Commit os"
      "results' = results @ map commit_result_of (filter (\<lambda>x. is_ok (snd x) \<or> \<not> False) os)"
      "store w' = store w"
    then show ?thesis
      by (intro exI [of _ "calls_of Commit os"] exI [of _ "map commit_result_of os"])
        (auto simp: calls_of_def list_all_iff commit_result_of_def filter_map comp_def
          succeeded_calls_of [unfolded calls_of_def] multiset.map_comp)
  qed
next
  case (Suc n)
  obtain results1 nxt w1 where r: "commit_round tx True pending results [] w = ((results1, nxt), w1)"
    by (metis prod.exhaust)
  then show ?case
  proof (rule commit_round_calls)
    fix os
    assume os: "map fst os = pending" "calls w1 = calls w @ calls_of Commit os"
      "results1 = results @ map commit_result_of (filter (\<lambda>x. is_ok (snd x) \<or> \<not> True) os)"
      "nxt = [] @ map fst (filter (\<lambda>x. \<not> is_ok (snd x) \<and> True) os)" "store w1 = store w"
    let ?rs1 = "map commit_result_of (filter (\<lambda>x. is_ok (snd x)) os)"
    have part: "mset (map commit_participant_id ?rs1) + mset (map pid nxt) = mset (map pid pending)"
      using os(1,4) mset_filter_split [of "pid \<circ> fst" "\<lambda>x. is_ok (snd x)" os]
      by (auto simp: commit_result_of_def comp_def multiset.map_comp)
    have succ: "map commit_participant_id (filter committed ?rs1) = succeeded Commit (calls_of Commit os)"
      by (auto simp: succeeded_calls_of commit_result_of_def filter_map comp_def)
    have ops: "list_all (\<lambda>c. fst c = Commit) (calls_of Commit os)"
      by (auto simp: calls_of_def list_all_iff)
    show ?thesis
    proof (cases "nxt = []")
      case True
      then show ?thesis
        using os part succ ops r Suc.prems
        by (intro exI [of _ "calls_of Commit os"] exI [of _ ?rs1]) simp
    next
      case False
      then have "commit_attempts tx n nxt results1 w1 = (results', w')"
        using Suc.prems r by simp
      from Suc.IH [OF this] obtain cs rs where ih: "calls w' = calls w1 @ cs" "results' = results1 @ rs"
        "store w' = store w1" "list_all (\<lambda>c. fst c = Commit) cs"
        "mset (map commit_participant_id rs) = mset (map pid nxt)"
        "mset (succeeded Commit cs) = mset (map commit_participant_id (filter committed rs))"
        by blast
      have "mset (map commit_participant_id (?rs1 @ rs)) = mset (map pid pending)"
        by (simp only: map_append mset_append ih(5) part)
      moreover have "mset (succeeded Commit (calls_of Commit os @ cs)) =
          mset (map commit_participant_id (filter committed (?rs1 @ rs)))"
        by (simp only: succeeded_append filter_append map_append mset_append ih(6) succ)
      ultimately show ?thesis
        using ih(1-4) os(2,3,5) ops
        by (intro exI [of _ "calls_of Commit os @ cs"] exI [of _ "?rs1 @ rs"]) (auto simp: list_all_iff)
    qed
  qed
qed

text \<open>The answers one participant gave, in order; a participant that is committed with at most
  \<open>n\<close> retries fails some times and then succeeds, or fails on all attempts.\<close>

definition answers :: "string \<Rightarrow> (call \<times> string \<times> bool) list \<Rightarrow> bool list" where
  "answers i cs = map (snd \<circ> snd) (filter (\<lambda>c. fst (snd c) = i) cs)"

definition bounded_retry :: "nat \<Rightarrow> bool list \<Rightarrow> bool" where
  "bounded_retry n bs \<longleftrightarrow>
     (\<exists>j\<le>n. bs = replicate j False @ [True]) \<or> bs = replicate (Suc n) False"

lemma answers_append [simp]: "answers i (cs @ cs') = answers i cs @ answers i cs'"
  by (simp add: answers_def)

lemma answers_distinct:
  assumes "distinct (map (pid \<circ> fst) os)"
  shows "(p, r) \<in> set os \<Longrightarrow> answers (pid p) (calls_of op os) = [is_ok r]"
    and "i \<notin> (pid \<circ> fst) ` set os \<Longrightarrow> answers i (calls_of op os) = []"
  using assms by (induction os) (force simp: answers_def calls_of_def filter_empty_conv)+

lemma bounded_retry_simps [simp]:
  "bounded_retry n [True]" "bounded_retry (Suc n) (False # bs) \<longleftrightarrow> bounded_retry n bs"
  "bounded_retry 0 [b]"
proof -
  show "bounded_retry n [True]" by (auto simp: bounded_retry_def intro: exI [of _ 0])
  show "bounded_retry 0 [b]" by (cases b) (auto simp: bounded_retry_def)
  show "bounded_retry (Suc n) (False # bs) \<longleftrightarrow> bounded_retry n bs"
  proof
    assume "bounded_retry (Suc n) (False # bs)"
    then consider j where "j \<le> Suc n" "False # bs = replicate j False @ [True]"
      | "False # bs = replicate (Suc (Suc n)) False"
      by (auto simp: bounded_retry_def)
    then show "bounded_retry n bs"
    proof cases
      case (1 j)
      then show ?thesis by (cases j) (auto simp: bounded_retry_def)
    qed (auto simp: bounded_retry_def)
  next
    assume "bounded_retry n bs"
    then consider j where "j \<le> n" "bs = replicate j False @ [True]"
      | "bs = replicate (Suc n) False"
      by (auto simp: bounded_retry_def)
    then show "bounded_retry (Suc n) (False # bs)"
    proof cases
      case (1 j)
      then show ?thesis unfolding bounded_retry_def by (intro disjI1 exI [of _ "Suc j"]) simp
    qed (simp add: bounded_retry_def)
  qed
qed

lemma commit_attempts_answers:
  assumes "commit_attempts tx n pending results w = (results', w')" "distinct (map pid pending)"
  shows "\<exists>cs. calls w' = calls w @ cs \<and>
    (\<forall>p\<in>set pending. bounded_retry n (answers (pid p) cs)) \<and>
    (\<forall>i. i \<notin> pid ` set pending \<longrightarrow> answers i cs = [])"
  using assms
proof (induction n arbitrary: pending results w)
  case 0
  then obtain nxt where "commit_round tx False pending results [] w = ((results', nxt), w')"
    by (auto split: prod.splits)
  then show ?case
  proof (rule commit_round_calls)
    fix os assume os: "map fst os = pending" "calls w' = calls w @ calls_of Commit os"
    then have d: "distinct (map (pid \<circ> fst) os)" using 0 by (auto simp flip: map_map)
    show ?thesis
      using os answers_distinct [OF d] by (intro exI [of _ "calls_of Commit os"]) force
  qed
next
  case (Suc n)
  obtain results1 nxt w1 where r: "commit_round tx True pending results [] w = ((results1, nxt), w1)"
    by (metis prod.exhaust)
  then show ?case
  proof (rule commit_round_calls)
    fix os
    assume os: "map fst os = pending" "calls w1 = calls w @ calls_of Commit os"
      "nxt = [] @ map fst (filter (\<lambda>x. \<not> is_ok (snd x) \<and> True) os)"
    have d: "distinct (map (pid \<circ> fst) os)" using Suc.prems os(1) by (auto simp flip: map_map)
    note ans = answers_distinct [OF d, where op = Commit]
    have sub: "distinct (map pid nxt)"
      using distinct_map_filter [OF d, of "\<lambda>x. \<not> is_ok (snd x)"] os(3) by simp
    have nxt_ans: "i \<in> pid ` set nxt \<Longrightarrow> answers i (calls_of Commit os) = [False]" for i
      using os(3) ans(1) by force
    have won: "\<lbrakk>p \<in> set pending; pid p \<notin> pid ` set nxt\<rbrakk> \<Longrightarrow>
        answers (pid p) (calls_of Commit os) = [True]" for p
      using os(1,3) ans(1) by force
    obtain cs where cs: "calls w' = calls w1 @ cs"
      "\<forall>p\<in>set nxt. bounded_retry n (answers (pid p) cs)"
      "\<forall>i. i \<notin> pid ` set nxt \<longrightarrow> answers i cs = []"
    proof (cases "nxt = []")
      case True
      then show ?thesis using that [of "[]"] Suc.prems(1) r by (simp add: answers_def)
    next
      case False
      then have "commit_attempts tx n nxt results1 w1 = (results', w')" using Suc.prems(1) r by simp
      from Suc.IH [OF this sub] show ?thesis using that by blast
    qed
    have sub_pending: "pid ` set nxt \<subseteq> pid ` set pending" using os(1,3) by force
    show ?thesis
    proof (intro exI [of _ "calls_of Commit os @ cs"] conjI ballI allI impI)
      show "calls w' = calls w @ calls_of Commit os @ cs" using os(2) cs(1) by simp
      fix p assume p: "p \<in> set pending"
      show "bounded_retry (Suc n) (answers (pid p) (calls_of Commit os @ cs))"
        using won [OF p] nxt_ans [of "pid p"] cs(2,3) by (cases "pid p \<in> pid ` set nxt") auto
    next
      fix i assume "i \<notin> pid ` set pending"
      then show "answers i (calls_of Commit os @ cs) = []"
        using ans(2) [of i] os(1) cs(3) sub_pending by (auto simp: image_image)
    qed
  qed
qed

section \<open>The stored log and state entry\<close>

definition decode :: "('a, 'b) codec \<Rightarrow> 'b option \<Rightarrow> 'a option" where
  "decode c d = (case d of None \<Rightarrow> None | Some b \<Rightarrow> (case from_slice c b of Inl _ \<Rightarrow> None | Inr a \<Rightarrow> Some a))"

lemma decode_eq_Some [simp]: "decode c d = Some a \<longleftrightarrow> (\<exists>b. d = Some b \<and> from_slice c b = Ok a)"
  by (auto simp: decode_def split: option.split sum.split)

text \<open>A transaction is logged when its log is stored under its own id, and its state entry is
  idle while it is in the state \<open>created\<close>.\<close>

definition logged ::
    "('s \<Rightarrow> string \<rightharpoonup> 'b) \<Rightarrow> ('s, 'b) two_phase_commit \<Rightarrow> string \<Rightarrow> ('s, 'e) world \<Rightarrow> transaction_log \<Rightarrow> bool" where
  "logged view T tx w log \<longleftrightarrow>
     decode (log_codec T) (view (store w) (log_key tx)) = Some log \<and> transaction_id log = tx"

definition entry_created ::
    "('s \<Rightarrow> string \<rightharpoonup> 'b) \<Rightarrow> ('s, 'b) two_phase_commit \<Rightarrow> string \<Rightarrow> ('s, 'e) world \<Rightarrow> bool" where
  "entry_created view T tx w \<longleftrightarrow>
     (\<exists>e. decode (entry_codec T) (view (store w) (state_key (sm_key tx))) = Some e \<and>
          current_state e = ''created'')"

lemma keys_distinct [simp]: "log_key tx \<noteq> state_key k" "state_key k \<noteq> log_key tx"
  by (simp_all add: log_key_def state_key_def)

lemma on_store_eq:
  "on_store m w = (r, w') \<longleftrightarrow> (\<exists>s. m (store w) = (r, s) \<and> w' = w\<lparr>store := s\<rparr>)"
  by (auto simp: on_store_def split: prod.splits)

lemma now_eq: "now w = (r, w') \<longleftrightarrow> r = Ok (clock w (ticks w)) \<and> w' = w\<lparr>ticks := Suc (ticks w)\<rparr>"
  by (auto simp: now_def)

text \<open>What the bookkeeping operations leave alone: the databases and the calls.\<close>

definition quiet :: "(('s, 'e) world, 'a) io \<Rightarrow> bool" where
  "quiet m \<longleftrightarrow> (\<forall>w. databases (snd (m w)) = databases w \<and> calls (snd (m w)) = calls w)"

lemma quietD: "quiet m \<Longrightarrow> m w = (r, w') \<Longrightarrow> calls w' = calls w \<and> databases w' = databases w"
  unfolding quiet_def by (metis snd_conv)

lemma quiet_bind [intro]: "quiet m \<Longrightarrow> (\<And>a. quiet (k a)) \<Longrightarrow> quiet (io_bind m k)"
  by (auto simp: quiet_def io_bind_def split: prod.split sum.split) (metis snd_conv)+

lemma quiet_basic [simp]:
  "quiet (io_ret a)" "quiet (io_err e)" "quiet (io_lift r)" "quiet (on_store m')" "quiet now"
  by (auto simp: quiet_def on_store_def now_def split: prod.split)

lemma quiet_ignore [intro]: "quiet m \<Longrightarrow> quiet (io_ignore m)"
  by (simp add: quiet_def)

lemma quiet_ops [simp]:
  "quiet (save_log T log)" "quiet (load_log T tx)" "quiet (update_status T tx st)"
  "quiet (sm_transition T tx to)" "quiet (begin_transaction T tx ps md)" "quiet (log_new tx infos md)"
proof -
  show s: "quiet (save_log T log)" for log
    unfolding save_log_def by (intro quiet_bind) simp_all
  show l: "quiet (load_log T tx)"
    unfolding load_log_def by (intro quiet_bind) (auto split: option.split)
  show "quiet (update_status T tx st)"
    unfolding update_status_def using s l
    by (intro quiet_bind) (auto simp: Let_def intro!: quiet_bind split: option.split)
  show "quiet (sm_transition T tx to)"
    unfolding sm_transition_def by (intro quiet_ignore) simp
  show n: "quiet (log_new tx infos md)" for infos
    unfolding log_new_def by (intro quiet_bind) simp_all
  show "quiet (begin_transaction T tx ps md)"
    unfolding begin_transaction_def Let_def using s n by (intro quiet_bind) simp_all
qed

context kv_backend
begin

lemma load_log_ok:
  assumes "backend T = B" "load_log T tx w = (Ok r, w')"
  shows "decode (log_codec T) (view (store w) (log_key tx)) = r" "view (store w') = view (store w)"
  using assms load_ok [of "log_key tx" "store w"]
  by (auto simp: load_log_def io_bind_eq_Ok on_store_eq decode_def split: option.splits sum.splits)

lemma load_log_err:
  assumes "backend T = B" "load_log T tx w = (Err e, w')"
  shows "view (store w') = view (store w)"
  using assms load_ok [of "log_key tx" "store w"] load_err [of "log_key tx" "store w"]
  by (auto simp: load_log_def io_bind_eq_Err on_store_eq split: option.splits)

lemma save_log_ok:
  assumes "codec_ok (log_codec T)" "backend T = B" "save_log T log w = (Ok u, w')"
  shows "\<exists>d. from_slice (log_codec T) d = Ok log \<and>
    view (store w') = (view (store w))(log_key (transaction_id log) \<mapsto> d)"
  using assms save_ok codec_ok_roundtrip [OF assms(1)]
  by (fastforce simp: save_log_def io_bind_eq_Ok on_store_eq)

lemma save_log_err:
  assumes "backend T = B" "save_log T log w = (Err e, w')"
  shows "view (store w') = view (store w)"
  using assms save_err by (fastforce simp: save_log_def io_bind_eq_Err on_store_eq)

lemma update_status_ok:
  assumes "codec_ok (log_codec T)" "backend T = B" "update_status T tx st w = (Ok log', w')"
    "logged view T tx w log"
  shows "logged view T tx w' log'" "status log' = status_as_str st"
    "\<exists>t. log' = log\<lparr>status := status_as_str st, updated_at := t\<rparr>"
    "k \<noteq> log_key tx \<Longrightarrow> view (store w') k = view (store w) k"
proof -
  obtain log0 w1 where l: "load_log T tx w = (Ok (Some log0), w1)"
    and s: "log' = log0\<lparr>status := status_as_str st, updated_at := clock w1 (ticks w1)\<rparr>"
      "save_log T log' (w1\<lparr>ticks := Suc (ticks w1)\<rparr>) = (Ok (), w')"
    using assms(3)
    by (auto simp: update_status_def io_bind_eq_Ok now_eq Let_def split: option.splits)
  have log0: "log0 = log" "view (store w1) = view (store w)"
    using load_log_ok [OF assms(2) l] assms(4) by (auto simp: logged_def)
  show "status log' = status_as_str st"
    "\<exists>t. log' = log\<lparr>status := status_as_str st, updated_at := t\<rparr>"
    using s log0 by auto
  have id: "transaction_id log' = tx" using s(1) log0 assms(4) by (simp add: logged_def)
  obtain d where "from_slice (log_codec T) d = Ok log'"
    "view (store w') = (view (store w))(log_key tx \<mapsto> d)"
    using save_log_ok [OF assms(1,2) s(2)] log0 id by auto
  then show "logged view T tx w' log'" "k \<noteq> log_key tx \<Longrightarrow> view (store w') k = view (store w) k"
    using id by (auto simp: logged_def)
qed

lemma update_status_err:
  assumes "backend T = B" "update_status T tx st w = (Err e, w')"
  shows "view (store w') = view (store w)"
proof (cases "load_log T tx w")
  case (Pair r w1)
  show ?thesis
  proof (cases r)
    case (Inl e')
    then show ?thesis
      using assms Pair load_log_err [OF assms(1)] by (simp add: update_status_def io_bind_def)
  next
    case (Inr found)
    then have v: "view (store w1) = view (store w)" using load_log_ok(2) [OF assms(1)] Pair by blast
    show ?thesis
    proof (cases found)
      case None
      then show ?thesis using assms(2) Pair Inr v by (simp add: update_status_def io_bind_def)
    next
      case (Some log)
      then obtain log' where "save_log T log' (w1\<lparr>ticks := Suc (ticks w1)\<rparr>) = (Err e, w')"
        using assms(2) Pair Inr
        by (auto simp: update_status_def io_bind_Ok io_bind_eq_Err now_eq Let_def)
      from save_log_err [OF assms(1) this] v show ?thesis by simp
    qed
  qed
qed

end


section \<open>The protocol\<close>

text \<open>
  The runs of calls that two-phase commit allows on a list of participants. A run may stop
  early where the coordinator could not write its log.
\<close>

abbreviation prepares :: "'e participant list \<Rightarrow> (call \<times> string \<times> bool) list" where
  "prepares ps \<equiv> map (\<lambda>p. (Prepare, pid p, True)) ps"

inductive protocol :: "'e participant list \<Rightarrow> (call \<times> string \<times> bool) list \<Rightarrow> bool"
  for ps where
  not_started: "protocol ps []"
| rejected: "ps = ok @ p # rest \<Longrightarrow> protocol ps (prepares ok @ [(Prepare, pid p, False)])"
| aborted: "ps = ok @ p # rest \<Longrightarrow> map fst os = ps \<Longrightarrow>
    protocol ps (prepares ok @ (Prepare, pid p, False) # calls_of Rollback os)"
| decided: "list_all (\<lambda>c. fst c = Commit) com \<Longrightarrow> protocol ps (prepares ps @ com)"
| undone: "list_all (\<lambda>c. fst c = Commit) com \<Longrightarrow> mset (succeeded Commit com) \<subset># mset (map pid ps) \<Longrightarrow>
    map fst os = ps \<Longrightarrow> protocol ps (prepares ps @ com @ calls_of Rollback os)"

lemma prepare_phase_calls:
  assumes "prepare_phase T tx ps w = (r, w')"
  obtains (failed) e where "r = Err e" "calls w' = calls w \<or> calls w' = calls w @ prepares ps"
    | (agreed) votes where "r = Ok votes" "list_all vote votes" "calls w' = calls w @ prepares ps"
    | (rejected) votes ok p rest where "r = Ok votes" "\<not> list_all vote votes" "ps = ok @ p # rest"
      "calls w' = calls w @ prepares ok @ [(Prepare, pid p, False)]"
proof (cases "update_status T tx Preparing w")
  case (Pair r1 w1)
  note c1 = quietD [OF quiet_ops(3) Pair]
  show thesis
  proof (cases r1)
    case (Inl e)
    then show thesis using failed assms Pair c1 by (auto simp: prepare_phase_def io_bind_def)
  next
    case (Inr log)
    obtain votes fin w2 where pv: "prepare_votes tx ps [] w1 = ((votes, fin), w2)"
      by (metis prod.exhaust)
    then have r: "(if fin then io_bind (update_status T tx Prepared) (\<lambda>_. io_ret votes) w2
        else (Ok votes, w2)) = (r, w')"
      using assms Pair Inr by (simp add: prepare_phase_def io_bind_Ok split: if_splits)
    from pv show thesis
    proof (cases rule: prepare_votes_calls)
      case agreed
      obtain r3 w3 where u: "update_status T tx Prepared w2 = (r3, w3)" by fastforce
      note quietD [OF quiet_ops(3) u]
      then show thesis
        using agreed r u c1 failed that(2) by (cases r3) (auto simp: io_bind_def)
    next
      case (rejected ok p rest)
      then show thesis using that(3) r c1 by auto
    qed
  qed
qed

lemma commit_phase_calls:
  assumes "commit_phase tx ps n w = (results, w')"
  obtains cs where "calls w' = calls w @ cs" "list_all (\<lambda>c. fst c = Commit) cs" "store w' = store w"
    "all_committed ps results \<longleftrightarrow> mset (succeeded Commit cs) = mset (map pid ps)"
    "mset (succeeded Commit cs) \<subseteq># mset (map pid ps)"
    "list_ex committed results \<longleftrightarrow> succeeded Commit cs \<noteq> []"
proof -
  obtain cs where cs: "calls w' = calls w @ cs" "store w' = store w"
    "list_all (\<lambda>c. fst c = Commit) cs"
    "mset (map commit_participant_id results) = mset (map pid ps)"
    "mset (succeeded Commit cs) = mset (map commit_participant_id (filter committed results))"
    using commit_attempts_calls [OF assms [unfolded commit_phase_def]] by auto
  have split: "mset (map pid ps) = mset (succeeded Commit cs) +
      mset (map commit_participant_id (filter (\<lambda>r. \<not> committed r) results))"
    using cs(4,5) mset_filter_split [of commit_participant_id committed results] by simp
  have "results = [] \<longleftrightarrow> ps = []" using cs(4) by (metis mset_zero_iff_right map_is_Nil_conv)
  then have "all_committed ps results \<longleftrightarrow> filter (\<lambda>r. \<not> committed r) results = []"
    by (auto simp: all_committed_def filter_empty_conv list_all_iff)
  then have "all_committed ps results \<longleftrightarrow> mset (succeeded Commit cs) = mset (map pid ps)"
    unfolding split by (auto simp: filter_empty_conv)
  moreover have "list_ex committed results \<longleftrightarrow> succeeded Commit cs \<noteq> []"
  proof -
    have "length (succeeded Commit cs) = length (filter committed results)"
      using cs(5) by (metis length_map size_mset)
    then have "succeeded Commit cs = [] \<longleftrightarrow> filter committed results = []"
      by (metis length_0_conv)
    then show ?thesis by (auto simp: list_ex_iff filter_empty_conv)
  qed
  ultimately show thesis using that cs(1-3) split by (metis mset_subset_eq_add_left)
qed

lemma decide_abort_calls:
  assumes "decide_abort T tx ps votes w = (r, w')"
  obtains e where "r = Err e" "calls w' = calls w"
    | e os where "r = Err e" "map fst os = ps" "calls w' = calls w @ calls_of Rollback os"
proof (cases "update_status T tx transaction_status.RollingBack w")
  case (Pair r1 w1)
  note c1 = quietD [OF quiet_ops(3) Pair]
  show thesis
  proof (cases r1)
    case (Inl e)
    then show thesis using assms Pair c1 that(1) by (auto simp: decide_abort_def io_bind_def)
  next
    case (Inr log)
    obtain r2 w2 where rb: "rollback_phase tx ps w1 = (r2, w2)" by fastforce
    let ?rest = "io_bind (update_status T tx RolledBack) (\<lambda>log.
      io_bind (sm_transition T tx Failed) (\<lambda>_.
        io_err (''Prepare phase failed: participants did not agree. Rejections: ['' @
          join '', '' (rejections votes) @ '']. Status: '' @ status log)))"
    have rest: "?rest w2 = (r, w')"
      using assms Pair Inr rb by (simp add: decide_abort_def io_bind_Ok)
    have "quiet ?rest" by (intro quiet_bind) simp_all
    note c2 = quietD [OF this rest]
    have err: "\<exists>e. r = Err e"
      using rest by (auto simp: io_bind_def split: prod.splits sum.splits)
    from rb show thesis
      by (rule rollback_phase_calls) (use that(2) err c1 c2 in auto)
  qed
qed

lemma decide_commit_calls:
  assumes "decide_commit T tx ps w = (r, w')"
  obtains (uncommitted) e where "r = Err e" "calls w' = calls w"
    | (stopped) cs where "calls w' = calls w @ cs" "list_all (\<lambda>c. fst c = Commit) cs"
        "is_ok r \<Longrightarrow> mset (succeeded Commit cs) = mset (map pid ps)"
    | (undone) e cs os where "r = Err e" "calls w' = calls w @ cs @ calls_of Rollback os"
        "list_all (\<lambda>c. fst c = Commit) cs" "mset (succeeded Commit cs) \<subset># mset (map pid ps)"
        "map fst os = ps"
proof (cases "update_status T tx Committing w")
  case (Pair r1 w1)
  note c1 = quietD [OF quiet_ops(3) Pair]
  show thesis
  proof (cases r1)
    case (Inl e)
    then show thesis using assms Pair c1 uncommitted by (auto simp: decide_commit_def finish_commit_def io_bind_def io_run_def)
  next
    case (Inr log)
    obtain results w2 where cp: "commit_phase tx ps 2 w1 = (results, w2)" by fastforce
    then obtain cs where cs: "calls w2 = calls w @ cs" "list_all (\<lambda>c. fst c = Commit) cs"
      "all_committed ps results \<longleftrightarrow> mset (succeeded Commit cs) = mset (map pid ps)"
      "mset (succeeded Commit cs) \<subseteq># mset (map pid ps)"
      using c1 by (auto elim!: commit_phase_calls)
    show thesis
    proof (cases "all_committed ps results")
      case True
      let ?rest = "io_bind (update_status T tx Committed) (\<lambda>log.
        io_bind (sm_transition T tx Completed) (\<lambda>_. io_ret log))"
      have "?rest w2 = (r, w')"
        using assms Pair Inr cp True by (simp add: decide_commit_def finish_commit_def io_bind_Ok)
      moreover have "quiet ?rest" by (intro quiet_bind) simp_all
      ultimately show thesis using quietD stopped [of cs] cs True by metis
    next
      case False
      obtain r3 w3 where rb: "update_status T tx transaction_status.RollingBack w2 = (r3, w3)" by fastforce
      note c3 = quietD [OF quiet_ops(3) rb]
      show thesis
      proof (cases r3)
        case (Inl e)
        then show thesis
          using assms Pair Inr cp False rb stopped [of cs] cs c3 by (auto simp: decide_commit_def finish_commit_def io_bind_def io_run_def)
      next
        case (Inr log')
        obtain r4 w4 where rp: "rollback_phase tx ps w3 = (r4, w4)" by fastforce
        let ?rest = "io_bind (update_status T tx (final_status results)) (\<lambda>log.
          io_bind (sm_transition T tx Failed) (\<lambda>_.
            io_err (''Commit phase failed: '' @ join ''; '' (commit_failures results) @
              ''. Status: '' @ status log)))"
        have rest: "?rest w4 = (r, w')"
          using assms Pair \<open>r1 = Inr log\<close> cp False rb Inr rp by (simp add: decide_commit_def finish_commit_def io_bind_Ok)
        have "quiet ?rest" by (intro quiet_bind) simp_all
        note c4 = quietD [OF this rest]
        have err: "\<exists>e. r = Err e"
          using rest by (auto simp: io_bind_def split: prod.splits sum.splits)
        have sub: "mset (succeeded Commit cs) \<subset># mset (map pid ps)"
          using cs(3,4) False by (simp add: subset_mset_def)
        from rp show thesis
          by (rule rollback_phase_calls) (use undone [of _ cs] err cs c3 c4 sub in auto)
      qed
    qed
  qed
qed

text \<open>A successful run: everyone prepared, then everyone committed, each exactly once.\<close>

definition unanimous :: "'e participant list \<Rightarrow> (call \<times> string \<times> bool) list \<Rightarrow> bool" where
  "unanimous ps cs \<longleftrightarrow>
     (\<exists>com. cs = prepares ps @ com \<and> list_all (\<lambda>c. fst c = Commit) com \<and>
            mset (succeeded Commit com) = mset (map pid ps))"

lemma execute_calls:
  assumes "execute T tx ps md w = (r, w')"
  shows "\<exists>cs. calls w' = calls w @ cs \<and> protocol ps cs \<and> (is_ok r \<longrightarrow> unanimous ps cs)"
proof -
  let ?P = "\<lambda>cs. calls w' = calls w @ cs \<and> protocol ps cs \<and> (is_ok r \<longrightarrow> unanimous ps cs)"
  obtain r0 w0 where b: "begin_transaction T tx ps md w = (r0, w0)" by fastforce
  note c0 = quietD [OF quiet_ops(5) b]
  show ?thesis
  proof (cases r0)
    case (Inl e)
    then show ?thesis
      using assms b c0 by (intro exI [of _ "[]"]) (auto simp: execute_def io_bind_def intro: protocol.intros)
  next
    case (Inr u)
    obtain r1 w1 where p: "prepare_phase T tx ps w0 = (r1, w1)" by fastforce
    have ex: "io_bind (prepare_phase T tx ps) (\<lambda>votes. if list_all vote votes then decide_commit T tx ps
        else decide_abort T tx ps votes) w0 = (r, w')"
      using assms b Inr by (simp add: execute_def io_bind_Ok)
    from p show ?thesis
    proof (cases rule: prepare_phase_calls)
      case (failed e)
      then show ?thesis
        using ex p c0 protocol.not_started protocol.decided [of "[]" ps]
        by (auto simp: io_bind_def)
    next
      case (agreed votes)
      then have "decide_commit T tx ps w1 = (r, w')" using ex p by (simp add: io_bind_Ok)
      then show ?thesis
      proof (cases rule: decide_commit_calls)
        case (uncommitted e)
        then show ?thesis
          using agreed c0 by (intro exI [of _ "prepares ps @ []"] conjI protocol.decided) auto
      next
        case (stopped cs)
        then show ?thesis
          using agreed c0
          by (intro exI [of _ "prepares ps @ cs"] conjI protocol.decided) (auto simp: unanimous_def)
      next
        case (undone e cs os)
        then show ?thesis
          using agreed c0
          by (intro exI [of _ "prepares ps @ cs @ calls_of Rollback os"] conjI protocol.undone) auto
      qed
    next
      case (rejected votes ok p' rest)
      then have "decide_abort T tx ps votes w1 = (r, w')" using ex p by (simp add: io_bind_Ok)
      then show ?thesis
      proof (cases rule: decide_abort_calls)
        case (1 e)
        then show ?thesis
          using rejected c0 protocol.rejected [OF rejected(3)]
          by (intro exI [of _ "prepares ok @ [(Prepare, pid p', False)]"]) auto
      next
        case (2 e os)
        then show ?thesis
          using rejected c0 protocol.aborted [OF rejected(3) 2(2)]
          by (intro exI [of _ "prepares ok @ (Prepare, pid p', False) # calls_of Rollback os"]) auto
      qed
    qed
  qed
qed

text \<open>What the protocol excludes.\<close>

lemma calls_of_ops [simp]: "c \<in> set (calls_of op os) \<Longrightarrow> fst c = op"
  by (auto simp: calls_of_def)

lemma protocol_no_commit:
  "protocol ps cs \<Longrightarrow> (Commit, i, b) \<in> set cs \<Longrightarrow>
     (\<forall>p\<in>set ps. (Prepare, pid p, True) \<in> set cs) \<and> (\<forall>j. (Prepare, j, False) \<notin> set cs)"
  by (induction rule: protocol.induct) (auto simp: list_all_iff dest!: calls_of_ops)

lemma recover_from_calls:
  assumes "recover_from T tx ps log w = (r, w')"
  shows "\<exists>cs. calls w' = calls w @ cs \<and>
    ((\<exists>i b. (Commit, i, b) \<in> set cs) \<longrightarrow> status log = ''committing'') \<and>
    (status log \<in> {''committed'', ''rolled_back'', ''mixed''} \<longrightarrow> cs = [])"
proof -
  have rb: "\<exists>cs. calls w' = calls w @ cs \<and> (\<forall>i b. (Commit, i, b) \<notin> set cs)"
    if "roll_back_and_record T tx ps w = (r, w')"
  proof -
    obtain r1 w1 where rp: "rollback_phase tx ps w = (r1, w1)" by (rule prod.exhaust)
    obtain os where os: "map fst os = ps" "calls w1 = calls w @ calls_of Rollback os"
      using rp by (rule rollback_phase_calls)
    have "calls w' = calls w1"
      using that rp
      by (cases r1) (auto simp: roll_back_and_record_def io_bind_def dest!: quietD [OF quiet_ops(3)])
    with os show ?thesis by (fastforce dest: calls_of_ops)
  qed
  have co: "\<exists>cs. calls w' = calls w @ cs" if "recover_committing T tx ps w = (r, w')"
  proof -
    obtain results w1 where c: "commit_phase tx ps 2 w = (results, w1)" by (rule prod.exhaust)
    obtain r2 w2 where rp: "rollback_phase tx ps w1 = (r2, w2)" by (rule prod.exhaust)
    let ?rest = "io_bind (update_status T tx (final_status results)) (\<lambda>_.
      io_err (''Recovery failed during commit: '' @ join ''; '' (commit_failures results)))"
    have "quiet ?rest" by (intro quiet_bind) simp_all
    have "calls w' = calls w1 \<or> calls w' = calls w2"
    proof (cases "all_committed ps results")
      case True
      then have "update_status T tx Committed w1 = (r, w')"
        using that c by (simp add: recover_committing_def)
      from quietD [OF quiet_ops(3) this] show ?thesis by simp
    next
      case False
      then have "io_bind (rollback_phase tx ps) (\<lambda>_. ?rest) w1 = (r, w')"
        using that c by (simp add: recover_committing_def)
      then show ?thesis
        using rp quietD [OF \<open>quiet ?rest\<close>] by (cases r2) (auto simp: io_bind_Ok io_bind_Err)
    qed
    then show ?thesis
      using commit_phase_calls [OF c] rollback_phase_calls [OF rp] by (metis append_assoc)
  qed
  show ?thesis
    using assms rb co
    by (auto simp: recover_from_def status_from_str_def split: if_splits)
qed

end
