(* ===== verification/Two_Phase_Store.thy ===== *)
theory Two_Phase_Store
  imports Two_Phase_Commit
begin

text \<open>
  What a run of the two-phase-commit coordinator leaves in its backend: the transaction's log
  under \<open>2pc:tx:<id>\<close> and its state-machine entry under \<open>state:2pc_<id>\<close>. The lemmas are proved
  in \<open>kv_backend\<close> for every backend that keeps the contract, and reach the program through the
  interpretation on \<open>LocalBackend\<close>. The properties of the coordinator are at the end.
\<close>

section \<open>What a run leaves in the store\<close>

context kv_backend
begin

lemma load_entry_view: "view (snd (load_entry c B key s)) = view s"
  using load_view [of "state_key key" s]
  by (auto simp: load_entry_def io_bind_def split: prod.split sum.split option.split)

lemma load_entry_ok:
  assumes "load_entry c B key s = (Ok e, t)"
  shows "decode c (view s (state_key key)) = Some e"
proof -
  obtain d where "be_load B (state_key key) s = (Ok (Some d), t)" "from_slice c d = Ok e"
    using assms by (auto simp: load_entry_def io_bind_eq_Ok split: option.splits)
  from this(2) load_ok [OF this(1)] show ?thesis by (metis decode_eq_Some)
qed

lemma swap_view_other:
  "k \<noteq> state_key key \<Longrightarrow> view (snd (compare_and_swap_state c B key n new s)) k = view s k"
proof -
  assume k: "k \<noteq> state_key key"
  have "view (snd (be_compare_and_swap B (state_key key) old v s)) k = view s k" for old v
    using cas_view [of "state_key key" old v s] k by auto
  then show ?thesis
    by (auto simp: compare_and_swap_state_def io_bind_def split: sum.split)
qed

lemma transition_view_other:
  assumes "k \<noteq> state_key key"
  shows "view (snd (transition_attempts c B key to n s)) k = view s k"
proof -
  have "io_keeps (\<lambda>s. view s k = v) (transition_attempts c B key to n)" for v
  proof (induction n)
    case 0
    show ?case by (simp only: transition_attempts.simps io_keeps_basic)
  next
    case (Suc n)
    have "io_keeps (\<lambda>s. view s k = v) (load_entry c B key)"
      by (rule io_keepsI) (simp add: load_entry_view)
    moreover have "io_keeps (\<lambda>s. view s k = v) (compare_and_swap_state c B key m new)" for m new
      by (rule io_keepsI) (simp add: swap_view_other assms)
    ultimately show ?case
      unfolding transition_attempts.simps using Suc by (intro io_keeps_bind) simp_all
  qed
  from io_keepsD [OF this, of s] show ?thesis by simp
qed

lemma transition_refused:
  assumes "decode c (view s (state_key key)) = Some e" "\<not> is_ok (advance_entry to e)"
  shows "view (snd (transition_attempts c B key to n s)) = view s"
proof (cases n)
  case (Suc m)
  obtain r t where l: "load_entry c B key s = (r, t)" by fastforce
  then have "view t = view s" using load_entry_view [of c key s] by simp
  moreover have "r = Ok e' \<Longrightarrow> e' = e" for e'
    using load_entry_ok [of c key s e' t] l assms(1) by (auto simp: decode_def)
  ultimately show ?thesis
    using Suc l assms(2) by (cases r) (auto simp: io_bind_def is_ok_def split: sum.splits)
qed simp

lemma begin_transaction_ok:
  assumes "codec_ok (log_codec T)" "codec_ok (entry_codec T)" "backend T = B"
    "begin_transaction T tx ps md w = (Ok u, w')"
  shows "\<exists>log. logged view T tx w' log \<and> tx_metadata log = md \<and>
      participants log = map (\<lambda>p. \<lparr>info_id = pid p, info_name = pname p, info_role = prole p\<rparr>) ps"
    "entry_created view T tx w'"
proof -
  let ?infos = "map (\<lambda>p. \<lparr>info_id = pid p, info_name = pname p, info_role = prole p\<rparr>) ps"
  define log where "log = \<lparr>transaction_id = tx, status = status_as_str Preparing,
    participants = ?infos, created_at = clock w (ticks w), updated_at = clock w (Suc (ticks w)),
    tx_metadata = md\<rparr>"
  have log: "transaction_id log = tx" "participants log = ?infos" "tx_metadata log = md"
    by (simp_all add: log_def)
  obtain w2 s e where sv: "save_log T log (w\<lparr>ticks := Suc (Suc (ticks w))\<rparr>) = (Ok (), w2)"
    and cr: "create_state (entry_codec T) B (sm_key tx) (JObject [(''phase'', JString ''begin'')])
      (store w2) = (Ok e, s)" "w' = w2\<lparr>store := s\<rparr>"
    using assms(3,4)
    by (auto simp: begin_transaction_def log_new_def log_def io_bind_eq_Ok now_eq on_store_eq Let_def)
  obtain d where d: "from_slice (log_codec T) d = Ok log"
    "view (store w2) = (view (store w))(log_key tx \<mapsto> d)"
    using save_log_ok [OF assms(1,3) sv] log by auto
  obtain d' where d': "view s = (view (store w2))(state_key (sm_key tx) \<mapsto> d')"
    "from_slice (entry_codec T) d' = Ok e" "current_state e = ''created''"
    using cr(1) save_ok codec_ok_roundtrip [OF assms(2)]
    by (fastforce simp: create_state_def Let_def io_bind_eq_Ok)
  show "\<exists>log. logged view T tx w' log \<and> tx_metadata log = md \<and> participants log = ?infos"
    using d d' log cr(2) by (intro exI [of _ log]) (simp add: logged_def)
  show "entry_created view T tx w'" using d' cr(2) by (simp add: entry_created_def)
qed

end

text \<open>Once the transaction has begun its log stays readable and its entry stays \<open>created\<close>: the
  table has no transition from there to \<open>completed\<close> or \<open>failed\<close>.\<close>

definition begun ::
    "('s \<Rightarrow> string \<rightharpoonup> 'b) \<Rightarrow> ('s, 'b) two_phase_commit \<Rightarrow> string \<Rightarrow> (transaction_log \<Rightarrow> bool) \<Rightarrow>
     ('s, 'e) world \<Rightarrow> bool" where
  "begun view T tx Q w \<longleftrightarrow> (\<exists>log. logged view T tx w log \<and> Q log) \<and> entry_created view T tx w"

text \<open>A property of the log that writing the given statuses keeps.\<close>

definition log_keeps :: "transaction_status set \<Rightarrow> (transaction_log \<Rightarrow> bool) \<Rightarrow> bool" where
  "log_keeps S Q \<longleftrightarrow>
     (\<forall>st\<in>S. \<forall>log t. Q log \<longrightarrow> Q (log\<lparr>status := status_as_str st, updated_at := t\<rparr>))"

lemma store_on_store [simp]: "store (snd (on_store m w)) = snd (m (store w))"
  by (simp add: on_store_def split: prod.split)

lemma begun_view: "view (store w') = view (store w) \<Longrightarrow> begun view T tx Q w' = begun view T tx Q w"
  by (simp add: begun_def logged_def entry_created_def)

lemmas begun_defs = begun_def logged_def entry_created_def

lemma phases_begun:
  fixes ps :: "'e participant list"
  shows "io_keeps (begun view T tx Q) (rollback_phase tx' ps)"
    "commit_phase tx' ps n w = (results, w') \<Longrightarrow> begun view T tx Q w \<Longrightarrow> begun view T tx Q w'"
    "prepare_votes tx' ps vs w = (vf, w') \<Longrightarrow> begun view T tx Q w \<Longrightarrow> begun view T tx Q w'"
proof -
  show "io_keeps (begun view T tx Q) (rollback_phase tx' ps)"
  proof (rule io_keepsI)
    fix w :: "('a, 'e) world" assume w: "begun view T tx Q w"
    obtain r w' where rp: "rollback_phase tx' ps w = (r, w')" by fastforce
    then have "store w' = store w" by (rule rollback_phase_calls)
    with rp w show "begun view T tx Q (snd (rollback_phase tx' ps w))"
      by (simp add: begun_defs)
  qed
  show "commit_phase tx' ps n w = (results, w') \<Longrightarrow> begun view T tx Q w \<Longrightarrow> begun view T tx Q w'"
    by (erule commit_phase_calls) (simp add: begun_defs)
  show "prepare_votes tx' ps vs w = (vf, w') \<Longrightarrow> begun view T tx Q w \<Longrightarrow> begun view T tx Q w'"
    by (cases vf) (auto elim!: prepare_votes_calls simp: begun_defs)
qed

context kv_backend
begin

lemma update_status_begun_ok:
  assumes "codec_ok (log_codec T)" "backend T = B" "update_status T tx st w = (Ok log', w')"
    "begun view T tx Q w"
  shows "logged view T tx w' log'" "status log' = status_as_str st" "entry_created view T tx w'"
    "log_keeps {st} Q \<Longrightarrow> Q log'"
proof -
  obtain log where log: "logged view T tx w log" "Q log" and e: "entry_created view T tx w"
    using assms(4) by (auto simp: begun_def)
  note ok = update_status_ok [OF assms(1-3) log(1)]
  show "logged view T tx w' log'" "status log' = status_as_str st" using ok by simp_all
  show "entry_created view T tx w'"
    using e ok(4) [of "state_key (sm_key tx)"] by (simp add: entry_created_def)
  obtain t where "log' = log\<lparr>status := status_as_str st, updated_at := t\<rparr>"
    using ok(3) by blast
  with log(2) show "log_keeps {st} Q \<Longrightarrow> Q log'" by (simp add: log_keeps_def)
qed

lemma update_status_begun:
  assumes "codec_ok (log_codec T)" "backend T = B" "log_keeps S Q" "st \<in> S"
  shows "io_keeps (begun view T tx Q) (update_status T tx st)"
proof (rule io_keepsI)
  fix w :: "('s, 'e) world"
  assume w: "begun view T tx Q w"
  obtain r w' where u: "update_status T tx st w = (r, w')" by fastforce
  have Q: "log_keeps {st} Q" using assms(3,4) by (auto simp: log_keeps_def)
  show "begun view T tx Q (snd (update_status T tx st w))"
  proof (cases r)
    case (Inl e)
    then show ?thesis
      using begun_view [OF update_status_err [OF assms(2) u [unfolded Inl]]] w u by simp
  next
    case (Inr log')
    then show ?thesis
      using update_status_begun_ok [OF assms(1,2) u [unfolded Inr] w] Q u by (auto simp: begun_def)
  qed
qed

lemma sm_transition_view:
  assumes "backend T = B" "to = Completed \<or> to = Failed" "begun view T tx Q w"
  shows "view (store (snd (sm_transition T tx to w))) = view (store w)"
proof -
  obtain e where e: "decode (entry_codec T) (view (store w) (state_key (sm_key tx))) = Some e"
    "current_state e = ''created''"
    using assms(3) by (auto simp: begun_def entry_created_def)
  then have "\<not> is_ok (advance_entry to e)"
    using assms(2) by (auto simp: advance_entry_def from_str_def)
  from transition_refused [OF e(1) this, of 4] show ?thesis
    using assms(1) by (simp add: sm_transition_def transition_def)
qed

lemma sm_transition_begun:
  assumes "backend T = B" "to = Completed \<or> to = Failed"
  shows "io_keeps (begun view T tx Q) (sm_transition T tx to)"
  by (rule io_keepsI) (simp add: begun_view [OF sm_transition_view [OF assms]])

lemma decide_begun:
  assumes "codec_ok (log_codec T)" "backend T = B"
    "log_keeps {Committed, transaction_status.RollingBack, Mixed, RolledBack} Q"
  shows "io_keeps (begun view T tx Q) (decide_abort T tx ps votes)"
    and "io_keeps (begun view T tx Q) (finish_commit T tx ps results)"
    and "log_keeps {Committing} Q \<Longrightarrow> io_keeps (begun view T tx Q) (decide_commit T tx ps)"
    and "log_keeps {Preparing, Prepared} Q \<Longrightarrow> io_keeps (begun view T tx Q) (prepare_phase T tx ps)"
proof -
  note keeps = io_keeps_bind sm_transition_begun [OF assms(2)] phases_begun(1)
    io_keeps_ignore io_keeps_run
  note upd = update_status_begun [OF assms]
  show "io_keeps (begun view T tx Q) (decide_abort T tx ps votes)"
    unfolding decide_abort_def by (intro keeps upd) simp_all
  show fin: "io_keeps (begun view T tx Q) (finish_commit T tx ps results)" for results
    unfolding finish_commit_def by (auto intro!: keeps upd simp: final_status_def)
  show "io_keeps (begun view T tx Q) (decide_commit T tx ps)" if "log_keeps {Committing} Q"
    unfolding decide_commit_def
    by (rule io_keeps_bind, rule update_status_begun [OF assms(1,2) that])
      (auto intro!: keeps fin elim: phases_begun(2))
  show "io_keeps (begun view T tx Q) (prepare_phase T tx ps)" if "log_keeps {Preparing, Prepared} Q"
    unfolding prepare_phase_def
    using update_status_begun [OF assms(1,2) that]
    by (auto intro!: keeps elim: phases_begun(3) split: prod.split)
qed

lemma execute_begun:
  assumes "codec_ok (log_codec T)" "codec_ok (entry_codec T)" "backend T = B"
    "begin_transaction T tx ps md w = (Ok u, w0)" "execute T tx ps md w = (r, w')"
    "\<And>st. log_keeps {st} Q"
    "\<And>log. tx_metadata log = md \<Longrightarrow> participants log = map (\<lambda>p. \<lparr>info_id = pid p,
       info_name = pname p, info_role = prole p\<rparr>) ps \<Longrightarrow> Q log"
  shows "begun view T tx Q w'"
proof -
  have Q: "log_keeps S Q" for S using assms(6) by (auto simp: log_keeps_def)
  note keeps = decide_begun [OF assms(1,3) Q]
  let ?rest = "io_bind (prepare_phase T tx ps) (\<lambda>votes. if list_all vote votes
    then decide_commit T tx ps else decide_abort T tx ps votes)"
  have k: "io_keeps (begun view T tx Q) ?rest"
    by (rule io_keeps_bind, rule keeps(4) [OF Q]) (simp add: keeps(1) keeps(3) [OF Q])
  have "begun view T tx Q w0"
    using begin_transaction_ok [OF assms(1-4)] assms(7) by (auto simp: begun_def)
  from io_keepsD [OF k this] show ?thesis
    using assms(4,5) by (simp add: execute_def io_bind_Ok)
qed

lemma decide_commit_ok:
  assumes "codec_ok (log_codec T)" "backend T = B" "decide_commit T tx ps w = (Ok log, w')"
    "begun view T tx Q w" "\<And>st. log_keeps {st} Q"
  shows "logged view T tx w' log" "status log = ''committed''" "Q log"
proof -
  obtain log1 w1 results w2 w3 where
    u1: "update_status T tx Committing w = (Ok log1, w1)" and
    c: "commit_phase tx ps 2 w1 = (results, w2)" "all_committed ps results" and
    u2: "update_status T tx Committed w2 = (Ok log, w3)" and
    w': "w' = snd (sm_transition T tx Completed w3)"
    using assms(3)
    by (auto simp: decide_commit_def finish_commit_def io_bind_eq_Ok io_run_eq sm_transition_def
        simp del: io_bind_run split: if_splits)
  have "begun view T tx Q w1"
    using update_status_begun_ok [OF assms(1,2) u1 assms(4)] assms(5) by (auto simp: begun_def)
  then have b2: "begun view T tx Q w2" using phases_begun(2) c(1) by blast
  note ok = update_status_begun_ok [OF assms(1,2) u2 b2]
  show "Q log" "status log = ''committed''" using ok assms(5) by simp_all
  have "begun view T tx Q w3" using ok assms(5) by (auto simp: begun_def)
  from sm_transition_view [OF assms(2) disjI1 [OF refl] this] w' ok(1)
  show "logged view T tx w' log" by (simp add: logged_def)
qed

lemma decide_abort_err: "decide_abort T tx ps votes w \<noteq> (Ok log, w')"
  by (auto simp: decide_abort_def io_bind_eq_Ok)

lemma execute_ok:
  assumes "codec_ok (log_codec T)" "codec_ok (entry_codec T)" "backend T = B"
    "execute T tx ps md w = (Ok log, w')"
  shows "logged view T tx w' log" "status log = ''committed''" "tx_metadata log = md"
    "participants log = map (\<lambda>p. \<lparr>info_id = pid p, info_name = pname p, info_role = prole p\<rparr>) ps"
proof -
  let ?Q = "\<lambda>log. tx_metadata log = md \<and>
    participants log = map (\<lambda>p. \<lparr>info_id = pid p, info_name = pname p, info_role = prole p\<rparr>) ps"
  obtain w0 votes w1 where b: "begin_transaction T tx ps md w = (Ok (), w0)"
    and p: "prepare_phase T tx ps w0 = (Ok votes, w1)" and d: "decide_commit T tx ps w1 = (Ok log, w')"
    using assms(4) decide_abort_err by (fastforce simp: execute_def io_bind_eq_Ok split: if_splits)
  have Q: "log_keeps S ?Q" for S by (simp add: log_keeps_def)
  have "begun view T tx ?Q w0"
    using begin_transaction_ok [OF assms(1-3) b] by (auto simp: begun_def)
  from io_keepsD [OF decide_begun(4) [OF assms(1,3) Q Q] this, of ps] p
  have b1: "begun view T tx ?Q w1" by simp
  show "logged view T tx w' log" "status log = ''committed''" "tx_metadata log = md"
    "participants log = map (\<lambda>p. \<lparr>info_id = pid p, info_name = pname p, info_role = prole p\<rparr>) ps"
    using decide_commit_ok [OF assms(1,3) d b1 Q] by simp_all
qed

text \<open>Write-ahead: commit calls are made only after the decision is on record.\<close>

lemma decide_commit_recorded:
  assumes "codec_ok (log_codec T)" "backend T = B" "decide_commit T tx ps w = (r, w')"
    "begun view T tx (\<lambda>_. True) w"
  shows "calls w' = calls w \<or>
    begun view T tx (\<lambda>log. status log \<noteq> ''preparing'' \<and> status log \<noteq> ''prepared'') w'"
proof -
  let ?Q = "\<lambda>log. status log \<noteq> ''preparing'' \<and> status log \<noteq> ''prepared''"
  obtain r1 w1 where u: "update_status T tx Committing w = (r1, w1)" by fastforce
  show ?thesis
  proof (cases r1)
    case (Inl e)
    then have "w' = w1" using assms(3) u by (simp add: decide_commit_def io_bind_Err)
    then have "calls w' = calls w" using quietD [OF quiet_ops(3) u] by simp
    then show ?thesis by (rule disjI1)
  next
    case (Inr log1)
    note ok = update_status_begun_ok(1-3) [OF assms(1,2) u [unfolded Inr] assms(4)]
    have b1: "begun view T tx ?Q w1"
      unfolding begun_def by (intro conjI exI [of _ log1]) (simp_all add: ok)
    have Q: "log_keeps {Committed, transaction_status.RollingBack, Mixed, RolledBack} ?Q"
      by (simp add: log_keeps_def)
    obtain results w2 where c: "commit_phase tx ps 2 w1 = (results, w2)" by (rule prod.exhaust)
    have b2: "begun view T tx ?Q w2" using c b1 by (rule phases_begun(2))
    have "io_keeps (begun view T tx ?Q) (finish_commit T tx ps results)"
      using assms(1,2) Q by (rule decide_begun(2))
    then have b3: "begun view T tx ?Q (snd (finish_commit T tx ps results w2))"
      using b2 by (simp only: io_keeps_def)
    have "finish_commit T tx ps results w2 = (r, w')"
      using assms(3) u [unfolded Inr] c by (simp add: decide_commit_def io_bind_Ok)
    with b3 have "begun view T tx ?Q w'" by (simp only: snd_conv)
    then show ?thesis by (rule disjI2)
  qed
qed

lemma execute_recorded:
  assumes "codec_ok (log_codec T)" "codec_ok (entry_codec T)" "backend T = B"
    "execute T tx ps md w = (r, w')" "calls w' = calls w @ cs" "(Commit, i, b) \<in> set cs"
  shows "\<exists>log. logged view T tx w' log \<and> status log \<noteq> ''preparing'' \<and> status log \<noteq> ''prepared''"
proof -
  obtain r0 w0 where b: "begin_transaction T tx ps md w = (r0, w0)" by (rule prod.exhaust)
  obtain r1 w1 where p: "prepare_phase T tx ps w0 = (r1, w1)" by (rule prod.exhaust)
  have c0: "calls w0 = calls w" using quietD [OF quiet_ops(5) b] ..
  have no_commit: "\<exists>cs. calls w1 = calls w @ cs \<and> (\<forall>i b. (Commit, i, b) \<notin> set cs)"
    using p c0 by (cases rule: prepare_phase_calls) auto
  have "r0 \<noteq> Err e" for e
    using assms(4-6) b c0 by (auto simp: execute_def io_bind_Err)
  then have r0: "r0 = Ok ()" by (cases r0) auto
  then have ex: "io_bind (prepare_phase T tx ps) (\<lambda>votes. if list_all vote votes
      then decide_commit T tx ps else decide_abort T tx ps votes) w0 = (r, w')"
    using assms(4) b by (simp add: execute_def io_bind_Ok)
  have "r1 \<noteq> Err e" for e
    using ex p assms(5,6) no_commit by (auto simp: io_bind_Err)
  then obtain votes where r1: "r1 = Ok votes" by (cases r1) auto
  have no_abort: "\<not> decide_abort T tx ps votes w1 = (r, w')"
  proof
    assume "decide_abort T tx ps votes w1 = (r, w')"
    then show False
      by (cases rule: decide_abort_calls) (use no_commit assms(5,6) in \<open>auto dest!: calls_of_ops\<close>)
  qed
  then have d: "decide_commit T tx ps w1 = (r, w')"
    using ex p r1 by (auto simp: io_bind_Ok split: if_splits)
  have "begun view T tx (\<lambda>_. True) w0"
    using begin_transaction_ok [OF assms(1-3) b [unfolded r0]] by (auto simp: begun_def)
  moreover have "io_keeps (begun view T tx (\<lambda>_. True)) (prepare_phase T tx ps)"
    by (rule decide_begun(4) [OF assms(1,3)]) (simp_all add: log_keeps_def)
  ultimately have "begun view T tx (\<lambda>_. True) w1" using p by (metis (no_types) io_keeps_def snd_conv)
  from decide_commit_recorded [OF assms(1,3) d this] show ?thesis
    using no_commit assms(5,6) by (auto simp: begun_def)
qed

lemma recover_ok:
  assumes "codec_ok (log_codec T)" "backend T = B" "logged view T tx w log0"
    "recover T tx ps w = (Ok log, w')"
  shows "logged view T tx w' log" "status log \<in> {''committed'', ''rolled_back'', ''mixed''}"
proof -
  obtain w1 where l: "load_log T tx w = (Ok (Some log0), w1)"
    using assms(3,4) load_log_ok(1) [OF assms(2), of tx w]
    by (auto simp: recover_def io_bind_eq_Ok logged_def decode_def split: option.splits)
  have l1: "logged view T tx w1 log0"
    using load_log_ok(2) [OF assms(2) l] assms(3) by (simp add: logged_def)
  have rest: "recover_from T tx ps log0 w1 = (Ok log, w')"
    using assms(4) l by (simp add: recover_def io_bind_Ok)
  consider (final) "log = log0" "w' = w1" "status log0 \<in> {''committed'', ''rolled_back'', ''mixed''}"
    | (update) st w2 where "store w2 = store w1" "update_status T tx st w2 = (Ok log, w')"
        "st \<in> {Committed, RolledBack}"
  proof -
    have rb: thesis if "roll_back_and_record T tx ps w1 = (Ok log, w')"
      using that update [of _ RolledBack]
      by (auto simp: roll_back_and_record_def io_bind_eq_Ok elim!: rollback_phase_calls)
    have co: thesis if "recover_committing T tx ps w1 = (Ok log, w')"
      using that update [of _ Committed]
      by (auto simp: recover_committing_def io_bind_eq_Ok split: prod.splits if_splits
          elim!: commit_phase_calls)
    show thesis
      using rest rb co final
      by (auto simp: recover_from_def status_from_str_def split: if_splits)
  qed
  then have "logged view T tx w' log \<and> status log \<in> {''committed'', ''rolled_back'', ''mixed''}"
  proof cases
    case (update st w2)
    then have "logged view T tx w2 log0" using l1 by (simp add: logged_def)
    from update_status_ok(1,2) [OF assms(1,2) update(2) this] update(3) show ?thesis by auto
  qed (use l1 in simp)
  then show "logged view T tx w' log" "status log \<in> {''committed'', ''rolled_back'', ''mixed''}"
    by simp_all
qed

end

section \<open>Runs without storage errors\<close>

text \<open>The status that a run should end with, read off its calls.\<close>

definition outcome :: "'e participant list \<Rightarrow> (call \<times> string \<times> bool) list \<Rightarrow> transaction_status" where
  "outcome ps cs =
     (if list_ex (\<lambda>(op, _, ok). op = Prepare \<and> \<not> ok) cs then RolledBack
      else if mset (succeeded Commit cs) = mset (map pid ps) then Committed
      else if succeeded Commit cs \<noteq> [] then Mixed
      else RolledBack)"

definition reliable ::
    "('b storage, 'b) two_phase_commit \<Rightarrow> string \<Rightarrow> ('b storage, 'e) world \<Rightarrow> bool" where
  "reliable T tx w \<longleftrightarrow> backend T = local_backend (entry_codec T) \<and> codec_ok (log_codec T) \<and>
     codec_ok (entry_codec T) \<and> faults (store w) = [] \<and> begun storage_view T tx (\<lambda>_. True) w"

lemma update_status_reliable:
  assumes "reliable T tx w"
  obtains log w' where "update_status T tx st w = (Ok log, w')" "reliable T tx w'"
    "logged storage_view T tx w' log" "status log = status_as_str st" "calls w' = calls w"
proof -
  obtain log0 where log0: "logged storage_view T tx w log0"
    using assms by (auto simp: reliable_def begun_def)
  then obtain d0 where d0: "map_option row_value (rows (store w) (log_key tx)) = Some d0"
    "from_slice (log_codec T) d0 = Ok log0"
    by (auto simp: logged_def storage_view_def)
  let ?log = "log0\<lparr>status := status_as_str st, updated_at := clock w (ticks w)\<rparr>"
  obtain d where d: "to_vec (log_codec T) ?log = Ok d"
    using assms by (auto simp: reliable_def elim: codec_okE)
  have f: "faults (store w) = []" and T: "backend T = local_backend (entry_codec T)"
    using assms by (auto simp: reliable_def)
  let ?w' = "w\<lparr>ticks := Suc (ticks w), store := (store w)\<lparr>rows :=
    upsert_row (log_key (transaction_id log0)) d octet_stream (rows (store w))\<rparr>\<rparr>"
  have l: "load_log T tx w = (Ok (Some log0), w)"
    using d0 f T by (auto simp: load_log_def on_store_def io_bind_Ok)
  have u: "update_status T tx st w = (Ok ?log, ?w')"
    using l d f T
    by (simp add: update_status_def io_bind_Ok now_def save_log_def on_store_def Let_def)
  note ok = lb.update_status_begun_ok [OF _ T u, of "\<lambda>_. True"]
  have "reliable T tx ?w'"
    using assms ok by (auto simp: reliable_def begun_def)
  with u ok assms show thesis
    by (intro that [of ?log ?w']) (auto simp: reliable_def)
qed

lemma reliable_same_store: "reliable T tx w \<Longrightarrow> store w' = store w \<Longrightarrow> reliable T tx w'"
  by (simp add: reliable_def begun_defs)

lemma prepare_phase_reliable:
  assumes "reliable T tx w"
  obtains votes w' where "prepare_phase T tx ps w = (Ok votes, w')" "reliable T tx w'"
proof -
  obtain log w1 where u: "update_status T tx Preparing w = (Ok log, w1)" "reliable T tx w1"
    using assms by (rule update_status_reliable)
  obtain votes fin w2 where p: "prepare_votes tx ps [] w1 = ((votes, fin), w2)"
    by (metis prod.exhaust)
  then have "store w2 = store w1" by (auto elim: prepare_votes_calls)
  then have r2: "reliable T tx w2" using u(2) reliable_same_store by blast
  then obtain log' w3 where u3: "update_status T tx Prepared w2 = (Ok log', w3)" "reliable T tx w3"
    by (rule update_status_reliable)
  show thesis
    using that [of votes "if fin then w3 else w2"] u p u3 r2
    by (cases fin) (simp_all add: prepare_phase_def io_bind_Ok)
qed

lemma sm_transition_logged:
  assumes "reliable T tx w" "logged storage_view T tx w log" "to = Completed \<or> to = Failed"
  shows "logged storage_view T tx (snd (sm_transition T tx to w)) log"
  using lb.sm_transition_view [OF _ assms(3), of T _ tx "\<lambda>_. True" w] assms(1,2)
  by (auto simp: reliable_def logged_def)

lemma sm_transition_calls [simp]: "calls (snd (sm_transition T tx to w)) = calls w"
  by (metis quiet_def quiet_ops(4))

lemma decide_abort_reliable:
  assumes "reliable T tx w" "decide_abort T tx ps votes w = (r, w')"
  shows "\<exists>log e. r = Err e \<and> logged storage_view T tx w' log \<and> status log = ''rolled_back''"
proof -
  obtain log1 w1 where u1: "update_status T tx transaction_status.RollingBack w = (Ok log1, w1)"
      "reliable T tx w1"
    using assms(1) by (rule update_status_reliable)
  obtain r2 w2 where rb: "rollback_phase tx ps w1 = (r2, w2)" by (rule prod.exhaust)
  then have "store w2 = store w1" by (rule rollback_phase_calls)
  then have "reliable T tx w2" using u1(2) reliable_same_store by blast
  then obtain log3 w3 where u3: "update_status T tx RolledBack w2 = (Ok log3, w3)" "reliable T tx w3"
      "logged storage_view T tx w3 log3" "status log3 = status_as_str RolledBack"
    by (rule update_status_reliable)
  have "w' = snd (sm_transition T tx Failed w3)" "\<exists>e. r = Err e"
    using assms(2) u1 u3 rb
    by (auto simp: decide_abort_def io_bind_Ok sm_transition_def)
  then show ?thesis using sm_transition_logged [OF u3(2,3), of Failed] u3(4) by auto
qed

lemma decide_commit_reliable:
  assumes "reliable T tx w" "decide_commit T tx ps w = (r, w')"
  obtains com os log where "calls w' = calls w @ com @ calls_of Rollback os" "os = [] \<or> map fst os = ps"
    "list_all (\<lambda>c. fst c = Commit) com" "logged storage_view T tx w' log"
    "status log = status_as_str (if mset (succeeded Commit com) = mset (map pid ps) then Committed
       else if succeeded Commit com \<noteq> [] then Mixed else RolledBack)"
    "is_ok r \<longleftrightarrow> mset (succeeded Commit com) = mset (map pid ps)"
proof -
  obtain log1 w1 where u1: "update_status T tx Committing w = (Ok log1, w1)" "reliable T tx w1"
      "calls w1 = calls w"
    using assms(1) by (rule update_status_reliable)
  obtain results w2 where c: "commit_phase tx ps 2 w1 = (results, w2)" by (rule prod.exhaust)
  then obtain com where com: "calls w2 = calls w @ com" "list_all (\<lambda>c. fst c = Commit) com"
    "store w2 = store w1" "all_committed ps results \<longleftrightarrow> mset (succeeded Commit com) = mset (map pid ps)"
    "list_ex committed results \<longleftrightarrow> succeeded Commit com \<noteq> []"
    using u1(3) by (auto elim: commit_phase_calls)
  have r2: "reliable T tx w2" using u1(2) com(3) reliable_same_store by blast
  have fin: "finish_commit T tx ps results w2 = (r, w')"
    using assms(2) u1 c by (simp add: decide_commit_def io_bind_Ok)
  show thesis
  proof (cases "all_committed ps results")
    case True
    obtain log3 w3 where u3: "update_status T tx Committed w2 = (Ok log3, w3)" "reliable T tx w3"
        "logged storage_view T tx w3 log3" "status log3 = status_as_str Committed" "calls w3 = calls w2"
      using r2 by (rule update_status_reliable)
    have w': "w' = snd (sm_transition T tx Completed w3)" "r = Ok log3"
      using fin u3 True by (auto simp: finish_commit_def io_bind_Ok sm_transition_def)
    have "calls w' = calls w @ com @ calls_of Rollback []"
      using w' u3(5) com(1) by auto
    then show thesis
      using sm_transition_logged [OF u3(2,3), of Completed] w' u3(4) com True
      by (intro that [of com "[]" log3]) simp_all
  next
    case False
    obtain log3 w3 where u3: "update_status T tx transaction_status.RollingBack w2 = (Ok log3, w3)"
        "reliable T tx w3" "calls w3 = calls w2"
      using r2 by (rule update_status_reliable)
    obtain r4 w4 where rb: "rollback_phase tx ps w3 = (r4, w4)" by (rule prod.exhaust)
    then obtain os where os: "calls w4 = calls w3 @ calls_of Rollback os" "store w4 = store w3"
        "map fst os = ps"
      by (rule rollback_phase_calls)
    have "reliable T tx w4" using u3(2) os(2) reliable_same_store by blast
    then obtain log5 w5 where u5: "update_status T tx (final_status results) w4 = (Ok log5, w5)"
        "reliable T tx w5" "logged storage_view T tx w5 log5"
        "status log5 = status_as_str (final_status results)" "calls w5 = calls w4"
      by (rule update_status_reliable)
    have w': "w' = snd (sm_transition T tx Failed w5)" "\<exists>e. r = Err e"
      using fin u3 u5 rb False by (auto simp: finish_commit_def io_bind_Ok sm_transition_def)
    have "calls w' = calls w @ com @ calls_of Rollback os"
      using w' u3(3) u5(5) os(1) com(1) by auto
    then show thesis
      using sm_transition_logged [OF u5(2,3), of Failed] w' u5(4) com False os(3)
      by (intro that [of com os log5]) (auto simp: final_status_def)
  qed
qed

lemma begin_reliable:
  assumes "backend T = local_backend (entry_codec T)" "codec_ok (log_codec T)"
    "codec_ok (entry_codec T)" "faults (store w) = []"
  obtains w' where "begin_transaction T tx ps md w = (Ok (), w')" "reliable T tx w'"
    "calls w' = calls w"
proof -
  have s: "\<exists>w'. save_log T log v = (Ok (), w') \<and> faults (store w') = []"
    if "faults (store v) = []" for log and v :: "('a storage, 'b) world"
  proof -
    obtain d where "to_vec (log_codec T) log = Ok d" using assms(2) by (rule codec_okE)
    then show ?thesis using that assms(1) by (simp add: save_log_def on_store_def io_bind_Ok)
  qed
  have c: "\<exists>e w'. on_store (create_state (entry_codec T) (backend T) k m) v = (Ok e, w') \<and>
      faults (store w') = []"
    if "faults (store v) = []" for k m and v :: "('a storage, 'b) world"
  proof -
    obtain d where "to_vec (entry_codec T) \<lparr>entry_key = k, current_state = as_str Created,
        entry_version = 1, entry_metadata = m\<rparr> = Ok d" using assms(3) by (rule codec_okE)
    then show ?thesis
      using that assms(1) by (simp add: create_state_def Let_def on_store_def io_bind_Ok)
  qed
  obtain log v where n: "log_new tx (map (\<lambda>p. \<lparr>info_id = pid p, info_name = pname p,
      info_role = prole p\<rparr>) ps) md w = (Ok log, v)" "faults (store v) = []"
    using assms(4) by (simp add: log_new_def io_bind_Ok now_def)
  obtain w1 where s1: "save_log T log v = (Ok (), w1)" "faults (store w1) = []"
    using s [OF n(2)] by blast
  obtain e w2 where "on_store (create_state (entry_codec T) (backend T) (sm_key tx)
      (JObject [(''phase'', JString ''begin'')])) w1 = (Ok e, w2)" "faults (store w2) = []"
    using c [OF s1(2)] by blast
  with n s1 have b: "begin_transaction T tx ps md w = (Ok (), w2)" "faults (store w2) = []"
    by (simp_all add: begin_transaction_def Let_def io_bind_Ok)
  have "reliable T tx w2"
    using lb.begin_transaction_ok [OF assms(2,3,1) b(1)] assms b(2) by (auto simp: reliable_def begun_def)
  then show thesis using that b(1) quietD [OF quiet_ops(5) b(1)] by blast
qed

lemma outcome_simps:
  assumes "list_all (\<lambda>c. fst c = Commit) com"
  shows "outcome ps (prepares ok @ (Prepare, i, False) # cs) = RolledBack"
    "outcome ps (prepares ps @ com @ calls_of Rollback os) =
       (if mset (succeeded Commit com) = mset (map pid ps) then Committed
        else if succeeded Commit com \<noteq> [] then Mixed else RolledBack)"
proof -
  show "outcome ps (prepares ok @ (Prepare, i, False) # cs) = RolledBack"
    by (simp add: outcome_def)
  have "\<not> list_ex (\<lambda>(op, _, ok). op = Prepare \<and> \<not> ok) (prepares ps @ com @ calls_of Rollback os)"
    using assms by (auto simp: list_ex_iff list_all_iff dest!: calls_of_ops)
  moreover have "succeeded Commit (prepares ps) = []"
    by (auto simp: succeeded_def filter_empty_conv)
  ultimately show "outcome ps (prepares ps @ com @ calls_of Rollback os) =
       (if mset (succeeded Commit com) = mset (map pid ps) then Committed
        else if succeeded Commit com \<noteq> [] then Mixed else RolledBack)"
    by (simp only: outcome_def succeeded_append succeeded_other) simp
qed

end
