(* ===== verification/Two_Phase_Properties.thy ===== *)
theory Two_Phase_Properties
  imports Two_Phase_Store
begin

text \<open>
  The properties of the two-phase-commit coordinator, over the lemmas of \<open>Two_Phase_Commit\<close> (calls
  to participants) and \<open>Two_Phase_Store\<close> (what is left in the backend), with the coordinator's
  backend the local storage where the store matters.
\<close>

section \<open>A concrete coordinator\<close>

definition demo_log_codec :: "(transaction_log, state_entry + transaction_log) codec" where
  "demo_log_codec = \<lparr>to_vec = (\<lambda>l. Ok (Inr l)),
     from_slice = (\<lambda>d. case d of Inl _ \<Rightarrow> Err ''not a log'' | Inr l \<Rightarrow> Ok l)\<rparr>"

definition demo_entry_codec :: "(state_entry, state_entry + transaction_log) codec" where
  "demo_entry_codec = \<lparr>to_vec = (\<lambda>e. Ok (Inl e)),
     from_slice = (\<lambda>d. case d of Inl e \<Rightarrow> Ok e | Inr _ \<Rightarrow> Err ''not an entry'')\<rparr>"

definition demo_tpc ::
    "((state_entry + transaction_log) storage, state_entry + transaction_log) two_phase_commit" where
  "demo_tpc = \<lparr>backend = local_backend demo_entry_codec, log_codec = demo_log_codec,
     entry_codec = demo_entry_codec\<rparr>"

definition demo_world :: "((state_entry + transaction_log) storage, nat) world" where
  "demo_world = \<lparr>store = empty_storage, databases = 0, clock = (\<lambda>_. ''now''), ticks = 0, calls = []\<rparr>"

text \<open>A participant that always succeeds, one whose first \<open>n\<close> commits fail, and one that votes no.\<close>

definition steady :: "nat participant" where
  "steady = fn_participant ''a'' ''a'' ''rw'' (io_ret ()) (io_ret ()) (io_ret ())"

definition flaky :: "nat \<Rightarrow> nat participant" where
  "flaky n = fn_participant ''b'' ''b'' ''rw'' (io_ret ())
     (\<lambda>k. if k < n then (Err ''locked'', Suc k) else (Ok (), k)) (io_ret ())"

definition refusing :: "nat participant" where
  "refusing = fn_participant ''c'' ''c'' ''rw'' (io_err ''constraint'') (io_ret ()) (io_ret ())"

lemmas run_defs = execute_def begin_transaction_def log_new_def save_log_def load_log_def
  update_status_def prepare_phase_def decide_commit_def decide_abort_def finish_commit_def
  commit_phase_def rollback_phase_def recover_def recover_from_def roll_back_and_record_def recover_committing_def
  sm_transition_def transition_def create_state_def load_entry_def now_def on_store_def
  call_participant_def io_bind_def io_run_def Let_def upsert_row_def demo_tpc_def demo_log_codec_def
  demo_entry_codec_def flaky_def steady_def refusing_def demo_world_def fn_participant_def
  empty_storage_def all_committed_def final_status_def log_key_def state_key_def sm_key_def
  eval_nat_numeral advance_entry_def from_str_def

lemma demo_codecs [simp]:
  "codec_ok (log_codec demo_tpc)" "codec_ok (entry_codec demo_tpc)"
  "backend demo_tpc = local_backend (entry_codec demo_tpc)" "faults (store demo_world) = []"
  by (simp_all add: codec_ok_def demo_tpc_def demo_log_codec_def demo_entry_codec_def
      demo_world_def empty_storage_def)

lemma demo_success:
  "is_ok (fst (execute demo_tpc ''t'' [steady, flaky 1] JNull demo_world))"
  "calls (snd (execute demo_tpc ''t'' [steady, flaky 1] JNull demo_world)) =
     [(Prepare, ''a'', True), (Prepare, ''b'', True), (Commit, ''a'', True), (Commit, ''b'', False),
      (Commit, ''b'', True)]"
  by (simp_all add: run_defs)

lemma demo_mixed:
  "calls (snd (execute demo_tpc ''t'' [steady, flaky 3] JNull demo_world)) =
     [(Prepare, ''a'', True), (Prepare, ''b'', True), (Commit, ''a'', True), (Commit, ''b'', False),
      (Commit, ''b'', False), (Commit, ''b'', False), (Rollback, ''a'', True), (Rollback, ''b'', True)]"
  by (simp add: run_defs)

section \<open>Properties\<close>

text \<open>C2: For every backend and every pattern of participant and storage failures, the calls that
  \<open>execute\<close> makes follow the protocol: prepare in order up to the first rejection; commits only
  after everyone agreed; rollbacks of all participants only after a rejection or after a commit
  phase that left someone uncommitted. When \<open>execute\<close> succeeds, everyone prepared and every
  participant's commit succeeded exactly once, with no rollback.\<close>

theorem execute_follows_protocol:
  assumes "execute T tx ps md w = (r, w')"
  shows "\<exists>cs. calls w' = calls w @ cs \<and> protocol ps cs \<and> (is_ok r \<longrightarrow> unanimous ps cs)"
  using assms by (rule execute_calls)

theorem execute_follows_protocol_witness:
  "protocol [steady, flaky 3] [(Prepare, ''a'', True), (Prepare, ''b'', True), (Commit, ''a'', True),
     (Commit, ''b'', False), (Commit, ''b'', False), (Commit, ''b'', False), (Rollback, ''a'', True),
     (Rollback, ''b'', True)]"
proof -
  obtain r w' where e: "execute demo_tpc ''t'' [steady, flaky 3] JNull demo_world = (r, w')"
    by (rule prod.exhaust)
  from execute_follows_protocol [OF e] show ?thesis
    using demo_mixed e by (auto simp: demo_world_def)
qed

text \<open>C3: Atomic commitment, in the order of calls: if \<open>execute\<close> asks any participant to commit, then
  every participant was asked to prepare and agreed, and nobody rejected.\<close>

theorem no_commit_without_consent:
  assumes "execute T tx ps md w = (r, w')" "calls w' = calls w @ cs" "(Commit, i, b) \<in> set cs"
  shows "(\<forall>p\<in>set ps. (Prepare, pid p, True) \<in> set cs) \<and> (\<forall>j. (Prepare, j, False) \<notin> set cs)"
proof -
  have "protocol ps cs" using execute_calls [OF assms(1)] assms(2) by simp
  from protocol_no_commit [OF this assms(3)] show ?thesis .
qed

theorem no_commit_without_consent_witness:
  "{(Prepare, ''a'', True), (Prepare, ''b'', True)} \<subseteq> set
     (calls (snd (execute demo_tpc ''t'' [steady, flaky 1] JNull demo_world)))"
  using no_commit_without_consent [of demo_tpc "''t''" "[steady, flaky 1]" JNull demo_world _ _
      _ "''a''" True, OF prod.collapse [symmetric]] demo_success
  by (auto simp: demo_world_def steady_def flaky_def fn_participant_def)

text \<open>When \<open>execute\<close> returns a log, that log is the one stored for the transaction, its status is
  "committed", and it names the participants and metadata the transaction was started with.\<close>

lemma execute_success_stored:
  assumes "codec_ok (log_codec T)" "codec_ok (entry_codec T)" "backend T = local_backend c"
    and "execute T tx ps md w = (Ok log, w')"
  shows "logged storage_view T tx w' log \<and> status log = ''committed'' \<and> tx_metadata log = md \<and>
    participants log = map (\<lambda>p. \<lparr>info_id = pid p, info_name = pname p, info_role = prole p\<rparr>) ps"
  using lb.execute_ok [OF assms] by simp

text \<open>C14: Without storage errors the stored status tells what happened: "rolled_back" after a rejection
  or when no commit succeeded, "committed" when all did, "mixed" exactly when some but not all
  did; and \<open>execute\<close> reports success exactly for "committed".\<close>

theorem execute_outcome:
  assumes "codec_ok (log_codec T)" "codec_ok (entry_codec T)"
    and "backend T = local_backend (entry_codec T)" "faults (store w) = []"
    and "execute T tx ps md w = (r, w')"
  shows "\<exists>cs log. calls w' = calls w @ cs \<and> logged storage_view T tx w' log \<and>
    status log = status_as_str (outcome ps cs) \<and> (is_ok r \<longleftrightarrow> outcome ps cs = Committed)"
proof -
  obtain w0 where b: "begin_transaction T tx ps md w = (Ok (), w0)" "reliable T tx w0"
      "calls w0 = calls w"
    using assms(3,1,2,4) by (rule begin_reliable)
  obtain votes w1 where p: "prepare_phase T tx ps w0 = (Ok votes, w1)" "reliable T tx w1"
    using b(2) by (rule prepare_phase_reliable)
  have ex: "(if list_all vote votes then decide_commit T tx ps else decide_abort T tx ps votes) w1 = (r, w')"
    using assms(5) b p by (simp add: execute_def io_bind_Ok)
  from p(1) show ?thesis
  proof (cases rule: prepare_phase_calls)
    case (agreed votes')
    then have "decide_commit T tx ps w1 = (r, w')" using ex p(1) by simp
    with p(2) show ?thesis
    proof (rule decide_commit_reliable)
      fix com os log
      assume c: "calls w' = calls w1 @ com @ calls_of Rollback os" "list_all (\<lambda>c. fst c = Commit) com"
        "logged storage_view T tx w' log"
        "status log = status_as_str (if mset (succeeded Commit com) = mset (map pid ps) then Committed
           else if succeeded Commit com \<noteq> [] then Mixed else RolledBack)"
        "is_ok r \<longleftrightarrow> mset (succeeded Commit com) = mset (map pid ps)"
      then show ?thesis
        using agreed(3) b(3) outcome_simps(2) [OF c(2), of ps os]
        by (intro exI [of _ "prepares ps @ com @ calls_of Rollback os"] exI [of _ log]) auto
    qed
  next
    case (rejected votes' ok p' rest)
    then have d: "decide_abort T tx ps votes w1 = (r, w')" using ex p(1) by simp
    from execute_calls [OF assms(5)] obtain cs where cs: "calls w' = calls w @ cs" by blast
    obtain cs' where "calls w' = calls w1 @ cs'" using d by (cases rule: decide_abort_calls) auto
    then have "outcome ps cs = RolledBack"
      using cs rejected(4) b(3) outcome_simps(1) [of "[]"] by auto
    with decide_abort_reliable [OF p(2) d] cs show ?thesis by fastforce
  qed simp
qed

theorem execute_outcome_witness:
  "\<exists>log. logged storage_view demo_tpc ''t'' (snd (execute demo_tpc ''t'' [steady, flaky 3] JNull demo_world)) log
     \<and> status log = ''mixed''"
  using execute_outcome [OF demo_codecs prod.collapse [symmetric], of "''t''" "[steady, flaky 3]" JNull]
    demo_mixed
  by (auto simp: demo_world_def outcome_def succeeded_def steady_def flaky_def fn_participant_def)

text \<open>C29: Write-ahead logging: once any participant has been asked to commit, the stored status is past
  "preparing" and "prepared", under every pattern of storage errors. So a transaction found in
  one of these two states after a crash has committed nowhere, and rolling it back is safe.\<close>

theorem decision_logged_before_commit:
  assumes "codec_ok (log_codec T)" "codec_ok (entry_codec T)" "backend T = local_backend c"
    and "execute T tx ps md w = (r, w')" "calls w' = calls w @ cs" "(Commit, i, b) \<in> set cs"
  shows "\<exists>log. logged storage_view T tx w' log \<and>
    status log \<noteq> ''preparing'' \<and> status log \<noteq> ''prepared''"
  using assms by (rule lb.execute_recorded)

theorem decision_logged_before_commit_witness:
  "\<exists>log. logged storage_view demo_tpc ''t'' (snd (execute demo_tpc ''t'' [steady, flaky 3] JNull demo_world)) log
     \<and> status log \<noteq> ''prepared''"
  using decision_logged_before_commit [where w = demo_world and tx = "''t''" and md = JNull and
      ps = "[steady, flaky 3]" and i = "''a''" and b = True, OF demo_codecs(1-3) prod.collapse [symmetric]]
    demo_mixed
  by (auto simp: demo_world_def)

text \<open>C38: \<open>commit_phase\<close> asks each participant again until it succeeds, at most \<open>max_retries\<close> more times,
  and never again after a success; it reports exactly one result for every participant. The
  participants have distinct identifiers.\<close>

theorem commit_phase_retries:
  assumes "commit_phase tx ps n w = (results, w')" "distinct (map pid ps)"
  shows "\<exists>cs. calls w' = calls w @ cs \<and> (\<forall>p\<in>set ps. bounded_retry n (answers (pid p) cs)) \<and>
    mset (map commit_participant_id results) = mset (map pid ps)"
  using commit_attempts_answers [OF assms(1) [unfolded commit_phase_def] assms(2)]
    commit_attempts_calls [OF assms(1) [unfolded commit_phase_def]] by auto

theorem commit_phase_retries_witness:
  "\<exists>cs. calls (snd (commit_phase ''t'' [steady, flaky 1] 2 demo_world)) = cs \<and>
     bounded_retry 2 (answers ''a'' cs) \<and> bounded_retry 2 (answers ''b'' cs)"
  using commit_phase_retries [OF prod.collapse [symmetric], of "[steady, flaky 1]" "''t''" 2 demo_world]
  by (auto simp: demo_world_def steady_def flaky_def fn_participant_def)

text \<open>C30: \<open>recover\<close> ends in a final state and is idempotent: when it returns a log, that log is stored
  with a final status, and a second \<open>recover\<close> calls no participant, leaves the store alone, and
  returns the same log unless the load itself fails.\<close>

theorem recover_idempotent:
  assumes "codec_ok (log_codec T)" "backend T = local_backend c"
    and "logged storage_view T tx w log0" "recover T tx ps w = (Ok log, w')"
    and "recover T tx ps' w' = (r, w'')"
  shows "logged storage_view T tx w' log \<and>
    status log \<in> {''committed'', ''rolled_back'', ''mixed''} \<and>
    calls w'' = calls w' \<and> storage_view (store w'') = storage_view (store w') \<and>
    (is_ok r \<longrightarrow> r = Ok log)"
proof -
  have f: "logged storage_view T tx w' log" "status log \<in> {''committed'', ''rolled_back'', ''mixed''}"
    using lb.recover_ok [OF assms(1-4)] by simp_all
  obtain r1 w1 where l: "load_log T tx w' = (r1, w1)" by (rule prod.exhaust)
  show ?thesis
  proof (cases r1)
    case (Inl e)
    then have "w'' = w1" "r = Err e" using assms(5) l by (auto simp: recover_def io_bind_Err)
    then show ?thesis
      using f quietD [OF quiet_ops(2) l] lb.load_log_err [OF assms(2) l [unfolded Inl]] by simp
  next
    case (Inr found)
    have "found = Some log"
      using lb.load_log_ok(1) [OF assms(2) l [unfolded Inr]] f(1) by (simp add: logged_def)
    then have "w'' = w1" "r = Ok log"
      using assms(5) l Inr f(2) by (auto simp: recover_def recover_from_def io_bind_Ok status_from_str_def)
    then show ?thesis
      using f quietD [OF quiet_ops(2) l] lb.load_log_ok(2) [OF assms(2) l [unfolded Inr]] by simp
  qed
qed

theorem recover_idempotent_witness:
  "\<exists>log. fst (recover demo_tpc ''t'' [steady] (snd (recover demo_tpc ''t'' [steady]
       (snd (begin_transaction demo_tpc ''t'' [steady] JNull demo_world))))) = Ok log \<and>
     status log = ''rolled_back''"
proof -
  let ?w = "snd (begin_transaction demo_tpc ''t'' [steady] JNull demo_world)"
  have l: "\<exists>log. logged storage_view demo_tpc ''t'' ?w log"
    by (simp add: run_defs logged_def decode_def storage_view_def)
  have "\<exists>log. fst (recover demo_tpc ''t'' [steady] ?w) = Ok log \<and> status log = ''rolled_back''"
    "is_ok (fst (recover demo_tpc ''t'' [steady] (snd (recover demo_tpc ''t'' [steady] ?w))))"
    by (simp_all add: run_defs status_from_str_def)
  with l recover_idempotent [OF demo_codecs(1,3) _ _ prod.collapse [symmetric], of "''t''" ?w _ "[steady]"]
  show ?thesis by (metis prod.collapse)
qed

text \<open>C31: \<open>recover\<close> asks a participant to commit only when the stored status says that the decision to
  commit was taken, and asks nobody anything when the transaction is in a final state.\<close>

theorem recover_respects_decision:
  assumes "codec_ok (log_codec T)" "backend T = local_backend c"
    and "logged storage_view T tx w log0" "recover T tx ps w = (r, w')"
  shows "\<exists>cs. calls w' = calls w @ cs \<and>
    ((\<exists>i b. (Commit, i, b) \<in> set cs) \<longrightarrow> status log0 = ''committing'') \<and>
    (status log0 \<in> {''committed'', ''rolled_back'', ''mixed''} \<longrightarrow> cs = [])"
proof -
  obtain r1 w1 where l: "load_log T tx w = (r1, w1)" by (rule prod.exhaust)
  have c1: "calls w1 = calls w" using quietD [OF quiet_ops(2) l] ..
  show ?thesis
  proof (cases r1)
    case (Inl e)
    then have "w' = w1" using assms(4) l by (simp add: recover_def io_bind_Err)
    with c1 show ?thesis by simp
  next
    case (Inr found)
    have "found = Some log0"
      using lb.load_log_ok(1) [OF assms(2) l [unfolded Inr]] assms(3) by (simp add: logged_def)
    then have rest: "recover_from T tx ps log0 w1 = (r, w')"
      using assms(4) l Inr by (simp add: recover_def io_bind_Ok)
    show ?thesis
      using recover_from_calls [OF rest] c1 by auto
  qed
qed

theorem recover_respects_decision_witness:
  "\<exists>cs. calls (snd (recover demo_tpc ''t'' [refusing] (snd (begin_transaction demo_tpc ''t'' [refusing] JNull
       demo_world)))) = cs \<and> (Commit, ''c'', True) \<notin> set cs"
proof -
  let ?w = "snd (begin_transaction demo_tpc ''t'' [refusing] JNull demo_world)"
  have "\<exists>log. logged storage_view demo_tpc ''t'' ?w log \<and> status log = ''preparing'' \<and> calls ?w = []"
    by (simp add: run_defs logged_def decode_def storage_view_def)
  then obtain log where log: "logged storage_view demo_tpc ''t'' ?w log" "status log = ''preparing''"
    "calls ?w = []" by blast
  from recover_respects_decision [OF demo_codecs(1,3) log(1) prod.collapse [symmetric], of "[refusing]"] log
  show ?thesis by auto
qed

text \<open>The state-machine entry of a transaction never leaves "created": \<open>execute\<close> tries to move it to
  "completed" or "failed", which the table of transitions forbids from there, and ignores the error.\<close>

lemma transaction_entry_stuck:
  assumes "codec_ok (log_codec T)" "codec_ok (entry_codec T)" "backend T = local_backend c"
    and "begin_transaction T tx ps md w = (Ok u, w0)" "execute T tx ps md w = (r, w')"
  shows "entry_created storage_view T tx w'"
  using lb.execute_begun [OF assms, of "\<lambda>_. True"] by (auto simp: begun_def log_keeps_def)

end
