(* ===== verification/Encrypted_Payload.thy ===== *)
theory Encrypted_Payload
  imports Json
begin

text \<open>
  \<open>EncryptedPayload\<close> of \<open>state_persistence.rs\<close>: encryption with a key derived from a passphrase,
  HMAC-SHA256 signing, and the constant-time comparison.

  Argon2, AES-256-GCM, base64 and SHA-256 are library code: they are the fields of a record that
  the operations take, and \<open>crypto_ok\<close> states what the code relies on. HMAC itself and the
  comparison are written in the repository and modelled in full. The random salt and nonce are
  arguments.
\<close>

unbundle bit_operations_syntax

type_synonym byte = "8 word"

text \<open>\<open>str::as_bytes\<close> on the model's alphabet.\<close>

definition as_bytes :: "string \<Rightarrow> byte list" where
  "as_bytes s = concat (map (\<lambda>c. let n = code c in
     if n < 128 then [of_nat n] else [of_nat (192 + n div 64), of_nat (128 + n mod 64)]) s)"

section \<open>Library code\<close>

record ('p, 'k) crypto =
  argon2_params :: "nat \<Rightarrow> nat \<Rightarrow> nat \<Rightarrow> nat \<Rightarrow> 'p result"
  hash_password :: "'p \<Rightarrow> byte list \<Rightarrow> byte list \<Rightarrow> byte list result"
  aes_new :: "byte list \<Rightarrow> 'k result"
  aes_encrypt :: "'k \<Rightarrow> byte list \<Rightarrow> byte list \<Rightarrow> byte list result"
  aes_decrypt :: "'k \<Rightarrow> byte list \<Rightarrow> byte list \<Rightarrow> byte list result"
  b64_encode :: "byte list \<Rightarrow> string"
  b64_decode :: "string \<Rightarrow> byte list result"
  sha256 :: "byte list \<Rightarrow> byte list"

text \<open>Base64 reads back what it wrote, decryption inverts encryption under the same key and
  nonce, and a digest has 32 bytes.\<close>

definition crypto_ok :: "('p, 'k) crypto \<Rightarrow> bool" where
  "crypto_ok cr \<longleftrightarrow>
     (\<forall>b. b64_decode cr (b64_encode cr b) = Ok b) \<and>
     (\<forall>k n pt ct. aes_encrypt cr k n pt = Ok ct \<longrightarrow> aes_decrypt cr k n ct = Ok pt) \<and>
     (\<forall>b. length (sha256 cr b) = 32)"

section \<open>Keys, HMAC and comparison\<close>

definition kdf_memory_cost :: nat where "kdf_memory_cost = 19 * 1024"
definition kdf_iterations :: nat where "kdf_iterations = 2"
definition kdf_parallelism :: nat where "kdf_parallelism = 1"

definition derive_key :: "('p, 'k) crypto \<Rightarrow> string \<Rightarrow> byte list \<Rightarrow> byte list result" where
  "derive_key cr passphrase salt =
     res_bind (argon2_params cr kdf_memory_cost kdf_iterations kdf_parallelism 32) (\<lambda>params.
       hash_password cr params (as_bytes passphrase) salt)"

text \<open>\<open>k[..src.len()].copy_from_slice(src)\<close>\<close>

definition copy_into :: "byte list \<Rightarrow> byte list \<Rightarrow> byte list" where
  "copy_into k src = src @ drop (length src) k"

definition hmac_sha256 :: "('p, 'k) crypto \<Rightarrow> byte list \<Rightarrow> byte list \<Rightarrow> byte list" where
  "hmac_sha256 cr key data =
     (let k0 = replicate 64 0;
          k = (if length key > 64 then copy_into k0 (sha256 cr key) else copy_into k0 key);
          (ipad, opad) = fold (\<lambda>i (ipad, opad).
              (ipad[i := ipad ! i XOR k ! i], opad[i := opad ! i XOR k ! i]))
            [0..<64] (replicate 64 0x36, replicate 64 0x5c);
          inner = sha256 cr (ipad @ data)
      in sha256 cr (opad @ inner))"

definition constant_time_eq :: "byte list \<Rightarrow> byte list \<Rightarrow> bool" where
  "constant_time_eq a b =
     (if length a \<noteq> length b then False
      else fold (\<lambda>(x, y) result. result OR (x XOR y)) (zip a b) 0 = 0)"

section \<open>The payload\<close>

record encrypted_payload =
  payload_version :: byte
  kdf :: string
  cipher :: string
  salt :: string
  nonce :: string
  ciphertext :: string
  signature :: "string option"

definition encrypt ::
    "('p, 'k) crypto \<Rightarrow> byte list \<Rightarrow> byte list \<Rightarrow> byte list \<Rightarrow> string \<Rightarrow> encrypted_payload result" where
  "encrypt cr salt_bytes nonce_bytes plaintext passphrase =
     res_bind (derive_key cr passphrase salt_bytes) (\<lambda>key.
     res_bind (aes_new cr key) (\<lambda>aes.
     res_bind (aes_encrypt cr aes nonce_bytes plaintext) (\<lambda>ct.
       Ok \<lparr>payload_version = 1, kdf = ''argon2id'', cipher = ''aes-256-gcm'',
           salt = b64_encode cr salt_bytes, nonce = b64_encode cr nonce_bytes,
           ciphertext = b64_encode cr ct, signature = None\<rparr>)))"

definition decrypt :: "('p, 'k) crypto \<Rightarrow> encrypted_payload \<Rightarrow> string \<Rightarrow> byte list result" where
  "decrypt cr p passphrase =
     (if payload_version p \<noteq> 1 \<or> kdf p \<noteq> ''argon2id'' \<or> cipher p \<noteq> ''aes-256-gcm''
      then Err ''Unsupported encrypted payload format''
      else res_bind (b64_decode cr (salt p)) (\<lambda>salt_bytes.
           res_bind (b64_decode cr (nonce p)) (\<lambda>nonce_bytes.
           res_bind (b64_decode cr (ciphertext p)) (\<lambda>ct.
             if length nonce_bytes \<noteq> 12 then Err ''Invalid nonce length''
             else res_bind (derive_key cr passphrase salt_bytes) (\<lambda>key.
                  res_bind (aes_new cr key) (\<lambda>aes.
                    case aes_decrypt cr aes nonce_bytes ct of
                      Inl _ \<Rightarrow> Err ''Decryption failed''
                    | Inr pt \<Rightarrow> Ok pt))))))"

definition signing_payload :: "encrypted_payload \<Rightarrow> string" where
  "signing_payload p =
     show_nat (unat (payload_version p)) @ ''.'' @ kdf p @ ''.'' @ cipher p @ ''.'' @ salt p @ ''.'' @
     nonce p @ ''.'' @ ciphertext p"

definition sign :: "('p, 'k) crypto \<Rightarrow> byte list \<Rightarrow> encrypted_payload \<Rightarrow> encrypted_payload" where
  "sign cr signing_key p =
     p\<lparr>signature := Some (b64_encode cr (hmac_sha256 cr signing_key (as_bytes (signing_payload p))))\<rparr>"

definition verify :: "('p, 'k) crypto \<Rightarrow> byte list \<Rightarrow> encrypted_payload \<Rightarrow> bool" where
  "verify cr signing_key p =
     (case signature p of
        None \<Rightarrow> False
      | Some sig_b64 \<Rightarrow>
          (case b64_decode cr sig_b64 of
             Inl _ \<Rightarrow> False
           | Inr expected_sig \<Rightarrow>
               constant_time_eq expected_sig
                 (hmac_sha256 cr signing_key (as_bytes (signing_payload p)))))"

section \<open>Lemmas\<close>

lemma fold_or_mono: "fold (\<lambda>(x, y) r. r OR (x XOR y)) ps (r :: byte) = 0 \<longleftrightarrow>
    r = 0 \<and> list_all (\<lambda>(x, y). x = y) ps"
proof (induction ps arbitrary: r)
  case (Cons xy ps)
  have "x XOR y = 0 \<longleftrightarrow> x = y" for x y :: byte
    by (simp add: bit_eq_iff bit_xor_iff)
  then show ?case using Cons.IH by (auto simp: or_eq_0_iff split: prod.split)
qed simp

lemma constant_time_eq_iff: "constant_time_eq a b \<longleftrightarrow> a = b"
proof -
  have "length a = length b \<Longrightarrow> list_all (\<lambda>(x, y). x = y) (zip a b) \<longleftrightarrow> a = b"
    by (induction a b rule: list_induct2) auto
  then show ?thesis by (auto simp: constant_time_eq_def fold_or_mono)
qed

text \<open>The loop over the pads is an exclusive or with the padded key.\<close>

lemma fold_pads:
  assumes "length k = n" "length xs = n" "length ys = n" "m \<le> n"
  shows "fold (\<lambda>i (ipad, opad). (ipad[i := ipad ! i XOR k ! i], opad[i := opad ! i XOR k ! i]))
      [0..<m] (xs :: byte list, ys) =
    (map2 (XOR) (take m xs) (take m k) @ drop m xs, map2 (XOR) (take m ys) (take m k) @ drop m ys)"
  using assms(4)
proof (induction m)
  case (Suc m)
  have step: "(map2 (XOR) (take m zs) (take m k) @ drop m zs)[m := zs ! m XOR k ! m] =
      map2 (XOR) (take (Suc m) zs) (take (Suc m) k) @ drop (Suc m) zs"
    "(map2 (XOR) (take m zs) (take m k) @ drop m zs) ! m = zs ! m"
    if "length zs = n" for zs :: "byte list"
  proof -
    have "drop m zs = zs ! m # drop (Suc m) zs" using that Suc.prems by (simp add: Cons_nth_drop_Suc)
    then show "(map2 (XOR) (take m zs) (take m k) @ drop m zs)[m := zs ! m XOR k ! m] =
        map2 (XOR) (take (Suc m) zs) (take (Suc m) k) @ drop (Suc m) zs"
      "(map2 (XOR) (take m zs) (take m k) @ drop m zs) ! m = zs ! m"
      using that Suc.prems assms(1) by (simp_all add: take_Suc_conv_app_nth list_update_append nth_append)
  qed
  show ?case using Suc step [OF assms(2)] step [OF assms(3)] by simp
qed simp

definition padded_key :: "('p, 'k) crypto \<Rightarrow> byte list \<Rightarrow> byte list" where
  "padded_key cr key =
     (let k = (if length key > 64 then sha256 cr key else key) in k @ replicate (64 - length k) 0)"

lemma padded_key_length: "crypto_ok cr \<Longrightarrow> length (padded_key cr key) = 64"
  by (simp add: padded_key_def crypto_ok_def)

text \<open>The loop over two 64-byte pads computes HMAC-SHA256 as RFC 2104 defines it, for keys of every length.\<close>

lemma hmac_eq:
  assumes "crypto_ok cr"
  shows "hmac_sha256 cr key data =
    sha256 cr (map (\<lambda>b. b XOR 0x5c) (padded_key cr key) @
      sha256 cr (map (\<lambda>b. b XOR 0x36) (padded_key cr key) @ data))"
proof -
  let ?k = "padded_key cr key"
  let ?k' = "if length key > 64 then copy_into (replicate 64 0) (sha256 cr key)
    else copy_into (replicate 64 0) key"
  have k: "?k' = ?k" by (simp add: copy_into_def padded_key_def Let_def)
  have len: "length ?k = 64" using assms by (rule padded_key_length)
  have pad: "map2 (XOR) (replicate 64 c) ?k = map (\<lambda>b. b XOR c) ?k" for c
    by (rule nth_equalityI) (simp_all add: len xor.commute)
  show ?thesis
    using fold_pads [of ?k 64 "replicate 64 0x36" "replicate 64 0x5c" 64] len
    by (simp add: hmac_sha256_def k pad Let_def)
qed

text \<open>Decimal digits determine the number.\<close>

lemma show_nat_value: "foldl (\<lambda>a c. 10 * a + (code c - 48)) 0 (show_nat n) = n"
proof (induction n rule: show_nat.induct)
  case (1 n)
  then show ?case by (subst show_nat.simps) (simp add: code_def)
qed

lemma show_nat_digits: "c \<in> set (show_nat n) \<Longrightarrow> is_ascii_digit c"
proof (induction n rule: show_nat.induct)
  case (1 n)
  then show ?case
    by (subst (asm) (2) show_nat.simps) (auto simp: code_def is_ascii_digit_def Let_def split: if_splits)
qed

lemma of_nat_byte_eq: "n < 256 \<Longrightarrow> m < 256 \<Longrightarrow> (of_nat n :: byte) = of_nat m \<longleftrightarrow> n = m"
  by (simp add: word_of_nat_eq_iff take_bit_eq_mod)

lemma code_less: "code c < 256"
  unfolding code_def by (metis mod_less_divisor of_char_mod_256 zero_less_numeral)

lemma code_inject [simp]: "code c = code d \<longleftrightarrow> c = d"
  by (simp add: code_def)

definition utf8 :: "char \<Rightarrow> byte list" where
  "utf8 c = (let n = code c in
     if n < 128 then [of_nat n] else [of_nat (192 + n div 64), of_nat (128 + n mod 64)])"

lemma as_bytes_simps [simp]: "as_bytes [] = []" "as_bytes (c # s) = utf8 c @ as_bytes s"
  by (simp_all add: as_bytes_def utf8_def)

lemma utf8_not_Nil [simp]: "utf8 c \<noteq> []"
  by (simp add: utf8_def Let_def)

lemma utf8_append_eq: "utf8 c @ xs = utf8 d @ ys \<longleftrightarrow> c = d \<and> xs = ys"
proof
  assume eq: "utf8 c @ xs = utf8 d @ ys"
  have b: "code c < 256" "code d < 256" by (rule code_less)+
  have lead: "192 + n div 64 < 256" "128 + n mod 64 < 256" if "n < 256" for n :: nat
    using that by auto
  have "code c = code d"
  proof (cases "code c < 128"; cases "code d < 128")
    assume "code c < 128" "code d < 128"
    then show ?thesis using eq b by (simp add: utf8_def of_nat_byte_eq)
  next
    assume c: "code c < 128" "\<not> code d < 128"
    then have "(of_nat (code c) :: byte) = of_nat (192 + code d div 64)"
      using eq by (simp add: utf8_def Let_def)
    then show ?thesis using of_nat_byte_eq [OF b(1) lead(1) [OF b(2)]] c by simp
  next
    assume c: "\<not> code c < 128" "code d < 128"
    then have "(of_nat (192 + code c div 64) :: byte) = of_nat (code d)"
      using eq by (simp add: utf8_def Let_def)
    then show ?thesis using of_nat_byte_eq [OF lead(1) [OF b(1)] b(2)] c by simp
  next
    assume c: "\<not> code c < 128" "\<not> code d < 128"
    then have "(of_nat (192 + code c div 64) :: byte) = of_nat (192 + code d div 64)"
      "(of_nat (128 + code c mod 64) :: byte) = of_nat (128 + code d mod 64)"
      using eq by (simp_all add: utf8_def Let_def)
    then have "code c div 64 = code d div 64" "code c mod 64 = code d mod 64"
      using of_nat_byte_eq [OF lead(1) [OF b(1)] lead(1) [OF b(2)]]
        of_nat_byte_eq [OF lead(2) [OF b(1)] lead(2) [OF b(2)]] by simp_all
    then show ?thesis by (metis div_mult_mod_eq)
  qed
  then have "c = d" by simp
  with eq show "c = d \<and> xs = ys" by simp
qed simp

lemma as_bytes_inject [simp]: "as_bytes s = as_bytes t \<longleftrightarrow> s = t"
proof (induction s arbitrary: t)
  case Nil
  show ?case by (cases t) simp_all
next
  case (Cons c s)
  show ?case by (cases t) (simp_all add: utf8_append_eq Cons.IH)
qed

text \<open>A field without dots, as base64 and the algorithm names are.\<close>

definition dotless :: "encrypted_payload \<Rightarrow> bool" where
  "dotless p \<longleftrightarrow> list_all (\<lambda>s. CHR ''.'' \<notin> set s) [kdf p, cipher p, salt p, nonce p, ciphertext p]"

lemma signing_payload_inject:
  assumes "dotless p" "dotless q" "signing_payload p = signing_payload q"
  shows "p\<lparr>signature := None\<rparr> = q\<lparr>signature := None\<rparr>"
proof -
  let ?fields = "\<lambda>p. [show_nat (unat (payload_version p)), kdf p, cipher p, salt p, nonce p, ciphertext p]"
  have "CHR ''.'' \<notin> set (show_nat n)" for n
    using show_nat_digits [of "CHR ''.''" n] by (auto simp: is_ascii_digit_def code_def)
  then have split: "split_char (CHR ''.'') (signing_payload r) = ?fields r" if "dotless r" for r
    using that split_char_join [of "?fields r" "CHR ''.''"]
    by (auto simp: dotless_def signing_payload_def)
  have "?fields p = ?fields q" using split [OF assms(1)] split [OF assms(2)] assms(3) by metis
  moreover from this have "unat (payload_version p) = unat (payload_version q)"
    by (metis list.inject show_nat_value)
  then have "payload_version p = payload_version q" by (simp add: word_unat_eq_iff)
  ultimately show ?thesis by (cases p; cases q) simp
qed

section \<open>Properties\<close>

text \<open>A concrete instance of the library code; its digest is the last 32 bytes, backwards.\<close>

definition demo_crypto :: "(unit, byte list) crypto" where
  "demo_crypto = \<lparr>argon2_params = (\<lambda>_ _ _ _. Ok ()),
     hash_password = (\<lambda>_ pass salt. Ok (take 32 (pass @ salt @ replicate 32 0))),
     aes_new = Inr,
     aes_encrypt = (\<lambda>k n pt. Ok (map (\<lambda>b. b XOR hd (k @ [0])) pt)),
     aes_decrypt = (\<lambda>k n ct. Ok (map (\<lambda>b. b XOR hd (k @ [0])) ct)),
     b64_encode = map (\<lambda>b. char_of (unat b)), b64_decode = (\<lambda>s. Ok (map (\<lambda>c. of_nat (code c)) s)),
     sha256 = (\<lambda>b. take 32 (rev b @ replicate 32 0))\<rparr>"

lemma demo_crypto_ok [simp]: "crypto_ok demo_crypto"
proof -
  have "(of_nat (unat b mod 256) :: byte) = of_nat (unat b)" for b :: byte
    by (simp only: word_of_nat_eq_iff take_bit_eq_mod) simp
  then have "of_nat (code (char_of (unat b))) = b" for b :: byte
    by (simp add: code_def)
  then show ?thesis by (simp add: crypto_ok_def demo_crypto_def comp_def xor.assoc min_def)
qed

definition demo_payload :: encrypted_payload where
  "demo_payload = \<lparr>payload_version = 1, kdf = ''argon2id'', cipher = ''aes-256-gcm'', salt = ''c2FsdA=='',
     nonce = ''bm9uY2U='', ciphertext = ''YWJj'', signature = None\<rparr>"

text \<open>C26: Decrypting what was encrypted, with the same passphrase, gives the plaintext back.\<close>

theorem decrypt_encrypt:
  assumes "crypto_ok cr" "length nonce_bytes = 12"
    and "encrypt cr salt_bytes nonce_bytes plaintext passphrase = Ok p"
  shows "decrypt cr p passphrase = Ok plaintext"
  using assms by (auto simp: encrypt_def decrypt_def res_bind_eq_Ok crypto_ok_def)

theorem decrypt_encrypt_witness:
  "\<exists>p. encrypt demo_crypto [1, 2] (replicate 12 7) [65, 66] ''pw'' = Ok p \<and>
     decrypt demo_crypto p ''pw'' = Ok [65, 66]"
proof -
  obtain p where p: "encrypt demo_crypto [1, 2] (replicate 12 7) [65, 66] ''pw'' = Ok p"
    by (simp add: encrypt_def derive_key_def demo_crypto_def)
  with decrypt_encrypt [OF demo_crypto_ok _ p] show ?thesis by simp
qed

text \<open>C25: A signed payload verifies under its key, and every field is bound: when two payloads whose fields
  are free of dots, as base64 and the names of the algorithms are, verify with the same signature,
  they agree in version, algorithms, salt, nonce and ciphertext, unless the two byte strings that were
  signed for them are different and have the same HMAC. So a payload changed in one field is accepted
  only on such a collision with the payload that was signed.\<close>

theorem signature_binds_fields:
  assumes "crypto_ok cr"
  shows "verify cr key (sign cr key p) \<and>
    (dotless p \<and> dotless q \<and> verify cr key (q\<lparr>signature := signature (sign cr key p)\<rparr>) \<longrightarrow>
      q\<lparr>signature := None\<rparr> = p\<lparr>signature := None\<rparr> \<or>
      (as_bytes (signing_payload p) \<noteq> as_bytes (signing_payload q) \<and>
       hmac_sha256 cr key (as_bytes (signing_payload p)) = hmac_sha256 cr key (as_bytes (signing_payload q)))) \<and>
    (dotless p \<and> dotless q \<and> verify cr key p \<and> verify cr key q \<and> signature p = signature q \<longrightarrow>
      p = q \<or>
      (as_bytes (signing_payload p) \<noteq> as_bytes (signing_payload q) \<and>
       hmac_sha256 cr key (as_bytes (signing_payload p)) = hmac_sha256 cr key (as_bytes (signing_payload q))))"
    (is "_ \<and> (_ \<longrightarrow> _ \<or> ?collision) \<and> _")
proof (intro conjI impI)
  show "verify cr key (sign cr key p)"
    using assms by (simp add: verify_def sign_def crypto_ok_def signing_payload_def constant_time_eq_iff)
next
  assume a: "dotless p \<and> dotless q \<and> verify cr key (q\<lparr>signature := signature (sign cr key p)\<rparr>)"
  have "signing_payload (q\<lparr>signature := x\<rparr>) = signing_payload q" for x by (simp add: signing_payload_def)
  then have "hmac_sha256 cr key (as_bytes (signing_payload p)) = hmac_sha256 cr key (as_bytes (signing_payload q))"
    using a assms by (simp add: verify_def sign_def crypto_ok_def constant_time_eq_iff)
  then show "q\<lparr>signature := None\<rparr> = p\<lparr>signature := None\<rparr> \<or> ?collision"
    using a signing_payload_inject [of q p] by (metis as_bytes_inject)
next
  assume a: "dotless p \<and> dotless q \<and> verify cr key p \<and> verify cr key q \<and> signature p = signature q"
  then have "hmac_sha256 cr key (as_bytes (signing_payload p)) = hmac_sha256 cr key (as_bytes (signing_payload q))"
    by (auto simp: verify_def constant_time_eq_iff split: option.splits sum.splits)
  moreover have "p = q" if "p\<lparr>signature := None\<rparr> = q\<lparr>signature := None\<rparr>"
    using that a by (cases p; cases q) simp
  ultimately show "p = q \<or> ?collision"
    using a signing_payload_inject [of p q] by (metis as_bytes_inject)
qed

lemma demo_hmac:
  assumes "32 \<le> length data"
  shows "hmac_sha256 demo_crypto key data = rev (take 32 (rev data))"
  unfolding hmac_eq [OF demo_crypto_ok] using assms by (simp add: demo_crypto_def)

theorem signature_binds_fields_witness:
  "verify demo_crypto [1, 2, 3] (sign demo_crypto [1, 2, 3] demo_payload) \<and>
   \<not> verify demo_crypto [1, 2, 3] (demo_payload\<lparr>ciphertext := ''YWJk'',
      signature := signature (sign demo_crypto [1, 2, 3] demo_payload)\<rparr>)"
proof -
  let ?q = "demo_payload\<lparr>ciphertext := ''YWJk''\<rparr>"
  have "dotless demo_payload" "dotless ?q"
    "demo_payload\<lparr>ciphertext := ''YWJk'', signature := None\<rparr> \<noteq> demo_payload\<lparr>signature := None\<rparr>"
    by (simp_all add: dotless_def demo_payload_def)
  moreover have "hmac_sha256 demo_crypto [1, 2, 3] (as_bytes (signing_payload demo_payload)) \<noteq>
      hmac_sha256 demo_crypto [1, 2, 3] (as_bytes (signing_payload ?q))"
    by (subst (1 2) demo_hmac) (simp_all add: demo_payload_def signing_payload_def utf8_def code_def show_nat.simps)
  ultimately show ?thesis
    using signature_binds_fields [OF demo_crypto_ok, of "[1, 2, 3]" demo_payload ?q] by simp
qed

end
