(* ===== verification/Desensitize.thy ===== *)
theory Desensitize
  imports Json
begin

text \<open>
  The desensitization rules of \<open>state_persistence.rs\<close>: \<open>DesensitizeRule\<close> masks one string,
  \<open>DesensitizationEngine\<close> picks the first rule whose name occurs in a key and walks a JSON value.

  The engine's regular expressions are library code: a regex is a value of a type \<open>'r\<close> and
  \<open>replace_all\<close> is an argument. A byte slice that does not fall on a character boundary panics,
  which is the result \<open>None\<close>.
\<close>

datatype 'r desensitize_rule =
    Pattern (rule_name: string) (pattern: string) (replacement: string) (preserve_prefix: nat)
  | PrefixKeep (rule_name: string) (keep: nat)
  | SuffixKeep (rule_name: string) (keep: nat)
  | Regex (rule_name: string) (regex: 'r) (replacement: string)

definition mask :: "string \<Rightarrow> string" where
  "mask s = map (\<lambda>_. CHR ''*'') s"

fun rule_apply ::
    "('r \<Rightarrow> string \<Rightarrow> string \<Rightarrow> string) \<Rightarrow> 'r desensitize_rule \<Rightarrow> string \<Rightarrow> string option" where
  "rule_apply replace_all (Pattern _ pat rep n) v =
     (if n > 0 \<and> str_len v > n
      then map_option (\<lambda>pre. pre @ mask (drop n v)) (slice_to v n)
      else if v = pat then Some rep
      else if contains v pat then Some (str_replace v pat rep)
      else Some (mask v))"
| "rule_apply replace_all (PrefixKeep _ n) v =
     (if str_len v \<le> n then Some v else Some (take n v @ mask (drop n v)))"
| "rule_apply replace_all (SuffixKeep _ n) v =
     (if str_len v \<le> n then Some v
      else Some (rev (mask (drop n (rev v))) @ rev (take n (rev v))))"
| "rule_apply replace_all (Regex _ re rep) v = Some (replace_all re v rep)"

type_synonym 'r engine = "'r desensitize_rule list"

definition add_rule :: "'r engine \<Rightarrow> 'r desensitize_rule \<Rightarrow> 'r engine" where
  "add_rule rules r = rules @ [r]"

fun engine_apply ::
    "('r \<Rightarrow> string \<Rightarrow> string \<Rightarrow> string) \<Rightarrow> 'r engine \<Rightarrow> string \<Rightarrow> string \<Rightarrow> string option" where
  "engine_apply ra [] key v = Some v"
| "engine_apply ra (r # rules) key v =
     (if contains key (rule_name r) \<or> rule_name r = ''*'' then rule_apply ra r v
      else engine_apply ra rules key v)"

fun apply_to_json ::
    "('r \<Rightarrow> string \<Rightarrow> string \<Rightarrow> string) \<Rightarrow> 'r engine \<Rightarrow> json \<Rightarrow> json option"
and apply_to_fields ::
    "('r \<Rightarrow> string \<Rightarrow> string \<Rightarrow> string) \<Rightarrow> 'r engine \<Rightarrow> (string \<times> json) list \<Rightarrow> (string \<times> json) list option"
and apply_to_items ::
    "('r \<Rightarrow> string \<Rightarrow> string \<Rightarrow> string) \<Rightarrow> 'r engine \<Rightarrow> json list \<Rightarrow> json list option" where
  "apply_to_json ra rules (JObject fs) = map_option JObject (apply_to_fields ra rules fs)"
| "apply_to_json ra rules (JArray items) = map_option JArray (apply_to_items ra rules items)"
| "apply_to_json ra rules j = Some j"
| "apply_to_fields ra rules [] = Some []"
| "apply_to_fields ra rules ((key, JString s) # fs) =
     (case engine_apply ra rules key s of
        None \<Rightarrow> None
      | Some s' \<Rightarrow> map_option (Cons (key, JString s')) (apply_to_fields ra rules fs))"
| "apply_to_fields ra rules ((key, j) # fs) =
     (case apply_to_json ra rules j of
        None \<Rightarrow> None
      | Some j' \<Rightarrow> map_option (Cons (key, j')) (apply_to_fields ra rules fs))"
| "apply_to_items ra rules [] = Some []"
| "apply_to_items ra rules (j # items) =
     (case apply_to_json ra rules j of
        None \<Rightarrow> None
      | Some j' \<Rightarrow> map_option (Cons j') (apply_to_items ra rules items))"

definition default_connection_rules :: "'r engine" where
  "default_connection_rules =
     fold (\<lambda>r e. add_rule e r)
       [PrefixKeep ''password'' 2, PrefixKeep ''secret'' 4, PrefixKeep ''token'' 4,
        PrefixKeep ''connection_string'' 8, PrefixKeep ''key'' 4, PrefixKeep ''passphrase'' 2] []"

text \<open>\<open>serde_json::to_value(config).unwrap_or_default()\<close> is the argument.\<close>

definition desensitize_connection_config ::
    "('r \<Rightarrow> string \<Rightarrow> string \<Rightarrow> string) \<Rightarrow> 'r engine \<Rightarrow> json result \<Rightarrow> json option" where
  "desensitize_connection_config ra rules config_json =
     apply_to_json ra rules (case config_json of Inl _ \<Rightarrow> JNull | Inr j \<Rightarrow> j)"

section \<open>Lemmas\<close>

lemma mask_simps [simp]:
  "mask [] = []" "mask (c # s) = CHR ''*'' # mask s" "length (mask s) = length s"
  "mask (s @ t) = mask s @ mask t" "rev (mask s) = mask (rev s)"
  by (simp_all add: mask_def rev_map)

lemma mask_replicate: "mask s = replicate (length s) (CHR ''*'')"
  by (induction s) simp_all

text \<open>The first rule that matches a key decides.\<close>

lemma engine_apply_find:
  "engine_apply ra rules key v =
     (case find (\<lambda>r. contains key (rule_name r) \<or> rule_name r = ''*'') rules of
        None \<Rightarrow> Some v | Some r \<Rightarrow> rule_apply ra r v)"
  by (induction rules) auto

text \<open>The first rule of a list that has a property.\<close>

lemma find_first:
  "find P rules = Some r \<longleftrightarrow> (\<exists>before after. rules = before @ r # after \<and> P r \<and> (\<forall>q\<in>set before. \<not> P q))"
proof
  show "find P rules = Some r \<Longrightarrow> \<exists>before after. rules = before @ r # after \<and> P r \<and> (\<forall>q\<in>set before. \<not> P q)"
  proof (induction rules)
    case (Cons q rules)
    show ?case
    proof (cases "P q")
      case True
      then show ?thesis using Cons.prems by (intro exI [of _ "[]"] exI [of _ rules]) simp
    next
      case False
      then obtain before after where "rules = before @ r # after" "P r" "\<forall>q\<in>set before. \<not> P q" using Cons by auto
      then show ?thesis using False by (intro exI [of _ "q # before"] exI [of _ after]) simp
    qed
  qed simp
  have "find P (before @ r # after) = Some r" if "P r" "\<forall>q\<in>set before. \<not> P q" for before after
    using that by (induction before) auto
  then show "\<exists>before after. rules = before @ r # after \<and> P r \<and> (\<forall>q\<in>set before. \<not> P q) \<Longrightarrow> find P rules = Some r"
    by blast
qed

section \<open>Paths\<close>

text \<open>A path into a value: the value of a key of an object, an item of an array.\<close>

datatype path_step = AtKey string | AtItem nat

fun json_at :: "json \<Rightarrow> path_step list \<Rightarrow> json option" where
  "json_at j [] = Some j"
| "json_at (JObject fs) (AtKey k # p) = (case map_of fs k of None \<Rightarrow> None | Some j \<Rightarrow> json_at j p)"
| "json_at (JArray js) (AtItem i # p) = (if i < length js then json_at (js ! i) p else None)"
| "json_at _ _ = None"

text \<open>A rule matches a key that has its name as a part; the name * matches every key. A string under a
  key becomes what the first matching rule makes of it, and stays when no rule matches.\<close>

definition rule_matches :: "string \<Rightarrow> 'r desensitize_rule \<Rightarrow> bool" where
  "rule_matches key r \<longleftrightarrow> (\<exists>a b. key = a @ rule_name r @ b) \<or> rule_name r = ''*''"

definition masked_string ::
    "('r \<Rightarrow> string \<Rightarrow> string \<Rightarrow> string) \<Rightarrow> 'r engine \<Rightarrow> string \<Rightarrow> string \<Rightarrow> string \<Rightarrow> bool" where
  "masked_string ra rules key s s' \<longleftrightarrow>
     (\<exists>before r after. rules = before @ r # after \<and> rule_matches key r \<and>
        (\<forall>q\<in>set before. \<not> rule_matches key q) \<and> rule_apply ra r s = Some s') \<or>
     (\<forall>r\<in>set rules. \<not> rule_matches key r) \<and> s' = s"

text \<open>What may become of the value at a path: \<open>parent\<close> is the key it is the value of, if any.\<close>

definition masked_value ::
    "('r \<Rightarrow> string \<Rightarrow> string \<Rightarrow> string) \<Rightarrow> 'r engine \<Rightarrow> string option \<Rightarrow> json \<Rightarrow> json \<Rightarrow> bool" where
  "masked_value ra rules parent v v' =
     (case v of
        JString s \<Rightarrow> (case parent of None \<Rightarrow> v' = v | Some key \<Rightarrow> (\<exists>s'. v' = JString s' \<and> masked_string ra rules key s s'))
      | JArray js \<Rightarrow> (\<exists>js'. v' = JArray js' \<and> length js' = length js)
      | JObject fs \<Rightarrow> (\<exists>fs'. v' = JObject fs' \<and> map fst fs' = map fst fs)
      | _ \<Rightarrow> v' = v)"

definition under_key :: "path_step list \<Rightarrow> string option" where
  "under_key p = (case rev p of AtKey k # _ \<Rightarrow> Some k | _ \<Rightarrow> None)"

lemma under_key_simps [simp]:
  "under_key [] = None" "under_key [AtKey k] = Some k" "under_key [AtItem i] = None"
  "q \<noteq> [] \<Longrightarrow> under_key (st # q) = under_key q"
  by (auto simp: under_key_def split: list.splits)

lemma rule_matches_eq: "(\<lambda>r. contains key (rule_name r) \<or> rule_name r = ''*'') = rule_matches key"
  by (auto simp: fun_eq_iff rule_matches_def contains_iff sublist_def)

lemma engine_apply_masked:
  assumes "engine_apply ra rules key s = Some s'"
  shows "masked_string ra rules key s s'"
proof -
  have eng: "(case find (rule_matches key) rules of None \<Rightarrow> Some s | Some r \<Rightarrow> rule_apply ra r s) = Some s'"
    using assms by (simp add: engine_apply_find rule_matches_eq)
  show ?thesis
  proof (cases "find (rule_matches key) rules")
    case None
    then have "s' = s" "\<forall>r\<in>set rules. \<not> rule_matches key r" using eng by (simp, simp add: find_None_iff)
    then show ?thesis by (simp add: masked_string_def)
  next
    case (Some r)
    moreover from Some have "rule_apply ra r s = Some s'" using eng by simp
    ultimately show ?thesis unfolding find_first masked_string_def by blast
  qed
qed

text \<open>Fields and items are masked one by one.\<close>

lemma apply_to_fields_get:
  assumes "apply_to_fields ra rules fs = Some fs'"
  shows "map fst fs' = map fst fs \<and> (\<forall>k. rel_option (\<lambda>j j'.
    case j of JString s \<Rightarrow> map_option JString (engine_apply ra rules k s) = Some j' | _ \<Rightarrow> apply_to_json ra rules j = Some j')
      (map_of fs k) (map_of fs' k))"
  using assms
proof (induction fs arbitrary: fs')
  case (Cons f fs)
  obtain key j where f: "f = (key, j)" by fastforce
  obtain j' gs where gs: "fs' = (key, j') # gs" "apply_to_fields ra rules fs = Some gs"
    "case j of JString s \<Rightarrow> map_option JString (engine_apply ra rules key s) = Some j' | _ \<Rightarrow> apply_to_json ra rules j = Some j'"
    using Cons.prems f by (cases j) (auto split: option.splits)
  then show ?case using Cons.IH [OF gs(2)] by (simp add: f)
qed simp

lemma apply_to_items_nth:
  assumes "apply_to_items ra rules js = Some js'"
  shows "length js' = length js \<and> (\<forall>i<length js. apply_to_json ra rules (js ! i) = Some (js' ! i))"
  using assms
proof (induction js arbitrary: js')
  case (Cons j js)
  then obtain j' ks where "js' = j' # ks" "apply_to_json ra rules j = Some j'" "apply_to_items ra rules js = Some ks"
    by (auto split: option.splits)
  then show ?case using Cons.IH [of ks] by (auto simp: nth_Cons split: nat.splits)
qed simp

lemma apply_to_json_top:
  assumes "apply_to_json ra rules j = Some j'"
  shows "masked_value ra rules None j j'"
  using assms apply_to_fields_get apply_to_items_nth by (cases j) (fastforce simp: masked_value_def)+

lemma masked_value_irrelevant:
  "masked_value ra rules None j j' \<Longrightarrow> (\<nexists>s. j = JString s) \<Longrightarrow> masked_value ra rules u j j'"
  by (auto simp: masked_value_def split: json.splits)

lemma apply_to_json_at:
  "apply_to_json ra rules j = Some j' \<Longrightarrow>
   rel_option (masked_value ra rules (under_key p)) (json_at j p) (json_at j' p)"
proof (induction p arbitrary: j j')
  case Nil
  then show ?case by (simp add: apply_to_json_top)
next
  case (Cons st p)
  show ?case
  proof (cases "\<exists>fs k. j = JObject fs \<and> st = AtKey k")
    case True
    then obtain fs k fs' where fs: "j = JObject fs" "st = AtKey k" "j' = JObject fs'" "apply_to_fields ra rules fs = Some fs'"
      using Cons.prems by auto
    have get: "rel_option (\<lambda>j j'. case j of JString s \<Rightarrow> map_option JString (engine_apply ra rules k s) = Some j'
        | _ \<Rightarrow> apply_to_json ra rules j = Some j') (map_of fs k) (map_of fs' k)"
      using apply_to_fields_get [OF fs(4)] by blast
    show ?thesis
    proof (cases "map_of fs k")
      case None
      then show ?thesis using get by (simp add: fs(1-3))
    next
      case (Some v)
      then obtain v' where v': "map_of fs' k = Some v'" "case v of JString s \<Rightarrow> map_option JString (engine_apply ra rules k s) = Some v'
          | _ \<Rightarrow> apply_to_json ra rules v = Some v'"
        using get by (auto simp: option_rel_Some1)
      show ?thesis
      proof (cases "\<exists>s. v = JString s")
        case True
        then obtain s s' where s: "v = JString s" "v' = JString s'" "engine_apply ra rules k s = Some s'"
          using v'(2) by auto
        then show ?thesis using engine_apply_masked [OF s(3)]
          by (cases p) (simp_all add: fs(1-3) Some v'(1) masked_value_def)
      next
        case False
        then have step: "apply_to_json ra rules v = Some v'" using v'(2) by (cases v) auto
        show ?thesis
        proof (cases "p = []")
          case True
          then show ?thesis
            using masked_value_irrelevant [OF apply_to_json_top [OF step]] False by (simp add: fs(1-3) Some v'(1))
        next
          case False
          then show ?thesis using Cons.IH [OF step] by (simp add: fs(1-3) Some v'(1))
        qed
      qed
    qed
  next
    case other: False
    show ?thesis
    proof (cases "\<exists>js i. j = JArray js \<and> st = AtItem i")
      case True
      then obtain js i js' where js: "j = JArray js" "st = AtItem i" "j' = JArray js'" "apply_to_items ra rules js = Some js'"
        using Cons.prems by auto
      note nth = apply_to_items_nth [OF js(4)]
      have "under_key (AtItem i # p) = under_key p" by (cases "p = []") simp_all
      then show ?thesis using Cons.IH nth by (simp add: js(1-3))
    next
      case False
      then have "json_at j (st # p) = None" using other by (cases j; cases st) auto
      moreover have "json_at j' (st # p) = None"
        using False other apply_to_json_top [OF Cons.prems] by (cases j; cases st) (auto simp: masked_value_def)
      ultimately show ?thesis by simp
    qed
  qed
qed

lemma strings_in_arrays_kept: "apply_to_items ra rules (map JString ss) = Some (map JString ss)"
  by (induction ss) simp_all

lemma default_rules_eq:
  "default_connection_rules =
     [PrefixKeep ''password'' 2, PrefixKeep ''secret'' 4, PrefixKeep ''token'' 4,
      PrefixKeep ''connection_string'' 8, PrefixKeep ''key'' 4, PrefixKeep ''passphrase'' 2]"
  by (simp add: default_connection_rules_def add_rule_def)

definition sensitive_names :: "string list" where
  "sensitive_names = [''password'', ''secret'', ''token'', ''connection_string'', ''key'', ''passphrase'']"

lemma prefix_rules_hide:
  assumes "list_all (\<lambda>r. \<exists>nm k. r = PrefixKeep nm k \<and> k \<le> m) rules"
    and "list_ex (\<lambda>r. contains key (rule_name r)) rules" "m < str_len v"
  shows "\<exists>k\<le>m. engine_apply ra rules key v = Some (take k v @ replicate (length v - k) (CHR ''*''))"
  using assms(1,2)
proof (induction rules)
  case (Cons r rules)
  then obtain nm k where r: "r = PrefixKeep nm k" "k \<le> m" by auto
  show ?case
  proof (cases "contains key nm \<or> nm = ''*''")
    case True
    then show ?thesis using r assms(3) by (auto simp: mask_replicate intro!: exI [of _ k])
  next
    case False
    then show ?thesis using Cons r by auto
  qed
qed simp

lemma default_rules_mask:
  fixes ra :: "'r \<Rightarrow> string \<Rightarrow> string \<Rightarrow> string"
  assumes "name \<in> set sensitive_names" "contains key name" "8 < str_len v"
  shows "\<exists>k\<le>8. engine_apply ra default_connection_rules key v =
    Some (take k v @ replicate (length v - k) (CHR ''*''))"
proof (rule prefix_rules_hide)
  show "list_all (\<lambda>r. \<exists>nm k. r = PrefixKeep nm k \<and> k \<le> 8) (default_connection_rules :: 'r engine)"
    by (simp add: default_rules_eq)
  have "sensitive_names = map rule_name (default_connection_rules :: 'r engine)"
    by (simp add: default_rules_eq sensitive_names_def)
  then have "\<exists>r\<in>set (default_connection_rules :: 'r engine). contains key (rule_name r)"
    using assms(1,2) by (metis (no_types) imageE set_map)
  then show "list_ex (\<lambda>r. contains key (rule_name r)) (default_connection_rules :: 'r engine)"
    by (simp only: list_ex_iff)
qed (rule assms)

text \<open>Rules that keep a prefix never panic, and a string is masked in one way only.\<close>

lemma prefix_rules_apply:
  "list_all (\<lambda>r. \<exists>nm k. r = PrefixKeep nm k) rules \<Longrightarrow> engine_apply ra rules key s \<noteq> None"
  by (induction rules) auto

lemma apply_to_json_total:
  "\<forall>key s. engine_apply ra rules key s \<noteq> None \<Longrightarrow> \<exists>j'. apply_to_json ra rules j = Some j'"
  "\<forall>key s. engine_apply ra rules key s \<noteq> None \<Longrightarrow> \<exists>fs'. apply_to_fields ra rules fs = Some fs'"
  "\<forall>key s. engine_apply ra rules key s \<noteq> None \<Longrightarrow> \<exists>js'. apply_to_items ra rules js = Some js'"
  by (induction ra rules j and ra rules fs and ra rules js rule: apply_to_json_apply_to_fields_apply_to_items.induct)
    (auto split: option.splits simp del: not_None_eq)

lemma masked_string_unique:
  assumes "masked_string ra rules key s t" "masked_string ra rules key s u"
  shows "t = u"
proof -
  have "masked_string ra rules key s x \<longleftrightarrow>
      (case find (rule_matches key) rules of Some r \<Rightarrow> rule_apply ra r s = Some x | None \<Rightarrow> x = s)" for x
  proof (cases "find (rule_matches key) rules")
    case None
    then have "\<forall>r\<in>set rules. \<not> rule_matches key r" by (simp add: find_None_iff)
    with None show ?thesis by (auto simp: masked_string_def)
  next
    case (Some r)
    then have "\<exists>r\<in>set rules. rule_matches key r" unfolding find_first by auto
    then have "masked_string ra rules key s x \<longleftrightarrow> (\<exists>r. find (rule_matches key) rules = Some r \<and> rule_apply ra r s = Some x)"
      unfolding find_first masked_string_def by blast
    then show ?thesis using Some by simp
  qed
  then show ?thesis using assms by (auto split: option.splits)
qed

section \<open>Properties\<close>

text \<open>C39: Desensitizing a JSON value changes strings under keys and nothing else. At every path the result
  has a value exactly when the original has one; objects keep their keys in order and arrays their
  length; numbers, booleans, nulls and strings that are not the value of a key are unchanged; and a
  string under a key becomes what the first rule whose name is a part of the key, or is *, makes of
  it, and stays when there is no such rule.\<close>

theorem desensitize_keeps_shape:
  assumes "apply_to_json ra rules j = Some j'"
  shows "rel_option (masked_value ra rules (under_key p)) (json_at j p) (json_at j' p)"
  using assms by (rule apply_to_json_at)

theorem desensitize_keeps_shape_witness:
  "\<exists>s'. apply_to_json (\<lambda>_ v _. v) default_connection_rules (JObject [(''c'', JObject [(''password'', JString ''hunter2'')])]) =
     Some (JObject [(''c'', JObject [(''password'', JString s')])]) \<and>
     masked_string (\<lambda>_ v _. v) default_connection_rules ''password'' ''hunter2'' s'"
proof -
  have run: "apply_to_json (\<lambda>_ v _. v) default_connection_rules (JObject [(''c'', JObject [(''password'', JString ''hunter2'')])]) =
     Some (JObject [(''c'', JObject [(''password'', JString ''hu*****'')])])"
    by (simp add: default_rules_eq str_len_def len_utf8_def code_def)
  from desensitize_keeps_shape [OF run, of "[AtKey ''c'', AtKey ''password'']"]
  have "masked_string (\<lambda>_ v _. v) default_connection_rules ''password'' ''hunter2'' ''hu*****''"
    by (simp add: masked_value_def)
  with run show ?thesis by blast
qed

text \<open>C40: The default rules hide secrets in a connection configuration: masking it never panics, and at
  every path that ends in a key mentioning password, secret, token, connection_string, key or
  passphrase, a string of more than eight bytes shows at most its first eight characters; all others
  are stars.\<close>

theorem default_rules_hide_secret:
  fixes ra :: "'r \<Rightarrow> string \<Rightarrow> string \<Rightarrow> string"
  shows "\<exists>j'. desensitize_connection_config ra default_connection_rules (Ok j) = Some j' \<and>
    (\<forall>p key name v. json_at j (p @ [AtKey key]) = Some (JString v) \<and> name \<in> set sensitive_names \<and>
        (\<exists>a b. key = a @ name @ b) \<and> 8 < str_len v \<longrightarrow>
      (\<exists>k\<le>8. json_at j' (p @ [AtKey key]) = Some (JString (take k v @ replicate (length v - k) (CHR ''*'')))))"
proof -
  obtain j' where j': "apply_to_json ra default_connection_rules j = Some j'"
    using apply_to_json_total(1) [of ra default_connection_rules j] prefix_rules_apply [of default_connection_rules ra]
    by (auto simp: default_rules_eq simp del: engine_apply.simps not_None_eq)
  have "\<exists>k\<le>8. json_at j' (p @ [AtKey key]) = Some (JString (take k v @ replicate (length v - k) (CHR ''*'')))"
    if at: "json_at j (p @ [AtKey key]) = Some (JString v)" and name: "name \<in> set sensitive_names"
      "\<exists>a b. key = a @ name @ b" "8 < str_len v" for p key name v
  proof -
    obtain s where s: "json_at j' (p @ [AtKey key]) = Some (JString s)" "masked_string ra default_connection_rules key v s"
      using apply_to_json_at [OF j', of "p @ [AtKey key]"] at
      by (auto simp: under_key_def masked_value_def option_rel_Some1)
    have "contains key name" using name(2) by (auto simp: contains_iff sublist_def)
    then obtain k where "k \<le> 8"
      "engine_apply ra default_connection_rules key v = Some (take k v @ replicate (length v - k) (CHR ''*''))"
      using default_rules_mask [OF name(1) _ name(3)] by blast
    moreover from this have "masked_string ra default_connection_rules key v
        (take k v @ replicate (length v - k) (CHR ''*''))" by (simp add: engine_apply_masked)
    ultimately show ?thesis using s masked_string_unique by blast
  qed
  with j' show ?thesis by (intro exI [of _ j']) (simp add: desensitize_connection_config_def, blast)
qed

theorem default_rules_hide_secret_witness:
  "\<exists>k\<le>8. apply_to_json (\<lambda>(_ :: unit) v _. v) default_connection_rules
      (JObject [(''ssh'', JObject [(''ssh_password'', JString ''correct horse'')])]) =
    Some (JObject [(''ssh'', JObject [(''ssh_password'', JString (take k ''correct horse'' @ replicate (13 - k) (CHR ''*'')))])])"
proof -
  let ?j = "JObject [(''ssh'', JObject [(''ssh_password'', JString ''correct horse'')])]"
  obtain s where run: "apply_to_json (\<lambda>(_ :: unit) v _. v) default_connection_rules ?j =
      Some (JObject [(''ssh'', JObject [(''ssh_password'', JString s)])])"
    by (simp add: default_rules_eq str_len_def len_utf8_def code_def)
  have "\<exists>a b. ''ssh_password'' = a @ ''password'' @ b" by (rule exI [of _ "''ssh_''"]) simp
  moreover have "8 < str_len ''correct horse''" by (simp add: len_utf8_def code_def)
  moreover have "''password'' \<in> set sensitive_names" by (simp add: sensitive_names_def)
  moreover have "json_at ?j ([AtKey ''ssh''] @ [AtKey ''ssh_password'']) = Some (JString ''correct horse'')" by simp
  moreover obtain j' where j': "desensitize_connection_config (\<lambda>(_ :: unit) v _. v) default_connection_rules (Ok ?j) = Some j'"
    "\<forall>p key name v. json_at ?j (p @ [AtKey key]) = Some (JString v) \<and> name \<in> set sensitive_names \<and>
        (\<exists>a b. key = a @ name @ b) \<and> 8 < str_len v \<longrightarrow>
      (\<exists>k\<le>8. json_at j' (p @ [AtKey key]) = Some (JString (take k v @ replicate (length v - k) (CHR ''*''))))"
    using default_rules_hide_secret [of "\<lambda>(_ :: unit) v _. v" ?j] by blast
  ultimately obtain k where k: "k \<le> 8" "json_at j' ([AtKey ''ssh''] @ [AtKey ''ssh_password'']) =
      Some (JString (take k ''correct horse'' @ replicate (length ''correct horse'' - k) (CHR ''*'')))"
    by blast
  have "j' = JObject [(''ssh'', JObject [(''ssh_password'', JString s)])]"
    using j'(1) run by (simp only: desensitize_connection_config_def sum.case option.inject)
  then have "s = take k ''correct horse'' @ replicate (13 - k) (CHR ''*'')" using k(2) by simp
  with run k(1) show ?thesis by blast
qed

text \<open>Strings inside an array are never masked, whatever the rules and however sensitive the key
  that holds the array.\<close>

lemma array_of_secrets_not_masked:
  "apply_to_json ra rules (JObject [(key, JArray (map JString secrets))]) =
     Some (JObject [(key, JArray (map JString secrets))])"
  by (simp add: strings_in_arrays_kept)

text \<open>A pattern rule with a preserved prefix panics exactly when the prefix, counted in bytes,
  ends inside a character of the value.\<close>

lemma pattern_rule_panics_iff:
  assumes "0 < n" "n < str_len v"
  shows "rule_apply ra (Pattern name pat rep n) v = None \<longleftrightarrow> (\<nexists>k. str_len (take k v) = n)"
proof -
  have "(\<exists>p. slice_to v n = Some p) \<longleftrightarrow> (\<exists>k. str_len (take k v) = n)"
    unfolding slice_to_iff by (metis append_eq_conv_conj prefix_def take_is_prefix)
  then show ?thesis using assms by (auto simp: not_Some_eq [symmetric])
qed

end
