(* ===== verification/Query_Cancel.thy ===== *)
theory Query_Cancel
  imports Rust_Prelude
begin

text \<open>
  The registry of running queries of \<open>query_cancel.rs\<close>. An operation runs under the registry's
  lock and is one step of the model. A cancellation token and a completion channel are shared
  between a task and its guard: both are named by the registration id, and the state records
  which tokens are cancelled and which channels have been completed. Interrupt closures are
  values of a type \<open>'i\<close>, and the state lists the ones that have been run.

  Time is in seconds; the timer that reclaims a detached registration is an entry of \<open>timers\<close>.
\<close>

section \<open>Data\<close>

definition detached_registration_grace_period :: nat where
  "detached_registration_grace_period = 30 * 60"

datatype running_task_kind = Query | Count | Explain | Export | UnknownTask

record running_task_metadata =
  task_kind :: running_task_kind
  connection_id :: "string option"
  task_database :: "string option"
  client_session_id :: "string option"
  owner_scope :: "string option"

record 'i running_task =
  registration_id :: nat
  remember_completion :: bool
  metadata :: running_task_metadata
  pool_key :: "string option"
  interrupt :: "'i option"

record 'i running_queries =
  inner :: "(string, 'i running_task) hash_map"
  completed :: "string \<rightharpoonup> nat"
  next_registration_id :: nat
  cancelled_tokens :: "nat set"
  completed_channels :: "nat set"
  fired :: "'i list"
  timers :: "(nat \<times> string \<times> nat) list"
  clock_secs :: nat

record registered_query =
  execution_id :: string
  guard_registration_id :: nat

record diagnostics =
  active_execution_ids :: "string list"
  active_by_connection :: "(string, nat) hash_map"
  interrupt_registrations :: nat

record cancellation_wait_result =
  requested :: bool
  terminal :: bool

definition empty_queries :: "'i running_queries" where
  "empty_queries = \<lparr>inner = [], completed = Map.empty, next_registration_id = 0, cancelled_tokens = {},
     completed_channels = {}, fired = [], timers = [], clock_secs = 0\<rparr>"

definition task_kind_from_client_session_id :: "string option \<Rightarrow> running_task_kind" where
  "task_kind_from_client_session_id sid =
     (case sid of
        None \<Rightarrow> Query
      | Some s \<Rightarrow>
          let s = to_ascii_lowercase (trim s) in
          if ends_with s '':count'' then Count
          else if ends_with s '':explain'' then Explain
          else if ends_with s '':export'' then Export
          else Query)"

definition owner_scope_from_client_session_id :: "string \<Rightarrow> string option" where
  "owner_scope_from_client_session_id sid =
     (case split_char (CHR '':'') (trim sid) of
        [] \<Rightarrow> None
      | p # _ \<Rightarrow> let owner = trim p in if owner \<noteq> [] then Some owner else None)"

definition default_metadata :: running_task_metadata where
  "default_metadata = \<lparr>task_kind = UnknownTask, connection_id = None, task_database = None,
     client_session_id = None, owner_scope = None\<rparr>"

definition query_metadata :: "string \<Rightarrow> string \<Rightarrow> string option \<Rightarrow> running_task_metadata" where
  "query_metadata conn db sid =
     \<lparr>task_kind = task_kind_from_client_session_id sid, connection_id = Some conn,
      task_database = Some db, client_session_id = sid,
      owner_scope = Option.bind sid owner_scope_from_client_session_id\<rparr>"

definition with_owner_scope :: "running_task_metadata \<Rightarrow> string \<Rightarrow> running_task_metadata" where
  "with_owner_scope md scope = md\<lparr>owner_scope := Some scope\<rparr>"

section \<open>Registering\<close>

definition retain_recent :: "nat \<Rightarrow> (string \<rightharpoonup> nat) \<Rightarrow> (string \<rightharpoonup> nat)" where
  "retain_recent now m k =
     (case m k of
        Some t \<Rightarrow> if now - t < detached_registration_grace_period then Some t else None
      | None \<Rightarrow> None)"

definition run_interrupt :: "'i option \<Rightarrow> 'i running_queries \<Rightarrow> 'i running_queries" where
  "run_interrupt i s = (case i of None \<Rightarrow> s | Some f \<Rightarrow> s\<lparr>fired := fired s @ [f]\<rparr>)"

definition register_task_with_completion_tracking ::
    "string \<Rightarrow> running_task_metadata \<Rightarrow> bool \<Rightarrow> 'i running_queries \<Rightarrow> registered_query \<times> 'i running_queries" where
  "register_task_with_completion_tracking eid md remember s =
     (let rid = next_registration_id s + 1;
          previous = hm_get (inner s) eid;
          task = \<lparr>registration_id = rid, remember_completion = remember, metadata = md,
                  pool_key = None, interrupt = None\<rparr>;
          s1 = s\<lparr>next_registration_id := rid,
                 completed := (retain_recent (clock_secs s) (completed s))(eid := None),
                 inner := hm_insert eid task (inner s)\<rparr>;
          s2 = (case previous of
                  None \<Rightarrow> s1
                | Some p \<Rightarrow> run_interrupt (interrupt p)
                    (s1\<lparr>cancelled_tokens := insert (registration_id p) (cancelled_tokens s1),
                        completed_channels := insert (registration_id p) (completed_channels s1)\<rparr>))
      in (\<lparr>execution_id = eid, guard_registration_id = rid\<rparr>, s2))"

definition register_task ::
    "string \<Rightarrow> running_task_metadata \<Rightarrow> 'i running_queries \<Rightarrow> registered_query \<times> 'i running_queries" where
  "register_task eid md = register_task_with_completion_tracking eid md False"

definition register_query :: "string \<Rightarrow> 'i running_queries \<Rightarrow> registered_query \<times> 'i running_queries" where
  "register_query eid = register_task eid default_metadata"

definition register_task_for_terminal_confirmation ::
    "string \<Rightarrow> running_task_metadata \<Rightarrow> 'i running_queries \<Rightarrow> registered_query \<times> 'i running_queries" where
  "register_task_for_terminal_confirmation eid md = register_task_with_completion_tracking eid md True"

definition completed_execution_is_terminal :: "string \<Rightarrow> 'i running_queries \<Rightarrow> bool \<times> 'i running_queries" where
  "completed_execution_is_terminal eid s =
     (if hm_get (inner s) eid \<noteq> None then (False, s)
      else let c = retain_recent (clock_secs s) (completed s)
           in (c eid \<noteq> None, s\<lparr>completed := c\<rparr>))"

definition register_interrupt :: "string \<Rightarrow> 'i \<Rightarrow> 'i running_queries \<Rightarrow> 'i running_queries" where
  "register_interrupt eid f s =
     (case hm_get (inner s) eid of
        Some task \<Rightarrow>
          if registration_id task \<notin> cancelled_tokens s
          then s\<lparr>inner := hm_insert eid (task\<lparr>interrupt := Some f\<rparr>) (inner s)\<rparr>
          else run_interrupt (Some f) s
      | None \<Rightarrow> run_interrupt (Some f) s)"

section \<open>Cancelling\<close>

definition cancel :: "string \<Rightarrow> 'i running_queries \<Rightarrow> bool \<times> 'i running_queries" where
  "cancel eid s =
     (case hm_get (inner s) eid of
        None \<Rightarrow> (False, s)
      | Some task \<Rightarrow>
          let s1 = s\<lparr>cancelled_tokens := insert (registration_id task) (cancelled_tokens s)\<rparr> in
          if remember_completion task
          then (True, run_interrupt (interrupt task)
                  (s1\<lparr>inner := hm_insert eid (task\<lparr>interrupt := None\<rparr>) (inner s1)\<rparr>))
          else let s2 = run_interrupt (interrupt task) (s1\<lparr>inner := hm_remove eid (inner s1)\<rparr>)
               in (True, s2\<lparr>completed_channels := insert (registration_id task) (completed_channels s2)\<rparr>))"

text \<open>\<open>cancel_and_wait\<close>: what the other tasks do between the cancellation and the moment the wait
  ends, by completion or by timeout, is the argument \<open>meanwhile\<close>.\<close>

definition cancel_and_wait ::
    "string \<Rightarrow> ('i running_queries \<Rightarrow> 'i running_queries) \<Rightarrow> 'i running_queries \<Rightarrow>
     cancellation_wait_result \<times> 'i running_queries" where
  "cancel_and_wait eid meanwhile s =
     (case hm_get (inner s) eid of
        None \<Rightarrow> (case completed_execution_is_terminal eid s of
                  (t, s') \<Rightarrow> (\<lparr>requested = False, terminal = t\<rparr>, s'))
      | Some task \<Rightarrow>
          (case cancel eid s of
             (False, s1) \<Rightarrow> (case completed_execution_is_terminal eid s1 of
                  (t, s') \<Rightarrow> (\<lparr>requested = False, terminal = t\<rparr>, s'))
           | (True, s1) \<Rightarrow>
               let s' = meanwhile s1
               in (\<lparr>requested = True, terminal = (registration_id task \<in> completed_channels s')\<rparr>, s')))"

fun cancel_ids :: "string list \<Rightarrow> 'i running_queries \<Rightarrow> nat \<times> 'i running_queries" where
  "cancel_ids [] s = (0, s)"
| "cancel_ids (eid # eids) s =
     (case cancel eid s of (b, s1) \<Rightarrow>
        (case cancel_ids eids s1 of (n, s2) \<Rightarrow> (if b then Suc n else n, s2)))"

definition cancel_matching ::
    "('i running_task \<Rightarrow> bool) \<Rightarrow> 'i running_queries \<Rightarrow> nat \<times> 'i running_queries" where
  "cancel_matching p s = cancel_ids (map fst (filter (\<lambda>(_, task). p task) (inner s))) s"

definition cancel_connection :: "string \<Rightarrow> 'i running_queries \<Rightarrow> nat \<times> 'i running_queries" where
  "cancel_connection conn = cancel_matching (\<lambda>task. connection_id (metadata task) = Some conn)"

definition cancel_client_session :: "string \<Rightarrow> 'i running_queries \<Rightarrow> nat \<times> 'i running_queries" where
  "cancel_client_session sid = cancel_matching (\<lambda>task. client_session_id (metadata task) = Some sid)"

definition cancel_owner_scope :: "string \<Rightarrow> 'i running_queries \<Rightarrow> nat \<times> 'i running_queries" where
  "cancel_owner_scope scope = cancel_matching (\<lambda>task. owner_scope (metadata task) = Some scope)"

definition cancel_all :: "'i running_queries \<Rightarrow> nat \<times> 'i running_queries" where
  "cancel_all = cancel_matching (\<lambda>_. True)"

definition running_diagnostics :: "'i running_queries \<Rightarrow> diagnostics" where
  "running_diagnostics s =
     (let ids = sort (map fst (inner s));
          (conns, interrupts) = fold (\<lambda>(_, task) (conns, n).
             ((case connection_id (metadata task) of
                 None \<Rightarrow> conns
               | Some c \<Rightarrow> hm_insert c ((case hm_get conns c of None \<Rightarrow> 0 | Some k \<Rightarrow> k) + 1) conns),
              if interrupt task \<noteq> None then n + 1 else n)) (inner s) ([], 0)
      in \<lparr>active_execution_ids = ids, active_by_connection = conns, interrupt_registrations = interrupts\<rparr>)"

definition set_pool_key :: "string \<Rightarrow> string \<Rightarrow> 'i running_queries \<Rightarrow> 'i running_queries" where
  "set_pool_key eid key s =
     (case hm_get (inner s) eid of
        Some task \<Rightarrow> s\<lparr>inner := hm_insert eid (task\<lparr>pool_key := Some key\<rparr>) (inner s)\<rparr>
      | None \<Rightarrow> s)"

definition is_pool_active :: "string \<Rightarrow> 'i running_queries \<Rightarrow> bool" where
  "is_pool_active key s = list_ex (\<lambda>(_, task). pool_key task = Some key) (inner s)"

section \<open>Removing and guards\<close>

definition remove_registration :: "string \<Rightarrow> nat \<Rightarrow> 'i running_queries \<Rightarrow> 'i running_queries" where
  "remove_registration eid rid s =
     (case hm_get (inner s) eid of
        None \<Rightarrow> s
      | Some task \<Rightarrow>
          if registration_id task \<noteq> rid then s
          else let s1 = (if remember_completion task
                         then s\<lparr>completed := (completed s)(eid \<mapsto> clock_secs s)\<rparr> else s)
               in s1\<lparr>inner := hm_remove eid (inner s1),
                     completed_channels := insert rid (completed_channels s1)\<rparr>)"

definition drop_guard :: "registered_query \<Rightarrow> 'i running_queries \<Rightarrow> 'i running_queries" where
  "drop_guard g s = remove_registration (execution_id g) (guard_registration_id g) s"

definition detach :: "registered_query \<Rightarrow> 'i running_queries \<Rightarrow> 'i running_queries" where
  "detach g s =
     s\<lparr>timers := timers s @ [(clock_secs s + detached_registration_grace_period, execution_id g,
         guard_registration_id g)]\<rparr>"

text \<open>\<open>finish_with_late_cancel\<close>; \<open>finish\<close> passes \<open>True\<close>. \<open>timed_out\<close> is whether the result is the
  error \<open>QueryExecutionError::Timeout\<close>.\<close>

definition finish_with_late_cancel ::
    "registered_query \<Rightarrow> bool \<Rightarrow> bool \<Rightarrow> 'i running_queries \<Rightarrow> 'i running_queries" where
  "finish_with_late_cancel g timed_out keep_timeout_reachable s =
     (if keep_timeout_reachable \<and> timed_out then detach g s else drop_guard g s)"

definition finish :: "registered_query \<Rightarrow> bool \<Rightarrow> 'i running_queries \<Rightarrow> 'i running_queries" where
  "finish g timed_out = finish_with_late_cancel g timed_out True"

text \<open>Time passes; a timer that is due removes its registration.\<close>

definition fire_timers :: "nat \<Rightarrow> 'i running_queries \<Rightarrow> 'i running_queries" where
  "fire_timers dt s =
     (let s1 = s\<lparr>clock_secs := clock_secs s + dt\<rparr>;
          due = filter (\<lambda>(t, _). t \<le> clock_secs s1) (timers s1);
          s2 = s1\<lparr>timers := filter (\<lambda>(t, _). clock_secs s1 < t) (timers s1)\<rparr>
      in fold (\<lambda>(_, eid, rid). remove_registration eid rid) due s2)"

section \<open>Interleavings\<close>

text \<open>
  Any sequence of operations by any number of callers. An interrupt closure is handed over at
  most once, and a guard is only dropped, finished or detached by the caller that got it from
  \<open>register\<close>; the model lets callers use any guard that was ever given out.
\<close>

inductive rq_step :: "'i running_queries \<Rightarrow> 'i running_queries \<Rightarrow> bool" where
  register: "rq_step s (snd (register_task_with_completion_tracking eid md remember s))"
| interrupt: "f \<notin> set (fired s) \<Longrightarrow> (\<And>eid task. hm_get (inner s) eid = Some task \<Longrightarrow> interrupt task \<noteq> Some f) \<Longrightarrow>
    rq_step s (register_interrupt eid f s)"
| cancel: "rq_step s (snd (cancel eid s))"
| terminal: "rq_step s (snd (completed_execution_is_terminal eid s))"
| pool: "rq_step s (set_pool_key eid key s)"
| remove: "rq_step s (remove_registration eid rid s)"
| detach: "rq_step s (detach g s)"
| time: "rq_step s (fire_timers dt s)"

inductive rq_steps :: "'i running_queries \<Rightarrow> 'i running_queries \<Rightarrow> bool" where
  refl: "rq_steps s s"
| step: "rq_steps s t \<Longrightarrow> rq_step t u \<Longrightarrow> rq_steps s u"

text \<open>The invariant: one task per execution id, registration ids given out once, a task's channel
  is open while it is registered, a cancelled task holds no interrupt and is one whose completion
  is remembered, and no interrupt is held twice or held after it ran.\<close>

definition task_ok :: "'i running_queries \<Rightarrow> 'i running_task \<Rightarrow> bool" where
  "task_ok s task \<longleftrightarrow>
     registration_id task \<le> next_registration_id s \<and> registration_id task \<notin> completed_channels s \<and>
     (registration_id task \<in> cancelled_tokens s \<longrightarrow> remember_completion task \<and> interrupt task = None) \<and>
     (\<forall>f. interrupt task = Some f \<longrightarrow> f \<notin> set (fired s))"

definition rq_inv :: "'i running_queries \<Rightarrow> bool" where
  "rq_inv s \<longleftrightarrow> hm_wf (inner s) \<and> distinct (fired s) \<and>
     (\<forall>i\<in>cancelled_tokens s \<union> completed_channels s. i \<le> next_registration_id s) \<and>
     (\<forall>eid task. hm_get (inner s) eid = Some task \<longrightarrow> task_ok s task) \<and>
     (\<forall>e e' t t'. hm_get (inner s) e = Some t \<and> hm_get (inner s) e' = Some t' \<and>
        (registration_id t = registration_id t' \<or> (interrupt t \<noteq> None \<and> interrupt t = interrupt t')) \<longrightarrow>
        e = e')"

section \<open>The invariant holds\<close>

lemmas rq_defs = register_task_with_completion_tracking_def register_interrupt_def cancel_def
  completed_execution_is_terminal_def set_pool_key_def remove_registration_def detach_def
  run_interrupt_def Let_def

declare map_of_eq_Some_iff [simp del]

lemma rq_inv_empty: "rq_inv empty_queries"
  by (simp add: rq_inv_def empty_queries_def)

lemma rq_invD:
  assumes "rq_inv s" "hm_get (inner s) eid = Some task"
  shows "registration_id task \<le> next_registration_id s" "registration_id task \<notin> completed_channels s"
    "registration_id task \<in> cancelled_tokens s \<Longrightarrow> remember_completion task \<and> interrupt task = None"
    "interrupt task = Some f \<Longrightarrow> f \<notin> set (fired s)"
  using assms by (auto simp: rq_inv_def task_ok_def)

lemma rq_inv_cong:
  assumes "rq_inv s" "hm_get (inner s') = hm_get (inner s)" "hm_wf (inner s')" "fired s' = fired s"
    "cancelled_tokens s' = cancelled_tokens s" "completed_channels s' = completed_channels s"
    "next_registration_id s' = next_registration_id s"
  shows "rq_inv s'"
  using assms by (simp add: rq_inv_def task_ok_def)

lemma rq_inv_other:
  assumes "rq_inv s" "hm_get (inner s) eid = Some task" "hm_get (inner s) e = Some t" "e \<noteq> eid"
  shows "registration_id t \<noteq> registration_id task \<and> (interrupt task \<noteq> None \<longrightarrow> interrupt t \<noteq> interrupt task)"
  using assms unfolding rq_inv_def by (metis (no_types, lifting))

text \<open>A task goes; its interrupt may run, its token and channel may be closed.\<close>

lemma rq_inv_take:
  assumes "rq_inv s" "hm_get (inner s) eid = Some task"
    and "inner s' = hm_remove eid (inner s)" "next_registration_id s' = next_registration_id s"
    and "cancelled_tokens s' \<subseteq> insert (registration_id task) (cancelled_tokens s)"
    and "completed_channels s' \<subseteq> insert (registration_id task) (completed_channels s)"
    and "fired s' = fired s \<or> (\<exists>f. interrupt task = Some f \<and> fired s' = fired s @ [f])"
  shows "rq_inv s'"
proof -
  note D = rq_invD [OF assms(1)]
  have other: "registration_id t \<noteq> registration_id task \<and> (interrupt task \<noteq> None \<longrightarrow> interrupt t \<noteq> interrupt task)"
    if "hm_get (inner s) e = Some t" "e \<noteq> eid" for e t
    using rq_inv_other [OF assms(1,2) that] .
  have "task_ok s' t" if "hm_get (inner s) e = Some t" "e \<noteq> eid" for e t
    using D [OF that(1)] other [OF that] assms(4-7) by (auto simp: task_ok_def)
  moreover have "distinct (fired s')"
    using assms(1,7) D(4) [OF assms(2)] by (auto simp: rq_inv_def)
  moreover have "\<forall>i\<in>cancelled_tokens s' \<union> completed_channels s'. i \<le> next_registration_id s'"
    using assms(1,4-6) D(1) [OF assms(2)] unfolding rq_inv_def by auto
  ultimately show ?thesis
    using assms(1,3) unfolding rq_inv_def by (auto split: if_splits)
qed

text \<open>A task comes or changes; it has a registration id and an interrupt that no other task has.\<close>

lemma rq_inv_put:
  assumes "rq_inv s" "inner s' = hm_insert eid task (inner s)" "next_registration_id s \<le> next_registration_id s'"
    and "fired s' = fired s" "cancelled_tokens s' = cancelled_tokens s"
    and "completed_channels s' = completed_channels s" "task_ok s' task"
    and "\<And>e t. hm_get (inner s) e = Some t \<Longrightarrow> e \<noteq> eid \<Longrightarrow> registration_id t \<noteq> registration_id task \<and>
           (interrupt task \<noteq> None \<longrightarrow> interrupt t \<noteq> interrupt task)"
  shows "rq_inv s'"
proof -
  have ok: "task_ok s' t" if "hm_get (inner s) e = Some t" for e t
    using rq_invD [OF assms(1) that] assms(3-6) by (auto simp: task_ok_def)
  have le: "\<forall>i\<in>cancelled_tokens s' \<union> completed_channels s'. i \<le> next_registration_id s'"
    using assms(1,3,5,6) unfolding rq_inv_def by (auto intro: le_trans)
  have uniq: "e = e'"
    if "((hm_get (inner s))(eid \<mapsto> task)) e = Some t" "((hm_get (inner s))(eid \<mapsto> task)) e' = Some t'"
      "registration_id t = registration_id t' \<or> (interrupt t \<noteq> None \<and> interrupt t = interrupt t')" for e e' t t'
  proof (cases "e = eid"; cases "e' = eid")
    assume "e \<noteq> eid" "e' \<noteq> eid"
    then have "hm_get (inner s) e = Some t" "hm_get (inner s) e' = Some t'" using that by simp_all
    from rq_inv_other [OF assms(1) this] that(3) show ?thesis by metis
  qed (use that assms(8) [of e t] assms(8) [of e' t'] in auto)
  show ?thesis
    unfolding rq_inv_def
  proof (intro conjI allI impI)
    show "hm_wf (inner s')" "distinct (fired s')" using assms(1,2,4) by (simp_all add: rq_inv_def)
    show "\<forall>i\<in>cancelled_tokens s' \<union> completed_channels s'. i \<le> next_registration_id s'" by (rule le)
    show "task_ok s' t" if "hm_get (inner s') e = Some t" for e t
      using that ok assms(2,7) by (auto split: if_splits)
    show "e = e'" if "hm_get (inner s') e = Some t \<and> hm_get (inner s') e' = Some t' \<and>
      (registration_id t = registration_id t' \<or> interrupt t \<noteq> None \<and> interrupt t = interrupt t')" for e e' t t'
      using that uniq [of e t e' t'] assms(2) by simp
  qed
qed

lemma rq_inv_register: "rq_inv s \<Longrightarrow> rq_inv (snd (register_task_with_completion_tracking eid md remember s))"
proof -
  assume inv: "rq_inv s"
  let ?rid = "next_registration_id s + 1"
  let ?task = "\<lparr>registration_id = ?rid, remember_completion = remember, metadata = md,
    pool_key = None, interrupt = None\<rparr>"
  define s0 where "s0 = (case hm_get (inner s) eid of None \<Rightarrow> s
    | Some p \<Rightarrow> run_interrupt (interrupt p) (s\<lparr>inner := hm_remove eid (inner s),
        cancelled_tokens := insert (registration_id p) (cancelled_tokens s),
        completed_channels := insert (registration_id p) (completed_channels s)\<rparr>))"
  have s0: "rq_inv s0"
  proof (cases "hm_get (inner s) eid")
    case (Some p)
    then show ?thesis
      using inv by (intro rq_inv_take [OF inv Some]) (auto simp: s0_def run_interrupt_def split: option.split)
  qed (simp add: inv s0_def)
  have n: "next_registration_id s0 = next_registration_id s" "hm_get (inner s0) eid = None"
    by (auto simp: s0_def run_interrupt_def split: option.split)
  define s' where "s' = s0\<lparr>inner := hm_insert eid ?task (inner s0), next_registration_id := ?rid\<rparr>"
  have less: "i < ?rid" if "i \<in> cancelled_tokens s0 \<union> completed_channels s0" for i
  proof -
    have "i \<le> next_registration_id s0" using s0 that unfolding rq_inv_def by blast
    with n(1) show ?thesis by simp
  qed
  have "rq_inv s'"
  proof (rule rq_inv_put [OF s0])
    show "task_ok s' ?task" using less [of ?rid] by (auto simp: s'_def task_ok_def)
    show "registration_id t \<noteq> registration_id ?task \<and> (interrupt ?task \<noteq> None \<longrightarrow> interrupt t \<noteq> interrupt ?task)"
      if "hm_get (inner s0) e = Some t" for e t
      using rq_invD(1) [OF s0 that] n(1) by simp
  qed (simp_all add: s'_def n)
  note inv' = this
  have wf: "hm_wf (inner s)" using inv unfolding rq_inv_def by blast
  show ?thesis
  proof (cases "hm_get (inner s) eid")
    case None
    then show ?thesis by (intro rq_inv_cong [OF inv']) (simp_all add: wf s'_def s0_def rq_defs fun_eq_iff)
  next
    case (Some p)
    then show ?thesis
      by (cases "interrupt p"; intro rq_inv_cong [OF inv']) (simp_all add: wf s'_def s0_def rq_defs fun_eq_iff)
  qed
qed

lemma rq_inv_interrupt:
  assumes "rq_inv s" "f \<notin> set (fired s)"
    "\<And>eid task. hm_get (inner s) eid = Some task \<Longrightarrow> interrupt task \<noteq> Some f"
  shows "rq_inv (register_interrupt eid f s)"
proof -
  have fire: "rq_inv (s\<lparr>fired := fired s @ [f]\<rparr>)"
    using assms unfolding rq_inv_def task_ok_def by auto
  show ?thesis
  proof (cases "hm_get (inner s) eid")
    case (Some task)
    show ?thesis
    proof (cases "registration_id task \<in> cancelled_tokens s")
      case False
      then show ?thesis
        using Some assms rq_invD [OF assms(1) Some] rq_inv_other [OF assms(1) Some]
        by (intro rq_inv_put [OF assms(1), of _ eid "task\<lparr>interrupt := Some f\<rparr>"])
          (auto simp: register_interrupt_def task_ok_def)
    qed (simp add: Some fire register_interrupt_def run_interrupt_def)
  qed (simp add: fire register_interrupt_def run_interrupt_def)
qed

lemma rq_inv_remove:
  assumes "rq_inv s"
  shows "rq_inv (remove_registration eid rid s)"
proof (cases "\<exists>task. hm_get (inner s) eid = Some task \<and> registration_id task = rid")
  case True
  then obtain task where t: "hm_get (inner s) eid = Some task" "registration_id task = rid" by blast
  then show ?thesis
    by (intro rq_inv_take [OF assms t(1)]) (auto simp: remove_registration_def)
qed (use assms in \<open>auto simp: remove_registration_def split: option.split\<close>)

lemma rq_inv_pool: "rq_inv s \<Longrightarrow> rq_inv (set_pool_key eid key s)"
proof (cases "hm_get (inner s) eid")
  case (Some task)
  assume inv: "rq_inv s"
  show ?thesis
    using rq_invD [OF inv Some] rq_inv_other [OF inv Some] Some
    by (intro rq_inv_put [OF inv, of _ eid "task\<lparr>pool_key := Some key\<rparr>"])
      (auto simp: set_pool_key_def task_ok_def)
qed (simp add: set_pool_key_def)

lemma rq_inv_cancel:
  assumes "rq_inv s"
  shows "rq_inv (snd (cancel eid s))"
proof (cases "hm_get (inner s) eid")
  case (Some task)
  show ?thesis
  proof (cases "remember_completion task")
    case True
    let ?s = "run_interrupt (interrupt task) (s\<lparr>inner := hm_remove eid (inner s),
      cancelled_tokens := insert (registration_id task) (cancelled_tokens s)\<rparr>)"
    have s: "rq_inv ?s"
      by (rule rq_inv_take [OF assms Some]) (auto simp: run_interrupt_def split: option.split)
    let ?s' = "?s\<lparr>inner := hm_insert eid (task\<lparr>interrupt := None\<rparr>) (inner ?s)\<rparr>"
    have "rq_inv ?s'"
      using True rq_invD [OF assms Some] rq_inv_other [OF assms Some]
      by (intro rq_inv_put [OF s, of _ eid "task\<lparr>interrupt := None\<rparr>"])
        (auto simp: task_ok_def run_interrupt_def split: option.split_asm option.split if_splits)
    note inv' = this
    have wf: "hm_wf (inner s)" using assms unfolding rq_inv_def by blast
    show ?thesis
      by (cases "interrupt task"; intro rq_inv_cong [OF inv'])
        (simp_all add: wf Some True cancel_def run_interrupt_def Let_def fun_eq_iff)
  next
    case False
    then show ?thesis
      using Some by (intro rq_inv_take [OF assms Some])
        (auto simp: cancel_def run_interrupt_def Let_def split: option.split)
  qed
qed (simp add: cancel_def assms)

lemma rq_inv_fold_remove: "rq_inv s \<Longrightarrow> rq_inv (fold (\<lambda>(_, eid, rid). remove_registration eid rid) ts s)"
  by (induction ts arbitrary: s) (auto simp: rq_inv_remove)

lemma rq_inv_time:
  assumes "rq_inv s"
  shows "rq_inv (fire_timers dt s)"
  unfolding fire_timers_def Let_def
  by (intro rq_inv_fold_remove rq_inv_cong [OF assms]) (use assms in \<open>auto simp: rq_inv_def\<close>)

lemma rq_inv_step: "rq_step s t \<Longrightarrow> rq_inv s \<Longrightarrow> rq_inv t"
proof (induction rule: rq_step.induct)
  case (terminal s eid)
  then show ?case
    by (intro rq_inv_cong [OF terminal]) (auto simp: completed_execution_is_terminal_def Let_def rq_inv_def)
next
  case (detach s g)
  then show ?case by (intro rq_inv_cong [OF detach]) (auto simp: detach_def rq_inv_def)
qed (simp_all add: rq_inv_register rq_inv_interrupt rq_inv_cancel rq_inv_pool rq_inv_remove rq_inv_time)

lemma rq_inv_steps: "rq_steps s t \<Longrightarrow> rq_inv s \<Longrightarrow> rq_inv t"
  by (induction rule: rq_steps.induct) (auto intro: rq_inv_step)

text \<open>Registration ids only grow.\<close>

lemma remove_fields [simp]:
  "next_registration_id (remove_registration eid rid s) = next_registration_id s"
  "fired (remove_registration eid rid s) = fired s"
  "cancelled_tokens (remove_registration eid rid s) = cancelled_tokens s"
  by (auto simp: remove_registration_def Let_def split: option.split)

lemma fold_remove_fields [simp]:
  "next_registration_id (fold (\<lambda>(_, eid, rid). remove_registration eid rid) ts s) = next_registration_id s"
  "fired (fold (\<lambda>(_, eid, rid). remove_registration eid rid) ts s) = fired s"
  "cancelled_tokens (fold (\<lambda>(_, eid, rid). remove_registration eid rid) ts s) = cancelled_tokens s"
  by (induction ts arbitrary: s) auto

lemma run_interrupt_fields [simp]:
  "next_registration_id (run_interrupt i s) = next_registration_id s"
  "inner (run_interrupt i s) = inner s"
  "cancelled_tokens (run_interrupt i s) = cancelled_tokens s"
  "completed_channels (run_interrupt i s) = completed_channels s"
  "fired (run_interrupt i s) = fired s @ (case i of None \<Rightarrow> [] | Some f \<Rightarrow> [f])"
  by (simp_all add: run_interrupt_def split: option.split)

lemma step_monotone:
  "rq_step s t \<Longrightarrow> next_registration_id s \<le> next_registration_id t \<and>
     cancelled_tokens s \<subseteq> cancelled_tokens t \<and> prefix (fired s) (fired t)"
  by (induction rule: rq_step.induct)
    (auto simp: register_task_with_completion_tracking_def register_interrupt_def cancel_def
      completed_execution_is_terminal_def set_pool_key_def detach_def fire_timers_def Let_def
      split: option.split)

lemma steps_monotone:
  "rq_steps s t \<Longrightarrow> next_registration_id s \<le> next_registration_id t \<and>
     cancelled_tokens s \<subseteq> cancelled_tokens t \<and> prefix (fired s) (fired t)"
  by (induction rule: rq_steps.induct) (auto dest!: step_monotone intro: prefix_order.trans)

lemma register_fields:
  assumes "register_task_with_completion_tracking eid md remember s = (g, t)"
  shows "execution_id g = eid" "guard_registration_id g = next_registration_id s + 1"
    "next_registration_id t = next_registration_id s + 1"
    "hm_get (inner t) eid = Some \<lparr>registration_id = next_registration_id s + 1,
       remember_completion = remember, metadata = md, pool_key = None, interrupt = None\<rparr>"
  using assms
  by (auto simp: register_task_with_completion_tracking_def Let_def split: option.splits)

text \<open>Once an execution id has been registered anew, the tasks under it stay newer.\<close>

definition newer :: "nat \<Rightarrow> string \<Rightarrow> 'i running_queries \<Rightarrow> bool" where
  "newer n eid s \<longleftrightarrow> n \<le> next_registration_id s \<and>
     (\<forall>task. hm_get (inner s) eid = Some task \<longrightarrow> n < registration_id task)"

lemma newer_remove: "newer n eid s \<Longrightarrow> newer n eid (remove_registration e rid s)"
  by (auto simp: newer_def remove_registration_def Let_def split: option.split if_splits)

lemma newer_fold_remove:
  "newer n eid s \<Longrightarrow> newer n eid (fold (\<lambda>(_, e, rid). remove_registration e rid) ts s)"
  by (induction ts arbitrary: s) (auto simp: newer_remove)

lemma newer_step: "rq_step s t \<Longrightarrow> newer n eid s \<Longrightarrow> newer n eid t"
proof (induction rule: rq_step.induct)
  case (time s dt)
  have "newer n eid (s\<lparr>clock_secs := clock_secs s + dt, timers := ts\<rparr>)" for ts
    using time by (simp add: newer_def)
  then show ?case unfolding fire_timers_def Let_def by (intro newer_fold_remove) simp
next
  case (remove s e rid)
  then show ?case by (simp add: newer_remove)
qed (auto simp: newer_def register_task_with_completion_tracking_def register_interrupt_def cancel_def
      completed_execution_is_terminal_def set_pool_key_def detach_def Let_def
      split: option.splits if_splits)

lemma newer_steps: "rq_steps s t \<Longrightarrow> newer n eid s \<Longrightarrow> newer n eid t"
  by (induction rule: rq_steps.induct) (auto intro: newer_step)

lemma cancel_get:
  "e \<noteq> eid \<Longrightarrow> hm_get (inner (snd (cancel eid s))) e = hm_get (inner s) e"
  "fst (cancel eid s) \<longleftrightarrow> hm_get (inner s) eid \<noteq> None"
  "hm_get (inner s) eid = Some task \<Longrightarrow> registration_id task \<in> cancelled_tokens (snd (cancel eid s))"
  "cancelled_tokens s \<subseteq> cancelled_tokens (snd (cancel eid s))"
  by (auto simp: cancel_def Let_def split: option.split)

lemma cancel_ids_effect:
  assumes "cancel_ids eids s = (n, s')" "distinct eids" "\<And>e. e \<in> set eids \<Longrightarrow> hm_get (inner s) e \<noteq> None"
  shows "n = length eids \<and> cancelled_tokens s \<subseteq> cancelled_tokens s' \<and>
    (\<forall>e\<in>set eids. registration_id (the (hm_get (inner s) e)) \<in> cancelled_tokens s') \<and>
    (\<forall>e. e \<notin> set eids \<longrightarrow> hm_get (inner s') e = hm_get (inner s) e)"
  using assms
proof (induction eids arbitrary: s n)
  case (Cons e eids)
  obtain b s1 where c: "cancel e s = (b, s1)" by fastforce
  obtain m where m: "cancel_ids eids s1 = (m, s')" using Cons.prems(1) c by (auto split: prod.splits)
  have b: "b" using cancel_get(2) [of e s] c Cons.prems(3) [of e] by simp
  have other: "hm_get (inner s1) e' = hm_get (inner s) e'" if "e' \<noteq> e" for e'
    using cancel_get(1) [OF that, of s] c by simp
  have "hm_get (inner s1) e' \<noteq> None" if "e' \<in> set eids" for e'
    using other [of e'] Cons.prems(2,3) that by force
  note IH = Cons.IH [OF m _ this]
  have tok: "registration_id (the (hm_get (inner s) e)) \<in> cancelled_tokens s1"
    "cancelled_tokens s \<subseteq> cancelled_tokens s1"
    using cancel_get(3) [of s e] cancel_get(4) [of s e] c Cons.prems(3) [of e] by auto
  show ?case
  proof (intro conjI ballI allI impI)
    show "n = length (e # eids)" using Cons.prems(1,2) c m b IH by simp
    show "cancelled_tokens s \<subseteq> cancelled_tokens s'" using tok(2) IH Cons.prems(2) by auto
    show "registration_id (the (hm_get (inner s) e')) \<in> cancelled_tokens s'" if "e' \<in> set (e # eids)" for e'
      using that tok(1) IH Cons.prems(2) other [of e'] by (cases "e' = e") auto
    show "hm_get (inner s') e' = hm_get (inner s) e'" if "e' \<notin> set (e # eids)" for e'
      using that IH Cons.prems(2) other [of e'] by simp
  qed
qed simp

section \<open>Properties\<close>

text \<open>A registry with one query, whose completion is remembered or not.\<close>

definition demo_queries :: "bool \<Rightarrow> nat running_queries" where
  "demo_queries remember =
     snd (register_task_with_completion_tracking ''q'' (query_metadata ''c1'' ''db'' None) remember empty_queries)"

lemmas demo_defs = demo_queries_def register_task_with_completion_tracking_def cancel_def
  register_interrupt_def remove_registration_def run_interrupt_def query_metadata_def empty_queries_def Let_def

lemma demo_steps: "rq_steps empty_queries (demo_queries remember)"
  unfolding demo_queries_def by (rule rq_steps.step [OF rq_steps.refl rq_step.register])

text \<open>Time removes a task only through the timer of its own registration, and a removal that finds another
  registration changes nothing.\<close>

lemma remove_stale:
  "(\<forall>task. hm_get (inner s) eid = Some task \<longrightarrow> registration_id task \<noteq> rid) \<Longrightarrow> remove_registration eid rid s = s"
  by (auto simp: remove_registration_def split: option.split)

lemma remove_keeps:
  "hm_get (inner s) e = Some task \<Longrightarrow> \<not> (eid = e \<and> rid = registration_id task) \<Longrightarrow>
   hm_get (inner (remove_registration eid rid s)) e = Some task"
  by (auto simp: remove_registration_def Let_def split: option.split)

lemma fold_remove_keeps:
  assumes "hm_get (inner s) e = Some task" "\<forall>(t, eid, rid)\<in>set ts. \<not> (eid = e \<and> rid = registration_id task)"
  shows "hm_get (inner (fold (\<lambda>(_, eid, rid). remove_registration eid rid) ts s)) e = Some task"
  using assms by (induction ts arbitrary: s) (auto simp: remove_keeps)

lemma fire_timers_keeps:
  assumes "hm_get (inner s) eid = Some task" "\<forall>t. (t, eid, registration_id task) \<in> set (timers s) \<longrightarrow> clock_secs s + dt < t"
  shows "hm_get (inner (fire_timers dt s)) eid = Some task"
  unfolding fire_timers_def Let_def using assms by (intro fold_remove_keeps) auto

lemma remove_timers: "remove_registration eid rid (s\<lparr>timers := ts\<rparr>) = (remove_registration eid rid s)\<lparr>timers := ts\<rparr>"
  by (simp add: remove_registration_def Let_def split: option.split)

lemma fold_remove_timers:
  "fold (\<lambda>(_, eid, rid). remove_registration eid rid) ds (s\<lparr>timers := ts\<rparr>) =
   (fold (\<lambda>(_, eid, rid). remove_registration eid rid) ds s)\<lparr>timers := ts\<rparr>"
  by (induction ds arbitrary: s) (auto simp: remove_timers)

lemma fire_timers_eq:
  "fire_timers dt s =
     (fold (\<lambda>(_, eid, rid). remove_registration eid rid) (filter (\<lambda>(t, _). t \<le> clock_secs s + dt) (timers s))
       (s\<lparr>clock_secs := clock_secs s + dt\<rparr>))\<lparr>timers := filter (\<lambda>(t, _). clock_secs s + dt < t) (timers s)\<rparr>"
proof -
  have "s\<lparr>clock_secs := clock_secs s + dt, timers := ts\<rparr> = (s\<lparr>clock_secs := clock_secs s + dt\<rparr>)\<lparr>timers := ts\<rparr>" for ts
    by simp
  then show ?thesis unfolding fire_timers_def Let_def by (simp only: fold_remove_timers) simp
qed

lemma stale_detach_harmless:
  assumes "newer (guard_registration_id g) (execution_id g) s"
  shows "inner (fire_timers dt (detach g s)) = inner (fire_timers dt s) \<and>
    completed (fire_timers dt (detach g s)) = completed (fire_timers dt s) \<and>
    completed_channels (fire_timers dt (detach g s)) = completed_channels (fire_timers dt s)"
proof -
  let ?rm = "fold (\<lambda>(_, eid, rid). remove_registration eid rid)"
  let ?due = "filter (\<lambda>(t, _). t \<le> clock_secs s + dt)"
  let ?own = "(clock_secs s + detached_registration_grace_period, execution_id g, guard_registration_id g)"
  define s1 where "s1 = ?rm (?due (timers s)) (s\<lparr>clock_secs := clock_secs s + dt\<rparr>)"
  have "newer (guard_registration_id g) (execution_id g) s1"
    unfolding s1_def by (rule newer_fold_remove) (use assms in \<open>simp add: newer_def\<close>)
  then have "remove_registration (execution_id g) (guard_registration_id g) s1 = s1"
    by (intro remove_stale) (auto simp: newer_def)
  then have "?rm (?due [?own]) s1 = s1" by simp
  moreover have "(detach g s)\<lparr>clock_secs := clock_secs s + dt\<rparr> =
      (s\<lparr>clock_secs := clock_secs s + dt\<rparr>)\<lparr>timers := timers s @ [?own]\<rparr>"
    by (simp add: detach_def)
  then have "?rm (?due (timers s @ [?own])) ((detach g s)\<lparr>clock_secs := clock_secs s + dt\<rparr>) =
      (?rm (?due [?own]) s1)\<lparr>timers := timers s @ [?own]\<rparr>"
    by (simp only: fold_remove_timers filter_append fold_append comp_apply s1_def)
  moreover have "timers (detach g s) = timers s @ [?own]" "clock_secs (detach g s) = clock_secs s"
    by (simp_all add: detach_def)
  ultimately show ?thesis by (simp add: fire_timers_eq s1_def)
qed

text \<open>C6: An operation's guard can only end its own registration. Once the same execution id has been
  registered again, whatever ran in between, dropping the old guard changes nothing; finishing it, with
  its timeout or not, leaves the registry as it would be without, however much time passes afterwards;
  and whatever timers the old guard set before, the task that is registered now is removed by the
  passing of time only when a timer of its own registration is due.\<close>

theorem stale_guard_harmless:
  assumes "register_task_with_completion_tracking eid md remember s = (g1, s1)" "rq_steps s1 s2"
    and "register_task_with_completion_tracking eid md' remember' s2 = (g2, s3)" "rq_steps s3 s4"
  shows "drop_guard g1 s4 = s4 \<and>
    inner (fire_timers dt (finish_with_late_cancel g1 timed_out keep s4)) = inner (fire_timers dt s4) \<and>
    completed (fire_timers dt (finish_with_late_cancel g1 timed_out keep s4)) = completed (fire_timers dt s4) \<and>
    completed_channels (fire_timers dt (finish_with_late_cancel g1 timed_out keep s4)) =
      completed_channels (fire_timers dt s4) \<and>
    (hm_get (inner s4) eid = Some task \<and>
     (\<forall>t. (t, eid, registration_id task) \<in> set (timers s4) \<longrightarrow> clock_secs s4 + dt < t) \<longrightarrow>
     registration_id task \<noteq> guard_registration_id g1 \<and> hm_get (inner (fire_timers dt s4)) eid = Some task)"
proof -
  let ?n = "guard_registration_id g1"
  have eid: "execution_id g1 = eid" using register_fields(1) [OF assms(1)] .
  have "?n \<le> next_registration_id s2"
    using register_fields [OF assms(1)] steps_monotone [OF assms(2)] by simp
  then have "newer ?n eid s3" using register_fields [OF assms(3)] by (simp add: newer_def)
  then have newer: "newer ?n eid s4" using newer_steps [OF assms(4)] by simp
  then have drop: "drop_guard g1 s4 = s4"
    unfolding drop_guard_def eid by (intro remove_stale) (auto simp: newer_def)
  moreover have "hm_get (inner s4) eid = Some task \<Longrightarrow> registration_id task \<noteq> ?n"
    using newer by (auto simp: newer_def)
  ultimately show ?thesis
    using stale_detach_harmless [of g1 s4 dt] newer fire_timers_keeps [of s4 eid task dt]
    by (simp add: finish_with_late_cancel_def eid)
qed

theorem stale_guard_harmless_witness:
  "let s2 = detach \<lparr>execution_id = ''q'', guard_registration_id = 1\<rparr> (demo_queries True);
       s3 = snd (register_task_with_completion_tracking ''q'' default_metadata False s2)
   in drop_guard \<lparr>execution_id = ''q'', guard_registration_id = 1\<rparr> s3 = s3 \<and> timers s3 = [(1800, ''q'', 1)] \<and>
     hm_get (inner (fire_timers 3600 s3)) ''q'' = hm_get (inner s3) ''q'' \<and> hm_get (inner s3) ''q'' \<noteq> None"
proof -
  let ?g = "\<lparr>execution_id = ''q'', guard_registration_id = 1\<rparr>"
  let ?s2 = "detach ?g (demo_queries True)"
  let ?s3 = "snd (register_task_with_completion_tracking ''q'' default_metadata False ?s2)"
  let ?t = "\<lparr>registration_id = 2, remember_completion = False, metadata = default_metadata, pool_key = None, interrupt = None\<rparr>"
  have 1: "register_task_with_completion_tracking ''q'' (query_metadata ''c1'' ''db'' None) True empty_queries =
      (?g, demo_queries True)"
    by (simp add: demo_defs)
  have 2: "rq_steps (demo_queries True) ?s2" by (rule rq_steps.step [OF rq_steps.refl rq_step.detach])
  have 3: "hm_get (inner ?s3) ''q'' = Some ?t" "timers ?s3 = [(1800, ''q'', 1)]"
    by (simp_all add: demo_defs detach_def detached_registration_grace_period_def)
  then have own: "\<forall>t. (t, ''q'', registration_id ?t) \<in> set (timers ?s3) \<longrightarrow> clock_secs ?s3 + 3600 < t" by simp
  note harmless = stale_guard_harmless [OF 1 2 prod.collapse [symmetric] rq_steps.refl, of default_metadata False
      3600 False False ?t]
  have "drop_guard ?g ?s3 = ?s3" using harmless by (rule conjunct1)
  moreover have "hm_get (inner (fire_timers 3600 ?s3)) ''q'' = Some ?t"
    using harmless 3(1) own by (elim conjE impE) (intro conjI, assumption+)
  ultimately show ?thesis unfolding Let_def 3 by (intro conjI) (simp_all only: option.distinct not_False_eq_True)
qed

text \<open>C27: In every interleaving an interrupt handle is run at most once, and a handle that has been run
  is no longer held by any task.\<close>

theorem interrupt_runs_at_most_once:
  assumes "rq_steps empty_queries s"
  shows "distinct (fired s) \<and>
    (hm_get (inner s) eid = Some task \<and> interrupt task = Some f \<longrightarrow> f \<notin> set (fired s))"
  using rq_inv_steps [OF assms rq_inv_empty] rq_invD(4) [of s eid task f] by (auto simp: rq_inv_def)

theorem interrupt_runs_at_most_once_witness:
  "let s = snd (cancel ''q'' (register_interrupt ''q'' 7 (demo_queries False)))
   in distinct (fired s) \<and> fired s = [7]"
proof -
  have "rq_step (demo_queries False) (register_interrupt ''q'' 7 (demo_queries False))"
    by (rule rq_step.interrupt) (auto simp: demo_defs split: if_splits)
  then have "rq_steps empty_queries (register_interrupt ''q'' 7 (demo_queries False))"
    by (rule rq_steps.step [OF demo_steps])
  then have "rq_steps empty_queries (snd (cancel ''q'' (register_interrupt ''q'' 7 (demo_queries False))))"
    by (rule rq_steps.step) (rule rq_step.cancel)
  from interrupt_runs_at_most_once [OF this] show ?thesis by (simp add: demo_defs)
qed

text \<open>An interrupt that arrives after its task was cancelled is run at once and never stored, whether
  the task was removed or kept for terminal confirmation.\<close>

lemma late_interrupt_runs_at_once:
  assumes "cancel eid s = (True, t)"
  shows "fired (register_interrupt eid f t) = fired t @ [f] \<and>
    inner (register_interrupt eid f t) = inner t"
  using assms
  by (auto simp: cancel_def register_interrupt_def Let_def split: option.splits if_splits)


text \<open>\<open>cancel_and_wait\<close> reports a terminal state only when the registration it cancelled has really
  ended: no task with that registration is running any more.\<close>

lemma terminal_report_is_true:
  assumes "rq_inv s" "hm_get (inner s) eid = Some task" "\<And>x. rq_steps x (meanwhile x)"
    and "cancel_and_wait eid meanwhile s = (r, s')" "terminal r" "hm_get (inner s') e = Some t"
  shows "registration_id t \<noteq> registration_id task"
proof -
  obtain s1 where c: "cancel eid s = (True, s1)"
    using cancel_get(2) [of eid s] assms(2) by (cases "cancel eid s") simp
  then have s': "s' = meanwhile s1" "registration_id task \<in> completed_channels s'"
    using assms(2,4,5) by (auto simp: cancel_and_wait_def Let_def)
  have "rq_inv s1" using rq_inv_cancel [OF assms(1), of eid] c by simp
  then have "rq_inv s'" using rq_inv_steps assms(3) s'(1) by blast
  from rq_invD(2) [OF this assms(6)] s'(2) show ?thesis by auto
qed

text \<open>Cancelling by connection, session or owner cancels exactly the matching tasks: each one's token
  is cancelled, the count is their number, and every other registration is untouched.\<close>

lemma cancel_matching_exact:
  assumes "rq_inv s" "cancel_matching p s = (n, s')"
  shows "n = length (filter (p \<circ> snd) (inner s)) \<and>
    (hm_get (inner s) eid = Some task \<longrightarrow>
       (if p task then registration_id task \<in> cancelled_tokens s'
        else hm_get (inner s') eid = Some task))"
proof -
  let ?eids = "map fst (filter (\<lambda>(_, task). p task) (inner s))"
  have wf: "hm_wf (inner s)" using assms(1) by (simp add: rq_inv_def)
  have mem: "e \<in> set ?eids \<longleftrightarrow> (\<exists>task. hm_get (inner s) e = Some task \<and> p task)" for e
    using wf by (force simp: map_of_eq_Some_iff)
  have "distinct ?eids" using wf by (metis distinct_map_filter)
  with assms(2) have eff: "n = length ?eids \<and> cancelled_tokens s \<subseteq> cancelled_tokens s' \<and>
    (\<forall>e\<in>set ?eids. registration_id (the (hm_get (inner s) e)) \<in> cancelled_tokens s') \<and>
    (\<forall>e. e \<notin> set ?eids \<longrightarrow> hm_get (inner s') e = hm_get (inner s) e)"
    unfolding cancel_matching_def by (intro cancel_ids_effect) (auto simp: mem simp del: set_map)
  have "length ?eids = length (filter (p \<circ> snd) (inner s))"
    by (simp add: case_prod_unfold comp_def)
  with eff show ?thesis using mem [of eid] by (auto simp del: set_map)
qed


end
