(* ===== verification/Write_Unlock.thy ===== *)
theory Write_Unlock
  imports Rust_Prelude
begin

text \<open>
  The temporary write-unlock windows of \<open>write_unlock.rs\<close>. A window is the instant, in
  milliseconds, at which it ends, under the owner of the session and the connection. The owner
  that the task-local credential scope gives is an argument, as is the instant that the clock
  shows. \<open>remaining_ms\<close> reads under the read lock and removes an expired window later, under the
  write lock; \<open>remaining_ms_from\<close> is that second part, so that an interleaving is a composition.
\<close>

section \<open>Model\<close>

definition write_unlock_one_minute_secs :: nat where "write_unlock_one_minute_secs = 60"
definition write_unlock_five_minutes_secs :: nat where "write_unlock_five_minutes_secs = 300"

record write_unlock_key =
  key_owner :: string
  key_connection :: string

type_synonym windows = "write_unlock_key \<rightharpoonup> nat"

definition current_key :: "string option \<Rightarrow> string \<Rightarrow> write_unlock_key" where
  "current_key owner conn =
     \<lparr>key_owner = (case owner of None \<Rightarrow> [] | Some o' \<Rightarrow> o'), key_connection = conn\<rparr>"

definition parse_duration_secs :: "nat \<Rightarrow> nat result" where
  "parse_duration_secs secs =
     (if secs = write_unlock_one_minute_secs then Ok write_unlock_one_minute_secs
      else if secs = write_unlock_five_minutes_secs then Ok write_unlock_five_minutes_secs
      else Err ''Write unlock duration must be 1 minute or 5 minutes.'')"

definition unlock :: "string option \<Rightarrow> nat \<Rightarrow> string \<Rightarrow> nat \<Rightarrow> (windows, nat) io" where
  "unlock owner now conn secs =
     (if trim conn = [] then io_err ''Connection id is required.''
      else io_bind (io_lift (parse_duration_secs secs)) (\<lambda>d w.
             (Ok (d * 1000), w(current_key owner conn \<mapsto> now + d * 1000))))"

definition lock :: "string option \<Rightarrow> string \<Rightarrow> windows \<Rightarrow> windows" where
  "lock owner conn w = w(current_key owner conn := None)"

definition remaining_ms_from :: "nat \<Rightarrow> nat \<Rightarrow> write_unlock_key \<Rightarrow> windows \<Rightarrow> nat \<times> windows" where
  "remaining_ms_from expires_at now key w =
     (if now \<ge> expires_at then (0, w(key := None)) else (expires_at - now, w))"

definition remaining_ms :: "string option \<Rightarrow> nat \<Rightarrow> string \<Rightarrow> windows \<Rightarrow> nat \<times> windows" where
  "remaining_ms owner now conn w =
     (let key = current_key owner conn in
      case w key of
        None \<Rightarrow> (0, w)
      | Some expires_at \<Rightarrow> remaining_ms_from expires_at now key w)"

definition is_active :: "string option \<Rightarrow> nat \<Rightarrow> string \<Rightarrow> windows \<Rightarrow> bool \<times> windows" where
  "is_active owner now conn w = (case remaining_ms owner now conn w of (r, w') \<Rightarrow> (r > 0, w'))"

section \<open>Properties\<close>

text \<open>An unlock opens a window of exactly one or five minutes for its owner and connection, and for
  no other: the window is active until, and not from, the end of that time; every other owner or
  connection sees what it saw before.\<close>

lemma unlock_window_exact:
  assumes "unlock owner now conn secs w = (Ok ms, w')" "now \<le> t"
  shows "ms \<in> {60000, 300000} \<and>
    fst (remaining_ms owner t conn w') = now + ms - t \<and>
    (fst (is_active owner t conn w') \<longleftrightarrow> t < now + ms) \<and>
    (current_key owner' conn' \<noteq> current_key owner conn \<longrightarrow>
       fst (remaining_ms owner' t conn' w') = fst (remaining_ms owner' t conn' w))"
  using assms
  by (auto simp: unlock_def parse_duration_secs_def write_unlock_one_minute_secs_def
      write_unlock_five_minutes_secs_def remaining_ms_def remaining_ms_from_def is_active_def
      io_bind_def Let_def split: if_splits option.splits)

text \<open>The check of an expired window races with a new unlock: when the check has read the expired
  window and the same session unlocks before the check removes it, the removal deletes the new
  window, and writes are refused although the unlock was confirmed.\<close>

lemma expiry_check_drops_new_window:
  assumes "w (current_key owner conn) = Some expires_at" "expires_at \<le> now"
    and "unlock owner now conn secs w = (Ok ms, w')"
  shows "fst (is_active owner now conn
    (snd (remaining_ms_from expires_at now (current_key owner conn) w'))) = False"
  using assms by (simp add: remaining_ms_from_def is_active_def remaining_ms_def)

end
