(* ===== verification/Config_Tags.thy ===== *)
theory Config_Tags
  imports Json
begin

text \<open>
  Business tags of layered configurations (\<open>config/tag.rs\<close>): the whitelist of inheritable keys,
  the validation of a list of tags, and the guard that keeps statistics of what it validated.
\<close>

datatype tag_policy = Allow | Block | Strict

record business_tag =
  tag_key :: string
  tag_value :: string
  tag_description :: string
  immutable :: bool

record tag_whitelist =
  allowed_keys :: "string set"
  default_policy :: tag_policy

definition whitelist_default :: tag_whitelist where
  "whitelist_default = \<lparr>allowed_keys = {}, default_policy = Block\<rparr>"

definition whitelist_new :: "string list \<Rightarrow> tag_policy \<Rightarrow> tag_whitelist" where
  "whitelist_new allowed policy = \<lparr>allowed_keys = set allowed, default_policy = policy\<rparr>"

definition is_allowed :: "tag_whitelist \<Rightarrow> string \<Rightarrow> bool" where
  "is_allowed wl key =
     (case default_policy wl of
        Allow \<Rightarrow> True
      | Block \<Rightarrow> key \<in> allowed_keys wl
      | Strict \<Rightarrow> key \<in> allowed_keys wl)"

record tag_validation_result =
  allowed :: "business_tag list"
  blocked :: "business_tag list"
  violations :: "string list"

record tag_validator =
  whitelist :: tag_whitelist
  strict_mode :: bool

definition blocked_message :: "tag_validator \<Rightarrow> business_tag \<Rightarrow> string" where
  "blocked_message v tag =
     ''BLOCKED: Tag '' @ [CHR 0x27] @ tag_key tag @ [CHR 0x27, CHR ''='', CHR 0x27] @ tag_value tag @
     [CHR 0x27] @ '' is not in whitelist'' @ (if strict_mode v then '' (strict mode)'' else [])"

definition strict_message :: "business_tag \<Rightarrow> string \<Rightarrow> string" where
  "strict_message tag base =
     ''STRICT VIOLATION: Tag '' @ [CHR 0x27] @ tag_key tag @ [CHR 0x27, CHR ''='', CHR 0x27] @ tag_value tag @
     [CHR 0x27] @ '' differs from base value '' @ [CHR 0x27] @ base @ [CHR 0x27]"

fun validate_step ::
    "tag_validator \<Rightarrow> (string \<rightharpoonup> string) \<Rightarrow> business_tag \<Rightarrow> tag_validation_result \<Rightarrow> tag_validation_result" where
  "validate_step v base tag r =
     (if \<not> is_allowed (whitelist v) (tag_key tag)
      then r\<lparr>blocked := blocked r @ [tag], violations := violations r @ [blocked_message v tag]\<rparr>
      else let r1 = (case base (tag_key tag) of
               Some base_val \<Rightarrow>
                 if tag_value tag \<noteq> base_val \<and> strict_mode v
                 then r\<lparr>violations := violations r @ [strict_message tag base_val]\<rparr> else r
             | None \<Rightarrow> r)
           in r1\<lparr>allowed := allowed r1 @ [tag]\<rparr>)"

definition validate_tags ::
    "tag_validator \<Rightarrow> business_tag list \<Rightarrow> (string \<rightharpoonup> string) \<Rightarrow> tag_validation_result" where
  "validate_tags v tags base =
     fold (validate_step v base) tags \<lparr>allowed = [], blocked = [], violations = []\<rparr>"

definition has_blocking_violations :: "tag_validator \<Rightarrow> tag_validation_result \<Rightarrow> bool" where
  "has_blocking_violations v r = (if strict_mode v then violations r \<noteq> [] else blocked r \<noteq> [])"

record block_stats =
  total_tags :: nat
  blocked_count :: nat
  violation_count :: nat
  by_key :: "(string, nat) hash_map"
  stats_strict :: bool

text \<open>\<open>*m.entry(k).or_insert(0) += 1\<close>\<close>

definition hm_count :: "'k \<Rightarrow> ('k, nat) hash_map \<Rightarrow> ('k, nat) hash_map" where
  "hm_count k m = hm_insert k ((case hm_get m k of None \<Rightarrow> 0 | Some n \<Rightarrow> n) + 1) m"

definition from_validation :: "tag_validation_result \<Rightarrow> bool \<Rightarrow> block_stats" where
  "from_validation r strict =
     \<lparr>total_tags = length (allowed r) + length (blocked r), blocked_count = length (blocked r),
      violation_count = length (violations r), by_key = fold (\<lambda>tag. hm_count (tag_key tag)) (blocked r) [],
      stats_strict = strict\<rparr>"

record tag_guard =
  validator :: tag_validator
  stats :: "block_stats list"

definition guard_new :: "tag_validator \<Rightarrow> tag_guard" where
  "guard_new v = \<lparr>validator = v, stats = []\<rparr>"

definition validate_and_collect ::
    "tag_guard \<Rightarrow> business_tag list \<Rightarrow> (string \<rightharpoonup> string) \<Rightarrow> tag_validation_result \<times> tag_guard" where
  "validate_and_collect g tags base =
     (let r = validate_tags (validator g) tags base
      in (r, g\<lparr>stats := stats g @ [from_validation r (strict_mode (validator g))]\<rparr>))"

definition accumulated_stats :: "tag_guard \<Rightarrow> block_stats list" where
  "accumulated_stats g = stats g"

definition blocking_summary :: "tag_guard \<Rightarrow> nat \<times> nat \<times> nat" where
  "blocking_summary g =
     (let st = accumulated_stats g
      in (sum_list (map blocked_count st), sum_list (map violation_count st), sum_list (map total_tags st)))"

section \<open>Lemmas\<close>

definition conflicts :: "tag_validator \<Rightarrow> (string \<rightharpoonup> string) \<Rightarrow> business_tag \<Rightarrow> bool" where
  "conflicts v base tag \<longleftrightarrow> strict_mode v \<and> is_allowed (whitelist v) (tag_key tag) \<and>
     (\<exists>b. base (tag_key tag) = Some b \<and> tag_value tag \<noteq> b)"

lemma validate_fold:
  "let r' = fold (validate_step v base) tags r in
     allowed r' = allowed r @ filter (\<lambda>t. is_allowed (whitelist v) (tag_key t)) tags \<and>
     blocked r' = blocked r @ filter (\<lambda>t. \<not> is_allowed (whitelist v) (tag_key t)) tags \<and>
     length (violations r') = length (violations r) +
       length (filter (\<lambda>t. \<not> is_allowed (whitelist v) (tag_key t) \<or> conflicts v base t) tags)"
proof (induction tags arbitrary: r)
  case (Cons t tags)
  show ?case
    using Cons.IH [of "validate_step v base t r"]
    by (auto simp: Let_def conflicts_def split: option.splits if_splits)
qed simp

lemma validate_tags_spec:
  "allowed (validate_tags v tags base) = filter (\<lambda>t. is_allowed (whitelist v) (tag_key t)) tags"
  "blocked (validate_tags v tags base) = filter (\<lambda>t. \<not> is_allowed (whitelist v) (tag_key t)) tags"
  "length (violations (validate_tags v tags base)) =
     length (filter (\<lambda>t. \<not> is_allowed (whitelist v) (tag_key t) \<or> conflicts v base t) tags)"
  using validate_fold [of v base tags "\<lparr>allowed = [], blocked = [], violations = []\<rparr>"]
  by (simp_all add: validate_tags_def Let_def)

lemma has_blocking_spec:
  "has_blocking_violations v (validate_tags v tags base) \<longleftrightarrow>
     list_ex (\<lambda>t. \<not> is_allowed (whitelist v) (tag_key t) \<or> conflicts v base t) tags"
proof -
  have violations: "violations (validate_tags v tags base) = [] \<longleftrightarrow>
      filter (\<lambda>t. \<not> is_allowed (whitelist v) (tag_key t) \<or> conflicts v base t) tags = []"
    using validate_tags_spec(3) [of v tags base] by (metis length_0_conv)
  show ?thesis
    by (cases "strict_mode v")
      (auto simp: has_blocking_violations_def violations validate_tags_spec(2) conflicts_def
        filter_empty_conv list_ex_iff)
qed

text \<open>With no base values a strict validator blocks what a lenient one blocks.\<close>

lemma has_blocking_no_base:
  "has_blocking_violations v (validate_tags v tags Map.empty) \<longleftrightarrow>
     (\<exists>t\<in>set tags. \<not> is_allowed (whitelist v) (tag_key t))"
  by (auto simp: has_blocking_spec conflicts_def list_ex_iff)

end
