(* ===== verification/Config_Layer.thy ===== *)
theory Config_Layer
  imports Config_Tags
begin

text \<open>
  Layered configuration (\<open>config/layer.rs\<close>): layers with their values, tags and priority, the
  merge of a tree of layers with the provenance of each value, the merge under a tag guard, and
  the validation of a tree.
\<close>

datatype config_layer = Global | Team | Project | Env | Task

fun layer_priority :: "config_layer \<Rightarrow> 8 word" where
  "layer_priority Global = 0"
| "layer_priority Team = 1"
| "layer_priority Project = 2"
| "layer_priority Env = 3"
| "layer_priority Task = 4"

fun layer_label :: "config_layer \<Rightarrow> string" where
  "layer_label Global = ''global''"
| "layer_label Team = ''team''"
| "layer_label Project = ''project''"
| "layer_label Env = ''env''"
| "layer_label Task = ''task''"

definition layer_all :: "config_layer list" where
  "layer_all = [Global, Team, Project, Env, Task]"

record layer_config =
  lc_layer :: config_layer
  lc_name :: string
  lc_description :: string
  lc_values :: "(string, json) hash_map"
  lc_tags :: "(string, string) hash_map"
  lc_enabled :: bool
  lc_priority_override :: "8 word option"
  lc_metadata :: "(string, string) hash_map"

definition layer_config_default :: layer_config where
  "layer_config_default =
     \<lparr>lc_layer = Global, lc_name = [], lc_description = [], lc_values = [], lc_tags = [],
      lc_enabled = True, lc_priority_override = None, lc_metadata = []\<rparr>"

definition effective_priority :: "layer_config \<Rightarrow> 8 word" where
  "effective_priority l =
     (case lc_priority_override l of Some p \<Rightarrow> p | None \<Rightarrow> layer_priority (lc_layer l))"

record merged_config =
  mc_values :: "(string, json) hash_map"
  mc_tags :: "(string, string) hash_map"
  mc_provenance :: "(string, config_layer) hash_map"

type_synonym config_tree = "layer_config list"

definition tree_new :: config_tree where
  "tree_new = []"

definition add_layer :: "config_tree \<Rightarrow> layer_config \<Rightarrow> config_tree" where
  "add_layer t l = t @ [l]"

definition hm_extend :: "('k, 'v) hash_map \<Rightarrow> ('k \<times> 'v) list \<Rightarrow> ('k, 'v) hash_map" where
  "hm_extend m kvs = fold (\<lambda>(k, v) m. hm_insert k v m) kvs m"

definition merge_layer :: "layer_config \<Rightarrow> merged_config \<Rightarrow> merged_config" where
  "merge_layer l m =
     \<lparr>mc_values = hm_extend (mc_values m) (lc_values l),
      mc_tags = hm_extend (mc_tags m) (lc_tags l),
      mc_provenance = hm_extend (mc_provenance m) (map (\<lambda>(k, v). (k, lc_layer l)) (lc_values l))\<rparr>"

definition merge_tree :: "config_tree \<Rightarrow> merged_config result" where
  "merge_tree t =
     (let sorted = sort_key effective_priority (filter lc_enabled t)
      in Ok (fold merge_layer sorted \<lparr>mc_values = [], mc_tags = [], mc_provenance = []\<rparr>))"

definition merge_with_guard :: "config_tree \<Rightarrow> tag_guard \<Rightarrow> merged_config result \<times> tag_guard" where
  "merge_with_guard t g =
     (case merge_tree t of
        Err e \<Rightarrow> (Err e, g)
      | Ok merged \<Rightarrow>
          let tags = map (\<lambda>(k, v). \<lparr>tag_key = k, tag_value = v, tag_description = [], immutable = False\<rparr>)
                (mc_tags merged);
              (r, g') = validate_and_collect g tags Map.empty
          in if has_blocking_violations (validator g') r
             then let (blocked, violations, total) = blocking_summary g'
                  in (Err (''Tag guard blocked config merge: '' @ show_nat blocked @ '' tags blocked, '' @
                        show_nat violations @ '' violations''), g')
             else (Ok merged, g'))"

record validation =
  va_errors :: "string list"
  va_seen :: "(string, nat) hash_map"

definition quote :: "string \<Rightarrow> string" where
  "quote s = [CHR 0x27] @ s @ [CHR 0x27]"

definition validate_key :: "nat \<Rightarrow> string \<Rightarrow> validation \<Rightarrow> validation" where
  "validate_key i key va =
     (case hm_get (va_seen va) key of
        Some prev \<Rightarrow> va\<lparr>va_errors := va_errors va @ [''Key '' @ quote key @
            '' defined in multiple layers (index '' @ show_nat prev @ '' and '' @ show_nat i @ '')'']\<rparr>
      | None \<Rightarrow> va\<lparr>va_seen := hm_insert key i (va_seen va)\<rparr>)"

definition validate_layer :: "nat \<times> layer_config \<Rightarrow> validation \<Rightarrow> validation" where
  "validate_layer = (\<lambda>(i, l) va.
     let va1 = (if lc_name l = []
           then va\<lparr>va_errors := va_errors va @ [''Layer at index '' @ show_nat i @ '' has empty name'']\<rparr>
           else va);
         va2 = (if lc_values l = [] \<and> lc_tags l = []
           then va1\<lparr>va_errors := va_errors va1 @ [''Layer '' @ quote (lc_name l) @ '' ('' @
                  layer_label (lc_layer l) @ '') has no values or tags'']\<rparr>
           else va1)
     in fold (validate_key i) (map fst (lc_values l)) va2)"

definition validate_tree :: "config_tree \<Rightarrow> string list + unit" where
  "validate_tree t =
     (let va = fold validate_layer (List.enumerate 0 t) \<lparr>va_errors = [], va_seen = []\<rparr>
      in if va_errors va = [] then Inr () else Inl (va_errors va))"

section \<open>Lemmas\<close>

definition tree_wf :: "config_tree \<Rightarrow> bool" where
  "tree_wf t \<longleftrightarrow> list_all (\<lambda>l. hm_wf (lc_values l) \<and> hm_wf (lc_tags l)) t"

text \<open>The reference: among the enabled layers that define a key, the last one of the greatest priority.\<close>

definition winner :: "(layer_config \<Rightarrow> bool) \<Rightarrow> config_tree \<Rightarrow> layer_config option" where
  "winner defines t =
     (let ds = filter (\<lambda>l. lc_enabled l \<and> defines l) t
      in if ds = [] then None
         else Some (last (filter (\<lambda>l. effective_priority l = Max (effective_priority ` set ds)) ds)))"

lemma last_filter_last: "xs \<noteq> [] \<Longrightarrow> P (last xs) \<Longrightarrow> last (filter P xs) = last xs"
  by (induction xs rule: rev_induct) auto

lemma sorted_last_Max:
  fixes f :: "'a \<Rightarrow> 'b::linorder"
  assumes "xs \<noteq> []" "sorted (map f xs)"
  shows "f (last xs) = Max (f ` set xs)"
proof (rule Max_eqI [symmetric])
  show "y \<le> f (last xs)" if "y \<in> f ` set xs" for y
    using assms that by (induction xs) auto
qed (use assms in auto)

lemma sort_key_eq_Nil: "sort_key f xs = [] \<longleftrightarrow> xs = []"
  using length_sort [of f xs] by (cases xs) auto

lemma last_sort_key:
  fixes f :: "'a \<Rightarrow> 'b::linorder"
  assumes "xs \<noteq> []"
  shows "last (sort_key f xs) = last (filter (\<lambda>x. f x = Max (f ` set xs)) xs)"
proof -
  have ne: "sort_key f xs \<noteq> []" using assms by (simp add: sort_key_eq_Nil)
  have "f (last (sort_key f xs)) = Max (f ` set (sort_key f xs))"
    by (rule sorted_last_Max) (simp_all add: ne)
  then have "last (filter (\<lambda>x. f x = Max (f ` set xs)) (sort_key f xs)) = last (sort_key f xs)"
    by (intro last_filter_last ne) simp
  then show ?thesis by (simp add: sort_key_stable)
qed

lemma map_of_rev_wf: "hm_wf kvs \<Longrightarrow> map_of (rev kvs) = map_of kvs"
  by (subst map_of_inject_set) (simp_all add: rev_map [symmetric])

lemma hm_extend_get: "hm_wf kvs \<Longrightarrow> hm_get (hm_extend m kvs) = hm_get m ++ map_of kvs"
  by (simp add: hm_extend_def hm_collect_fold map_of_rev_wf)

lemma hm_wf_hm_extend: "hm_wf m \<Longrightarrow> hm_wf (hm_extend m kvs)"
  by (simp add: hm_extend_def hm_collect_wf_fold)

lemma fold_hm_extend_get:
  assumes "\<forall>l\<in>set ls. hm_wf (g l)"
  shows "hm_get (fold (\<lambda>l m. hm_extend m (g l)) ls m0) k =
    (let ds = filter (\<lambda>l. map_of (g l) k \<noteq> None) ls
     in if ds = [] then hm_get m0 k else map_of (g (last ds)) k)"
  using assms
  by (induction ls rule: rev_induct) (auto simp: hm_extend_get Let_def map_add_def split: option.splits)

lemma fold_hm_extend_sorted:
  assumes "\<forall>l\<in>set t. hm_wf (g l)"
  shows "hm_get (fold (\<lambda>l m. hm_extend m (g l)) (sort_key effective_priority (filter lc_enabled t)) []) k =
    (case winner (\<lambda>l. map_of (g l) k \<noteq> None) t of None \<Rightarrow> None | Some l \<Rightarrow> map_of (g l) k)"
proof -
  let ?ds = "filter (\<lambda>l. lc_enabled l \<and> map_of (g l) k \<noteq> None) t"
  have wf: "\<forall>l\<in>set (sort_key effective_priority (filter lc_enabled t)). hm_wf (g l)"
    using assms by simp
  have ds: "filter (\<lambda>l. map_of (g l) k \<noteq> None) (sort_key effective_priority (filter lc_enabled t)) =
      sort_key effective_priority ?ds"
    by (simp add: filter_sort)
  show ?thesis
  proof (cases "?ds = []")
    case True
    then show ?thesis unfolding fold_hm_extend_get [OF wf] ds Let_def winner_def by simp
  next
    case False
    then show ?thesis
      unfolding fold_hm_extend_get [OF wf] ds Let_def winner_def sort_key_eq_Nil last_sort_key [OF False]
      by (simp only: if_False option.case)
  qed
qed

lemma merge_fold:
  "fold merge_layer ls m =
     \<lparr>mc_values = fold (\<lambda>l m. hm_extend m (lc_values l)) ls (mc_values m),
      mc_tags = fold (\<lambda>l m. hm_extend m (lc_tags l)) ls (mc_tags m),
      mc_provenance = fold (\<lambda>l m. hm_extend m (map (\<lambda>(k, v). (k, lc_layer l)) (lc_values l))) ls
        (mc_provenance m)\<rparr>"
  by (induction ls arbitrary: m) (simp_all add: merge_layer_def)

lemma map_of_const: "map_of (map (\<lambda>(k, v). (k, c)) kvs) k = map_option (\<lambda>_. c) (map_of kvs k)"
  by (induction kvs) auto

lemma map_fst_const: "map fst (map (\<lambda>(k, v). (k, c)) kvs) = map fst kvs"
  by (induction kvs) auto

lemma winner_None: "winner d t = None \<longleftrightarrow> (\<forall>l\<in>set t. \<not> (lc_enabled l \<and> d l))"
  by (simp add: winner_def Let_def filter_empty_conv)

lemma winner_defines:
  assumes "winner d t = Some l"
  shows "lc_enabled l \<and> d l \<and> l \<in> set t"
proof -
  define ds where "ds = filter (\<lambda>l. lc_enabled l \<and> d l) t"
  define top where "top = filter (\<lambda>l. effective_priority l = Max (effective_priority ` set ds)) ds"
  have ne: "ds \<noteq> []" and l: "l = last top"
    using assms by (auto simp: winner_def ds_def [symmetric] top_def [symmetric] Let_def split: if_splits)
  have "Max (effective_priority ` set ds) \<in> effective_priority ` set ds"
    using ne by (intro Max_in) auto
  then have "top \<noteq> []" by (auto simp: top_def filter_empty_conv)
  then have "l \<in> set ds" using l by (auto simp: top_def dest: last_in_set)
  then show ?thesis by (simp add: ds_def)
qed

lemma merge_tree_get:
  assumes "tree_wf t" "merge_tree t = Ok m"
  shows "hm_get (mc_values m) k =
      (case winner (\<lambda>l. map_of (lc_values l) k \<noteq> None) t of None \<Rightarrow> None | Some l \<Rightarrow> map_of (lc_values l) k)"
    and "hm_get (mc_tags m) k =
      (case winner (\<lambda>l. map_of (lc_tags l) k \<noteq> None) t of None \<Rightarrow> None | Some l \<Rightarrow> map_of (lc_tags l) k)"
    and "hm_get (mc_provenance m) k = map_option lc_layer (winner (\<lambda>l. map_of (lc_values l) k \<noteq> None) t)"
proof -
  let ?p = "\<lambda>l. map (\<lambda>(k, v). (k, lc_layer l)) (lc_values l)"
  have m: "m = fold merge_layer (sort_key effective_priority (filter lc_enabled t))
      \<lparr>mc_values = [], mc_tags = [], mc_provenance = []\<rparr>"
    using assms(2) by (simp add: merge_tree_def Let_def)
  have wf: "\<forall>l\<in>set t. hm_wf (lc_values l)" "\<forall>l\<in>set t. hm_wf (lc_tags l)" "\<forall>l\<in>set t. hm_wf (?p l)"
    using assms(1) by (auto simp: tree_wf_def list_all_iff map_fst_const simp del: map_map)
  show "hm_get (mc_values m) k =
      (case winner (\<lambda>l. map_of (lc_values l) k \<noteq> None) t of None \<Rightarrow> None | Some l \<Rightarrow> map_of (lc_values l) k)"
    unfolding m merge_fold by (simp only: fold_hm_extend_sorted [OF wf(1)] merged_config.simps)
  show "hm_get (mc_tags m) k =
      (case winner (\<lambda>l. map_of (lc_tags l) k \<noteq> None) t of None \<Rightarrow> None | Some l \<Rightarrow> map_of (lc_tags l) k)"
    unfolding m merge_fold by (simp only: fold_hm_extend_sorted [OF wf(2)] merged_config.simps)
  have "hm_get (mc_provenance m) k =
      (case winner (\<lambda>l. map_of (?p l) k \<noteq> None) t of None \<Rightarrow> None | Some l \<Rightarrow> map_of (?p l) k)"
    unfolding m merge_fold by (simp only: fold_hm_extend_sorted [OF wf(3)] merged_config.simps)
  moreover have "winner (\<lambda>l. map_of (?p l) k \<noteq> None) t = winner (\<lambda>l. map_of (lc_values l) k \<noteq> None) t"
    by (simp add: map_of_const)
  ultimately show "hm_get (mc_provenance m) k =
      map_option lc_layer (winner (\<lambda>l. map_of (lc_values l) k \<noteq> None) t)"
    by (auto simp: map_of_const dest: winner_defines split: option.splits)
qed

lemma merged_tag_keys:
  assumes "tree_wf t" "merge_tree t = Ok m"
  shows "k \<in> fst ` set (mc_tags m) \<longleftrightarrow> (\<exists>l\<in>set t. lc_enabled l \<and> k \<in> fst ` set (lc_tags l))"
proof -
  have dom: "k \<in> fst ` set kvs \<longleftrightarrow> map_of kvs k \<noteq> None" for kvs :: "(string, string) hash_map"
    by (simp only: map_of_eq_None_iff not_not)
  show ?thesis
  proof (cases "winner (\<lambda>l. map_of (lc_tags l) k \<noteq> None) t")
    case None
    then show ?thesis unfolding dom merge_tree_get(2) [OF assms] None using None [unfolded winner_None] by auto
  next
    case (Some l)
    then show ?thesis
      unfolding dom merge_tree_get(2) [OF assms] Some using winner_defines [OF Some] by auto
  qed
qed

lemma bind_case: "Option.bind x f = (case x of None \<Rightarrow> None | Some y \<Rightarrow> f y)"
  by (cases x) simp_all

lemma merge_with_guard_fst:
  assumes "merge_tree t = Ok m"
  shows "is_ok (fst (merge_with_guard t g)) \<longleftrightarrow>
    (\<forall>k\<in>fst ` set (mc_tags m). is_allowed (whitelist (validator g)) k)"
  by (force simp: merge_with_guard_def assms validate_and_collect_def Let_def has_blocking_no_base
      split: prod.splits if_splits)

text \<open>A tree validates when its layers are named, not empty, and define no key twice.\<close>

lemma validate_keys:
  "va_errors (fold (validate_key i) ks va) = [] \<longleftrightarrow>
     va_errors va = [] \<and> distinct ks \<and> set ks \<inter> dom (map_of (va_seen va)) = {}"
  "dom (map_of (va_seen (fold (validate_key i) ks va))) = dom (map_of (va_seen va)) \<union> set ks"
  by (induction ks arbitrary: va) (auto simp: validate_key_def split: option.splits)

abbreviation layer_keys :: "layer_config \<Rightarrow> string list" where
  "layer_keys l \<equiv> map fst (lc_values l)"

abbreviation named_and_used :: "layer_config \<Rightarrow> bool" where
  "named_and_used l \<equiv> lc_name l \<noteq> [] \<and> (lc_values l \<noteq> [] \<or> lc_tags l \<noteq> [])"

lemma validate_one_layer:
  "va_errors (validate_layer (i, l) va) = [] \<longleftrightarrow>
     va_errors va = [] \<and> named_and_used l \<and> distinct (layer_keys l) \<and>
     set (layer_keys l) \<inter> dom (map_of (va_seen va)) = {}"
  "dom (map_of (va_seen (validate_layer (i, l) va))) = dom (map_of (va_seen va)) \<union> set (layer_keys l)"
  by (auto simp: validate_layer_def validate_keys Let_def)

lemma validate_layers:
  "va_errors (fold validate_layer (List.enumerate n t) va) = [] \<longleftrightarrow>
     va_errors va = [] \<and> list_all named_and_used t \<and> distinct (concat (map layer_keys t)) \<and>
     set (concat (map layer_keys t)) \<inter> dom (map_of (va_seen va)) = {}"
proof (induction t arbitrary: n va)
  case (Cons l t)
  have split: "distinct (concat (map layer_keys (l # t))) \<longleftrightarrow>
      distinct (layer_keys l) \<and> distinct (concat (map layer_keys t)) \<and>
      set (layer_keys l) \<inter> set (concat (map layer_keys t)) = {}"
    "set (concat (map layer_keys (l # t))) = set (layer_keys l) \<union> set (concat (map layer_keys t))"
    by simp_all
  show ?case
    unfolding enumerate_simps fold_simps comp_def Cons.IH validate_one_layer split list.pred_inject by blast
qed simp

lemma validate_tree_ok:
  "validate_tree t = Inr () \<longleftrightarrow> list_all named_and_used t \<and> distinct (concat (map layer_keys t))"
  by (simp add: validate_tree_def Let_def validate_layers)

section \<open>Properties\<close>

text \<open>C16: A merge gives every key the value, the tag and the provenance of one layer: among the enabled
  layers that define the key, the last one of the greatest effective priority; a key no enabled
  layer defines is absent. The fold of overwriting insertions over a stable sort is equivalent to
  this choice by priority.\<close>

theorem merge_highest_priority_wins:
  assumes "tree_wf t"
  shows "\<exists>m. merge_tree t = Ok m \<and>
    (\<forall>k. hm_get (mc_values m) k =
         Option.bind (winner (\<lambda>l. map_of (lc_values l) k \<noteq> None) t) (\<lambda>l. map_of (lc_values l) k) \<and>
       hm_get (mc_provenance m) k = map_option lc_layer (winner (\<lambda>l. map_of (lc_values l) k \<noteq> None) t) \<and>
       hm_get (mc_tags m) k =
         Option.bind (winner (\<lambda>l. map_of (lc_tags l) k \<noteq> None) t) (\<lambda>l. map_of (lc_tags l) k))"
proof -
  obtain m where m: "merge_tree t = Ok m" by (simp add: merge_tree_def Let_def)
  show ?thesis
    using m merge_tree_get [OF assms m] by (simp add: bind_case)
qed

text \<open>A guarded merge is refused exactly when some enabled layer carries a tag whose key the
  whitelist does not allow. The values of tags play no part, whether the validator is strict or
  not: the guard compares them with an empty table of base values.\<close>

lemma guard_checks_keys_only:
  assumes "tree_wf t"
  shows "is_ok (fst (merge_with_guard t g)) \<longleftrightarrow>
    (\<forall>l\<in>set t. lc_enabled l \<longrightarrow> list_all (is_allowed (whitelist (validator g))) (map fst (lc_tags l)))"
proof -
  obtain m where m: "merge_tree t = Ok m" by (simp add: merge_tree_def Let_def)
  show ?thesis
    unfolding merge_with_guard_fst [OF m] list_all_iff set_map Ball_def merged_tag_keys [OF assms m]
    by blast
qed

definition sample_tree :: config_tree where
  "sample_tree =
     [layer_config_default\<lparr>lc_layer := Task, lc_name := ''t'', lc_values := [(''x'', JBool True)]\<rparr>,
      layer_config_default\<lparr>lc_name := ''g'', lc_values := [(''x'', JNull), (''y'', JNull)],
        lc_tags := [(''team'', ''a'')]\<rparr>]"

theorem merge_highest_priority_wins_witness:
  "tree_wf sample_tree \<and>
   (\<exists>m. merge_tree sample_tree = Ok m \<and> hm_get (mc_values m) ''x'' = Some (JBool True) \<and>
      hm_get (mc_provenance m) ''x'' = Some Task \<and> hm_get (mc_values m) ''y'' = Some JNull)"
proof -
  have wf: "tree_wf sample_tree" by (simp add: sample_tree_def tree_wf_def layer_config_default_def)
  have x: "winner (\<lambda>l. map_of (lc_values l) ''x'' \<noteq> None) sample_tree = Some (sample_tree ! 0)"
    by (simp add: winner_def sample_tree_def layer_config_default_def effective_priority_def)
  have y: "winner (\<lambda>l. map_of (lc_values l) ''y'' \<noteq> None) sample_tree = Some (sample_tree ! Suc 0)"
    by (simp add: winner_def sample_tree_def layer_config_default_def effective_priority_def)
  obtain m where m: "merge_tree sample_tree = Ok m" and
    get: "hm_get (mc_values m) k =
        Option.bind (winner (\<lambda>l. map_of (lc_values l) k \<noteq> None) sample_tree) (\<lambda>l. map_of (lc_values l) k)"
      "hm_get (mc_provenance m) k =
        map_option lc_layer (winner (\<lambda>l. map_of (lc_values l) k \<noteq> None) sample_tree)" for k
    using merge_highest_priority_wins [OF wf] by auto
  have at: "sample_tree ! 0 = layer_config_default
      \<lparr>lc_layer := Task, lc_name := ''t'', lc_values := [(''x'', JBool True)]\<rparr>"
    "lc_values (sample_tree ! Suc 0) = [(''x'', JNull), (''y'', JNull)]"
    by (simp_all add: sample_tree_def)
  show ?thesis
    using wf m get [of "''x''", unfolded x] get [of "''y''", unfolded y] by (simp add: at)
qed

text \<open>A strict guard that allows the key lets any value through; one that does not refuses the merge.\<close>

end
