(* ===== verification/Config_Expression.thy ===== *)
theory Config_Expression
  imports Config_Layer
begin

text \<open>
  Expressions in configuration values (\<open>config/expression.rs\<close>): \<open>${env:..}\<close>, \<open>${ref:..}\<close>
  and \<open>${eval:..}\<close>, their parsing and their resolution in a whole configuration.

  \<open>env\<close> is the environment of the process, \<open>None\<close> where \<open>std::env::var\<close> fails.
  \<open>f64_number\<close> is the decimal text of the JSON number for a finite double that a string
  parses as; rounding and printing of doubles are left to the argument. A slice of a string that
  would panic makes the result \<open>None\<close>.
\<close>

datatype expression = EnvVar string | Ref string | Eval string | Literal string

definition str_range :: "string \<Rightarrow> nat \<Rightarrow> nat \<Rightarrow> string option" where
  "str_range s a b = Option.bind (slice_to s b) (\<lambda>p. slice_from p a)"

definition parse_expression :: "string \<Rightarrow> expression option" where
  "parse_expression input =
     (let trimmed = trim input in
      if starts_with trimmed ''${env:'' \<and> ends_with trimmed ''}''
      then map_option EnvVar (str_range trimmed 6 (str_len trimmed - 1))
      else if starts_with trimmed ''${ref:'' \<and> ends_with trimmed ''}''
      then map_option Ref (str_range trimmed 6 (str_len trimmed - 1))
      else if starts_with trimmed ''${eval:'' \<and> ends_with trimmed ''}''
      then map_option Eval (str_range trimmed 7 (str_len trimmed - 1))
      else Some (Literal input))"

definition resolve_env_var :: "(string \<Rightarrow> string option) \<Rightarrow> string \<Rightarrow> string result" where
  "resolve_env_var env name =
     (case env name of
        Some v \<Rightarrow> Ok v
      | None \<Rightarrow> Err (''Environment variable '' @ quote (CHR ''$'' # name) @ '' not set''))"

fun resolve_path :: "string \<Rightarrow> json \<Rightarrow> string list \<Rightarrow> json result" where
  "resolve_path path current [] = Ok current"
| "resolve_path path current (part # parts) =
     (case current of
        JObject m \<Rightarrow>
          (case hm_get m part of
             Some v \<Rightarrow> resolve_path path v parts
           | None \<Rightarrow> Err (''Config reference '' @ quote (CHR ''$'' # path) @ '': key '' @ quote part @ '' not found''))
      | _ \<Rightarrow> Err (''Config reference '' @ quote (CHR ''$'' # path) @ '': intermediate value is not an object''))"

definition resolve_ref :: "string \<Rightarrow> (string, json) hash_map \<Rightarrow> json result" where
  "resolve_ref path merged =
     (let parts = split_char CHR ''.'' path
      in case hm_get merged (hd parts) of
           None \<Rightarrow> Err (''Config reference '' @ quote (CHR ''$'' # path) @ '' not found in merged config'')
         | Some v \<Rightarrow> if length parts = 1 then Ok v else resolve_path path v (tl parts))"

text \<open>\<open>str::parse::<i64>\<close>: an optional sign and at least one digit, in range.\<close>

definition digits_value :: "string \<Rightarrow> int option" where
  "digits_value ds =
     (if ds \<noteq> [] \<and> list_all is_ascii_digit ds
      then Some (fold (\<lambda>c n. 10 * n + (int (code c) - 48)) ds 0) else None)"

definition in_i64 :: "int \<Rightarrow> bool" where
  "in_i64 n \<longleftrightarrow> - (2 ^ 63) \<le> n \<and> n < 2 ^ 63"

definition parse_i64 :: "string \<Rightarrow> int option" where
  "parse_i64 s =
     Option.bind
       (case s of
          [] \<Rightarrow> None
        | c # ds \<Rightarrow>
            if c = CHR ''-'' then map_option uminus (digits_value ds)
            else if c = CHR ''+'' then digits_value ds
            else digits_value s)
       (\<lambda>n. if in_i64 n then Some n else None)"

definition show_int :: "int \<Rightarrow> string" where
  "show_int n = (if n < 0 then CHR ''-'' # show_nat (nat (- n)) else show_nat (nat n))"

definition eval_simple :: "(string \<Rightarrow> string option) \<Rightarrow> string \<Rightarrow> json result option" where
  "eval_simple f64_number input =
     (let expr = trim input in
      case parse_i64 expr of
        Some v \<Rightarrow> Some (Ok (JNumber (show_int v)))
      | None \<Rightarrow>
        case f64_number expr of
          Some n \<Rightarrow> Some (Ok (JNumber n))
        | None \<Rightarrow>
          if expr = ''true'' then Some (Ok (JBool True))
          else if expr = ''false'' then Some (Ok (JBool False))
          else if expr = ''null'' then Some (Ok JNull)
          else if starts_with expr [CHR 0x22] \<and> ends_with expr [CHR 0x22] \<and> 2 \<le> str_len expr
          then map_option (\<lambda>s. Ok (JString s)) (str_range expr 1 (str_len expr - 1))
          else Some (Err (''Cannot evaluate expression: '' @ quote expr)))"

record resolve_context =
  env_var :: "string \<Rightarrow> string option"
  f64_number :: "string \<Rightarrow> string option"
  merged :: "(string, json) hash_map"

definition resolve_expression :: "resolve_context \<Rightarrow> expression \<Rightarrow> json result option" where
  "resolve_expression cx e =
     (case e of
        EnvVar name \<Rightarrow> Some (res_bind (resolve_env_var (env_var cx) name) (\<lambda>v. Ok (JString v)))
      | Ref path \<Rightarrow> Some (resolve_ref path (merged cx))
      | Eval expr \<Rightarrow> eval_simple (f64_number cx) expr
      | Literal v \<Rightarrow> Some (Ok (JString v)))"

text \<open>\<open>bind_result\<close> is the operator \<open>?\<close> where the code may also panic.\<close>

definition bind_result :: "'a result option \<Rightarrow> ('a \<Rightarrow> 'b result option) \<Rightarrow> 'b result option" where
  "bind_result r k = (case r of None \<Rightarrow> None | Some (Err e) \<Rightarrow> Some (Err e) | Some (Ok a) \<Rightarrow> k a)"

fun resolve_all_expressions_in_value :: "resolve_context \<Rightarrow> json \<Rightarrow> json result option"
and resolve_fields ::
    "resolve_context \<Rightarrow> (string \<times> json) list \<Rightarrow> (string \<times> json) list \<Rightarrow> (string \<times> json) list result option"
and resolve_items :: "resolve_context \<Rightarrow> json list \<Rightarrow> json list \<Rightarrow> json list result option" where
  "resolve_all_expressions_in_value cx (JString s) =
     Option.bind (parse_expression s) (resolve_expression cx)"
| "resolve_all_expressions_in_value cx (JObject m) =
     bind_result (resolve_fields cx m []) (\<lambda>r. Some (Ok (JObject r)))"
| "resolve_all_expressions_in_value cx (JArray a) =
     bind_result (resolve_items cx a []) (\<lambda>r. Some (Ok (JArray r)))"
| "resolve_all_expressions_in_value cx v = Some (Ok v)"
| "resolve_fields cx [] resolved = Some (Ok resolved)"
| "resolve_fields cx ((k, v) # m) resolved =
     (case resolve_all_expressions_in_value cx v of
        None \<Rightarrow> None
      | Some (Err e) \<Rightarrow> Some (Err e)
      | Some (Ok v') \<Rightarrow> resolve_fields cx m (hm_insert k v' resolved))"
| "resolve_items cx [] resolved = Some (Ok resolved)"
| "resolve_items cx (v # a) resolved =
     (case resolve_all_expressions_in_value cx v of
        None \<Rightarrow> None
      | Some (Err e) \<Rightarrow> Some (Err e)
      | Some (Ok v') \<Rightarrow> resolve_items cx a (resolved @ [v']))"

definition apply_expression_resolution ::
    "resolve_context \<Rightarrow> (string, json) hash_map \<Rightarrow> (unit result \<times> (string, json) hash_map) option" where
  "apply_expression_resolution cx config =
     (case resolve_fields cx config [] of
        None \<Rightarrow> None
      | Some (Err e) \<Rightarrow> Some (Err e, config)
      | Some (Ok resolved) \<Rightarrow> Some (Ok (), hm_extend config resolved))"

section \<open>Lemmas\<close>

lemma str_range_between:
  "str_range (p @ x @ s) (str_len p) (str_len p + str_len x) = Some x"
  using slice_to_append [of "p @ x" s] by (simp add: str_range_def slice_from_append)

lemma ends_with_iff: "ends_with s p \<longleftrightarrow> suffix p s"
  by (simp add: ends_with_def starts_with_iff suffix_to_prefix)

text \<open>A prefix and a suffix that share no character cannot overlap.\<close>

lemma prefix_suffix_split:
  assumes "prefix p s" "suffix [c] s" "c \<notin> set p"
  shows "\<exists>x. s = p @ x @ [c]"
proof -
  obtain y where y: "s = p @ y" using assms(1) by (auto simp: prefix_def)
  then show ?thesis using assms(2,3) by (cases y rule: rev_cases) (auto simp: suffix_def)
qed

lemma between_iff:
  assumes "c \<notin> set p"
  shows "starts_with s p \<and> ends_with s [c] \<longleftrightarrow> (\<exists>x. s = p @ x @ [c])"
  using prefix_suffix_split [OF _ _ assms]
  by (auto simp: starts_with_iff ends_with_iff suffix_def)

lemma str_range_inner:
  assumes "len_utf8 c = 1" "str_len p = n"
  shows "str_range (p @ x @ [c]) n (str_len (p @ x @ [c]) - 1) = Some x"
  using str_range_between [of p x "[c]"] assms by simp

lemma parse_env: "trim s = ''${env:'' @ x @ ''}'' \<Longrightarrow> parse_expression s = Some (EnvVar x)"
  using str_range_inner [of "CHR ''}''" "''${env:''" 6 x] between_iff [of "CHR ''}''" "''${env:''"]
  by (auto simp: parse_expression_def Let_def ends_with_def len_utf8_def code_def)

lemma parse_ref: "trim s = ''${ref:'' @ x @ ''}'' \<Longrightarrow> parse_expression s = Some (Ref x)"
  using str_range_inner [of "CHR ''}''" "''${ref:''" 6 x] between_iff [of "CHR ''}''" "''${ref:''"]
  by (auto simp: parse_expression_def Let_def ends_with_def len_utf8_def code_def)

lemma parse_eval: "trim s = ''${eval:'' @ x @ ''}'' \<Longrightarrow> parse_expression s = Some (Eval x)"
  using str_range_inner [of "CHR ''}''" "''${eval:''" 7 x] between_iff [of "CHR ''}''" "''${eval:''"]
  by (auto simp: parse_expression_def Let_def ends_with_def len_utf8_def code_def)

lemma parse_literal:
  assumes "\<forall>x. trim s \<noteq> ''${env:'' @ x @ ''}''" "\<forall>x. trim s \<noteq> ''${ref:'' @ x @ ''}''"
    "\<forall>x. trim s \<noteq> ''${eval:'' @ x @ ''}''"
  shows "parse_expression s = Some (Literal s)"
proof -
  have "\<not> (starts_with (trim s) ''${env:'' \<and> ends_with (trim s) ''}'')"
    "\<not> (starts_with (trim s) ''${ref:'' \<and> ends_with (trim s) ''}'')"
    "\<not> (starts_with (trim s) ''${eval:'' \<and> ends_with (trim s) ''}'')"
    using assms by (subst between_iff; simp)+
  then show ?thesis unfolding parse_expression_def Let_def by (simp only: if_False)
qed

lemma parse_expression_cases:
  obtains (env) x where "trim s = ''${env:'' @ x @ ''}''" "parse_expression s = Some (EnvVar x)"
  | (ref) x where "trim s = ''${ref:'' @ x @ ''}''" "parse_expression s = Some (Ref x)"
  | (eval) x where "trim s = ''${eval:'' @ x @ ''}''" "parse_expression s = Some (Eval x)"
  | (literal) "\<forall>x. trim s \<noteq> ''${env:'' @ x @ ''}''" "\<forall>x. trim s \<noteq> ''${ref:'' @ x @ ''}''"
      "\<forall>x. trim s \<noteq> ''${eval:'' @ x @ ''}''" "parse_expression s = Some (Literal s)"
  using parse_env [of s] parse_ref [of s] parse_eval [of s] parse_literal [of s] by blast

lemma eval_simple_total: "eval_simple pf e \<noteq> None"
proof -
  have "str_range s 1 (str_len s - 1) \<noteq> None"
    if q: "starts_with s [CHR 0x22]" "ends_with s [CHR 0x22]" and len: "2 \<le> str_len s" for s
  proof -
    obtain t where t: "s = CHR 0x22 # t" using q(1) by (auto simp: starts_with_iff prefix_def)
    have "t \<noteq> []" using len by (auto simp: t len_utf8_def code_def)
    then obtain x where "s = [CHR 0x22] @ x @ [CHR 0x22]"
      using q(2) by (cases t rule: rev_cases) (auto simp: t ends_with_iff suffix_def)
    then show ?thesis
      using str_range_inner [of "CHR 0x22" "[CHR 0x22]" 1 x] by (simp add: len_utf8_def code_def)
  qed
  then show ?thesis by (auto simp: eval_simple_def Let_def split: option.splits)
qed

lemma resolve_expression_total: "resolve_expression cx e \<noteq> None"
  using eval_simple_total by (auto simp: resolve_expression_def split: expression.splits)

lemma resolve_total:
  "resolve_all_expressions_in_value cx v \<noteq> None"
  "resolve_fields cx m fs \<noteq> None"
  "resolve_items cx a vs \<noteq> None"
proof (induction cx v and cx m fs and cx a vs
    rule: resolve_all_expressions_in_value_resolve_fields_resolve_items.induct)
  case (1 cx s)
  show ?case using resolve_expression_total by (cases s rule: parse_expression_cases) simp_all
qed (auto simp: bind_result_def split: option.splits sum.splits)

definition resolves_to :: "resolve_context \<Rightarrow> json \<Rightarrow> json \<Rightarrow> bool" where
  "resolves_to cx v v' \<longleftrightarrow> resolve_all_expressions_in_value cx v = Some (Ok v')"

lemma resolve_fields_Ok:
  assumes "resolve_fields cx m acc = Some (Ok r)" "hm_wf m"
  shows "(\<forall>k. k \<notin> fst ` set m \<longrightarrow> hm_get r k = hm_get acc k) \<and>
    (\<forall>k v. (k, v) \<in> set m \<longrightarrow> (\<exists>v'. resolves_to cx v v' \<and> hm_get r k = Some v'))"
  using assms
proof (induction m arbitrary: acc)
  case (Cons kv m)
  obtain k v where kv: "kv = (k, v)" by (rule prod.exhaust)
  obtain v' where v: "resolves_to cx v v'" and r: "resolve_fields cx m (hm_insert k v' acc) = Some (Ok r)"
    using Cons.prems(1) by (auto simp: kv resolves_to_def split: option.splits sum.splits)
  have wf: "hm_wf m" and k: "k \<notin> fst ` set m" using Cons.prems(2) by (simp_all add: kv)
  show ?case using Cons.IH [OF r wf] v k by (auto simp: kv)
qed simp

lemma resolve_fields_Err:
  assumes "resolve_fields cx m acc = Some (Err e)"
  shows "\<exists>kv\<in>set m. resolve_all_expressions_in_value cx (snd kv) = Some (Err e)"
  using assms by (induction m arbitrary: acc) (auto split: option.splits sum.splits)

lemma resolve_fields_wf: "resolve_fields cx m acc = Some (Ok r) \<Longrightarrow> hm_wf acc \<Longrightarrow> hm_wf r"
proof (induction m arbitrary: acc)
  case (Cons kv m)
  then show ?case by (cases kv) (auto split: option.splits sum.splits)
qed simp

section \<open>Properties\<close>

text \<open>Parsing an expression never panics on its byte slices, and recognises exactly the three
  wrapped forms: the inner text of the trimmed input is what stands between the prefix and the
  closing brace, and any other input is the literal it was given as, untrimmed.\<close>

lemma parse_expression_exact:
  "\<exists>e. parse_expression s = Some e \<and>
     (\<forall>x. e = EnvVar x \<longleftrightarrow> trim s = ''${env:'' @ x @ ''}'') \<and>
     (\<forall>x. e = Ref x \<longleftrightarrow> trim s = ''${ref:'' @ x @ ''}'') \<and>
     (\<forall>x. e = Eval x \<longleftrightarrow> trim s = ''${eval:'' @ x @ ''}'') \<and>
     (\<forall>x. e = Literal x \<longleftrightarrow> x = s \<and> \<not> (\<exists>y. trim s = ''${env:'' @ y @ ''}'' \<or>
        trim s = ''${ref:'' @ y @ ''}'' \<or> trim s = ''${eval:'' @ y @ ''}''))"
  by (cases s rule: parse_expression_cases) auto

text \<open>Resolving the expressions of a configuration never panics and is all or nothing: when some
  value does not resolve, its error is returned and the configuration is as it was; otherwise
  every key holds what its value resolves to against the merged configuration, and no key is
  added or lost.\<close>

lemma apply_resolution_atomic:
  assumes "hm_wf config"
  shows "\<exists>r config'. apply_expression_resolution cx config = Some (r, config') \<and>
    (case r of
       Err e \<Rightarrow> config' = config \<and>
         (\<exists>kv\<in>set config. resolve_all_expressions_in_value cx (snd kv) = Some (Err e))
     | Ok u \<Rightarrow> \<forall>k. (case hm_get config k of
           None \<Rightarrow> hm_get config' k = None
         | Some v \<Rightarrow> \<exists>v'. resolve_all_expressions_in_value cx v = Some (Ok v') \<and> hm_get config' k = Some v'))"
proof -
  obtain r where r: "resolve_fields cx config [] = Some r" using resolve_total(2) by blast
  show ?thesis
  proof (cases r)
    case (Inl e)
    then show ?thesis
      using r resolve_fields_Err [of cx config "[]" e] by (simp add: apply_expression_resolution_def)
  next
    case (Inr c)
    have c: "resolve_fields cx config [] = Some (Ok c)" using r Inr by simp
    note ok = resolve_fields_Ok [OF c assms]
    have get: "hm_get (hm_extend config c) = hm_get config ++ map_of c"
      using resolve_fields_wf [OF c] by (simp add: hm_extend_get)
    have "case hm_get config k of
           None \<Rightarrow> hm_get (hm_extend config c) k = None
         | Some v \<Rightarrow> \<exists>v'. resolve_all_expressions_in_value cx v = Some (Ok v') \<and>
             hm_get (hm_extend config c) k = Some v'" for k
    proof (cases "hm_get config k")
      case None
      then have "k \<notin> fst ` set config" by (simp add: map_of_eq_None_iff)
      then have "hm_get c k = None" using ok by simp
      then show ?thesis using None by (simp add: get)
    next
      case (Some v)
      then have "(k, v) \<in> set config" by (rule map_of_SomeD)
      then obtain v' where "resolves_to cx v v'" "hm_get c k = Some v'" using ok by blast
      then show ?thesis using Some by (auto simp: get resolves_to_def map_add_def)
    qed
    then show ?thesis by (simp add: apply_expression_resolution_def c)
  qed
qed

definition sample_context :: resolve_context where
  "sample_context =
     \<lparr>env_var = [''HOME'' \<mapsto> ''/root''], f64_number = Map.empty, merged = [(''db'', JObject [(''port'', JNull)])]\<rparr>"

end
