(* ===== verification/Config_Trace.thy ===== *)
theory Config_Trace
  imports Config_Layer
begin

text \<open>
  The trace of configuration changes (\<open>config/trace.rs\<close>): a bounded queue of entries that drops
  the oldest entry when it is full. The clock is the argument of \<open>record_entry\<close>. The abstract
  specification is the unbounded log of what was pushed since the buffer was last cleared; the
  buffer refines it to its newest entries.
\<close>

record trace_entry =
  te_timestamp :: int
  te_layer :: config_layer
  te_key :: string
  te_action :: string
  te_detail :: string

record trace_ring_buffer =
  rb_capacity :: nat
  rb_entries :: "trace_entry list"

definition rb_new :: "nat \<Rightarrow> trace_ring_buffer" where
  "rb_new c = \<lparr>rb_capacity = c, rb_entries = []\<rparr>"

definition rb_default :: trace_ring_buffer where
  "rb_default = rb_new 1000"

definition rb_push :: "trace_entry \<Rightarrow> trace_ring_buffer \<Rightarrow> trace_ring_buffer" where
  "rb_push e b =
     (let kept = (if rb_capacity b \<le> length (rb_entries b) then tl (rb_entries b) else rb_entries b)
      in b\<lparr>rb_entries := kept @ [e]\<rparr>)"

definition record_entry ::
    "int \<Rightarrow> config_layer \<Rightarrow> string \<Rightarrow> string \<Rightarrow> string \<Rightarrow> trace_ring_buffer \<Rightarrow> trace_ring_buffer" where
  "record_entry now layer key action detail b =
     rb_push \<lparr>te_timestamp = now, te_layer = layer, te_key = key, te_action = action, te_detail = detail\<rparr> b"

definition rb_len :: "trace_ring_buffer \<Rightarrow> nat" where
  "rb_len b = length (rb_entries b)"

definition rb_is_empty :: "trace_ring_buffer \<Rightarrow> bool" where
  "rb_is_empty b \<longleftrightarrow> rb_entries b = []"

definition rb_clear :: "trace_ring_buffer \<Rightarrow> trace_ring_buffer" where
  "rb_clear b = b\<lparr>rb_entries := []\<rparr>"

definition filter_by_layer :: "trace_ring_buffer \<Rightarrow> config_layer \<Rightarrow> trace_entry list" where
  "filter_by_layer b layer = filter (\<lambda>e. te_layer e = layer) (rb_entries b)"

definition filter_by_action :: "trace_ring_buffer \<Rightarrow> string \<Rightarrow> trace_entry list" where
  "filter_by_action b action = filter (\<lambda>e. te_action e = action) (rb_entries b)"

definition export_json ::
    "(trace_entry list, string) codec \<Rightarrow> trace_ring_buffer \<Rightarrow> string result" where
  "export_json c b =
     (case to_vec c (rb_entries b) of
        Ok s \<Rightarrow> Ok s
      | Err e \<Rightarrow> Err (''Failed to serialize '' @ show_nat (length (rb_entries b)) @ '' trace entries: '' @ e))"

definition recent :: "trace_ring_buffer \<Rightarrow> nat \<Rightarrow> trace_entry list" where
  "recent b n = (let n = min n (length (rb_entries b)) in take n (rev (rb_entries b)))"

record trace_stats =
  ts_total_entries :: nat
  ts_capacity :: nat
  ts_action_counts :: "(string, nat) hash_map"
  ts_layer_counts :: "(string, nat) hash_map"

definition rb_stats :: "trace_ring_buffer \<Rightarrow> trace_stats" where
  "rb_stats b =
     (let (actions, layers) =
          fold (\<lambda>e (actions, layers). (hm_count (te_action e) actions, hm_count (layer_label (te_layer e)) layers))
            (rb_entries b) ([], [])
      in \<lparr>ts_total_entries = length (rb_entries b), ts_capacity = rb_capacity b,
          ts_action_counts = actions, ts_layer_counts = layers\<rparr>)"

section \<open>Refinement of the log\<close>

datatype trace_op = Push trace_entry | Clear

fun rb_apply :: "trace_op \<Rightarrow> trace_ring_buffer \<Rightarrow> trace_ring_buffer" where
  "rb_apply (Push e) b = rb_push e b"
| "rb_apply Clear b = rb_clear b"

fun log_apply :: "trace_op \<Rightarrow> trace_entry list \<Rightarrow> trace_entry list" where
  "log_apply (Push e) es = es @ [e]"
| "log_apply Clear es = []"

definition newest :: "nat \<Rightarrow> 'a list \<Rightarrow> 'a list" where
  "newest n xs = drop (length xs - n) xs"

text \<open>A buffer of capacity 0 drops before it pushes, from an empty queue, and so holds one entry.\<close>

definition refines_log :: "nat \<Rightarrow> trace_entry list \<Rightarrow> trace_ring_buffer \<Rightarrow> bool" where
  "refines_log c es b \<longleftrightarrow> rb_capacity b = c \<and> rb_entries b = newest (max 1 c) es"

lemma length_newest: "length (newest n xs) = min n (length xs)"
  by (simp add: newest_def)

lemma newest_snoc: "0 < n \<Longrightarrow> newest n (xs @ [x]) =
    (if n \<le> length xs then tl (newest n xs) else newest n xs) @ [x]"
  by (auto simp: newest_def Suc_diff_le drop_Suc tl_drop)

lemma refines_log_step:
  assumes "refines_log c es b"
  shows "refines_log c (log_apply a es) (rb_apply a b)"
proof (cases a)
  case (Push e)
  have b: "rb_capacity b = c" "rb_entries b = newest (max 1 c) es" using assms by (simp_all add: refines_log_def)
  have len: "length (rb_entries b) = min (max 1 c) (length es)" by (simp add: b length_newest)
  have kept: "(if c \<le> length (rb_entries b) then tl (rb_entries b) else rb_entries b) =
      (if max 1 c \<le> length es then tl (rb_entries b) else rb_entries b)"
    unfolding len using len by (cases "es = []") (auto simp: min_def max_def not_less_eq_eq)
  have "newest (max 1 c) (es @ [e]) =
      (if max 1 c \<le> length es then tl (rb_entries b) else rb_entries b) @ [e]"
    unfolding b(2) by (rule newest_snoc) simp
  then show ?thesis
    unfolding Push refines_log_def rb_apply.simps rb_push_def b(1) kept Let_def by (simp add: b(1))
qed (use assms in \<open>simp add: refines_log_def rb_clear_def newest_def\<close>)

interpretation ring: simulation "refines_log c" log_apply rb_apply for c
  by unfold_locales (rule refines_log_step)

lemma take_min_length: "length ys \<le> k \<Longrightarrow> take (min n k) ys = take n ys"
  by (cases "n \<le> k") simp_all

lemma take_rev_newest: "m \<le> n \<Longrightarrow> take m (rev (newest n xs)) = take m (rev xs)"
  by (cases "m \<le> length xs") (simp_all add: newest_def rev_drop min_def)

lemma hm_count_get: "hm_get (hm_count k m) k' =
    (if k' = k then Some (Suc (case hm_get m k of None \<Rightarrow> 0 | Some n \<Rightarrow> n)) else hm_get m k')"
  by (simp add: hm_count_def)

definition counted :: "nat \<Rightarrow> nat option" where
  "counted n = (if n = 0 then None else Some n)"

lemma fold_hm_count:
  "hm_get (fold (\<lambda>x. hm_count (f x)) xs []) k = counted (length (filter (\<lambda>x. f x = k) xs))"
  by (induction xs rule: rev_induct) (auto simp: hm_count_get counted_def split: option.splits if_splits)

lemma rb_stats_split:
  "fold (\<lambda>e (actions, layers). (hm_count (f e) actions, hm_count (g e) layers)) es (a, l) =
     (fold (\<lambda>e. hm_count (f e)) es a, fold (\<lambda>e. hm_count (g e)) es l)"
  by (induction es arbitrary: a l) simp_all

lemma rb_stats_counts:
  "hm_get (ts_action_counts (rb_stats b)) k = counted (length (filter_by_action b k))"
  "hm_get (ts_layer_counts (rb_stats b)) k =
     counted (length (filter (\<lambda>e. layer_label (te_layer e) = k) (rb_entries b)))"
  by (simp_all add: rb_stats_def rb_stats_split fold_hm_count filter_by_action_def)

section \<open>Properties\<close>

text \<open>C33: However pushes and clears are ordered, the ring buffer holds exactly the newest entries of the
  log since the last clear: as many as its capacity, and one when the capacity is 0. What it
  returns as recent are the newest entries of that log in reverse order, up to that number, and
  its statistics count the entries it holds by action.\<close>

theorem ring_buffer_refines_log:
  "let b = fold rb_apply ops (rb_new c); es = fold log_apply ops [] in
     rb_entries b = newest (max 1 c) es \<and> rb_len b = min (max 1 c) (length es) \<and>
     recent b n = take (min n (max 1 c)) (rev es) \<and>
     hm_get (ts_action_counts (rb_stats b)) a =
       counted (length (filter (\<lambda>e. te_action e = a) (newest (max 1 c) es)))"
proof -
  define b es where "b = fold rb_apply ops (rb_new c)" and "es = fold log_apply ops []"
  have "refines_log c es b"
    unfolding b_def es_def by (rule ring.simulates_run) (simp add: refines_log_def rb_new_def newest_def)
  then have e: "rb_entries b = newest (max 1 c) es" by (simp add: refines_log_def)
  have "recent b n = take (min n (max 1 c)) (rev (newest (max 1 c) es))"
    by (simp add: recent_def e Let_def take_min_length length_newest)
  then show ?thesis
    unfolding b_def [symmetric] es_def [symmetric] Let_def
    by (simp add: e rb_len_def length_newest take_rev_newest rb_stats_counts filter_by_action_def)
qed

end
