(* ===== verification/Federated_Text.thy ===== *)
theory Federated_Text
  imports Rust_Prelude
begin

text \<open>
  The textual preparation of a federated query (first part of \<open>federated.rs\<close>): when a
  connection name needs quotes, the insertion of quotes around such names before a dot, and the
  removal of a dot in front of a table name.

  The two regular expressions of the code are written out as scans from left to right without
  overlap. In the model's alphabet the case-insensitive match compares lower-case characters,
  \<open>\s\<close> is \<open>is_whitespace\<close>, and \<open>\w\<close> is a letter, a decimal digit or an underscore.
\<close>

definition needs_quoting :: "string \<Rightarrow> bool" where
  "needs_quoting name =
     (let valid_start = (case name of [] \<Rightarrow> False | c # _ \<Rightarrow> is_alphabetic c \<or> c = CHR ''_'');
          valid_chars = list_all (\<lambda>c. is_alphanumeric c \<or> c = CHR ''_'') name
      in \<not> valid_start \<or> \<not> valid_chars)"

definition validate_connection_name :: "string \<Rightarrow> unit result" where
  "validate_connection_name name =
     (let trimmed = trim name in
      if trimmed = [] then Ok ()
      else if needs_quoting trimmed
      then Err (''Connection name '' @ [CHR 0x27] @ trimmed @ [CHR 0x27] @
        '' contains characters that are invalid in SQL identifiers. '' @
        ''Only letters, digits, and underscores are allowed, and the name must not start with a digit.'')
      else Ok ())"

text \<open>The character class before a name, \<open>[^A-Za-z0-9_`"]\<close>.\<close>

definition boundary :: "char \<Rightarrow> bool" where
  "boundary c \<longleftrightarrow> \<not> (is_ascii_alphabetic c \<or> is_ascii_digit c \<or> c \<in> {CHR ''_'', CHR 0x60, CHR 0x22})"

text \<open>The name at the front of a text, in any case, and the dot after it.\<close>

definition match_name :: "string \<Rightarrow> string \<Rightarrow> (string \<times> string) option" where
  "match_name name s =
     (if to_lowercase (take (length name) s) = to_lowercase name \<and>
         starts_with (drop (length name) s) ''.''
      then Some (take (length name) s, drop (length name + 1) s) else None)"

definition quoted :: "string \<Rightarrow> string" where
  "quoted m = [CHR 0x22] @ m @ [CHR 0x22]"

lemma match_name_shorter: "match_name name s = Some (m, rest) \<Longrightarrow> length rest < length s"
proof -
  assume m: "match_name name s = Some (m, rest)"
  then have "drop (length name) s \<noteq> []"
    by (cases "drop (length name) s") (simp_all add: match_name_def split: if_splits)
  then have "length name < length s" by simp
  then show ?thesis using m by (auto simp: match_name_def split: if_splits)
qed

function quote_matches :: "string \<Rightarrow> bool \<Rightarrow> string \<Rightarrow> string" where
  "quote_matches name at_start s =
     (case (if at_start then match_name name s else None) of
        Some (m, rest) \<Rightarrow> quoted m @ ''.'' @ quote_matches name False rest
      | None \<Rightarrow>
          (case s of
             [] \<Rightarrow> []
           | c # cs \<Rightarrow>
               (case (if boundary c then match_name name cs else None) of
                  Some (m, rest) \<Rightarrow> c # quoted m @ ''.'' @ quote_matches name False rest
                | None \<Rightarrow> c # quote_matches name False cs)))"
  by pat_completeness auto

termination
  by (relation "measure (\<lambda>(_, _, s). length s)")
    (auto split: if_splits dest!: match_name_shorter)

definition preprocess_federated_sql :: "string \<Rightarrow> string list \<Rightarrow> string" where
  "preprocess_federated_sql sql connection_names =
     (let special_names = filter needs_quoting connection_names
      in if special_names = [] then sql
         else fold (\<lambda>name result. quote_matches name True result) special_names sql)"

definition word_char :: "char \<Rightarrow> bool" where
  "word_char c \<longleftrightarrow> is_alphabetic c \<or> is_ascii_digit c \<or> c = CHR ''_''"

text \<open>\<open>([\s,(])(\.[A-Za-z_]\w*)\<close> with the dot dropped.\<close>

function fix_leading_dot_table_refs :: "string \<Rightarrow> string" where
  "fix_leading_dot_table_refs s =
     (case s of
        c # CHR ''.'' # d # cs \<Rightarrow>
          if (is_whitespace c \<or> c = CHR '','' \<or> c = CHR ''('') \<and> (is_ascii_alphabetic d \<or> d = CHR ''_'')
          then c # d # takeWhile word_char cs @ fix_leading_dot_table_refs (dropWhile word_char cs)
          else c # fix_leading_dot_table_refs (CHR ''.'' # d # cs)
      | c # cs \<Rightarrow> c # fix_leading_dot_table_refs cs
      | [] \<Rightarrow> [])"
  by pat_completeness auto

termination
  by (relation "measure length") (auto simp: less_Suc_eq_le intro: le_trans [OF length_dropWhile_le])

declare quote_matches.simps [simp del] fix_leading_dot_table_refs.simps [simp del]

section \<open>Lemmas\<close>

definition unquoted :: "string \<Rightarrow> string" where
  "unquoted s = filter (\<lambda>c. c \<noteq> CHR 0x22) s"

lemma unquoted_simps [simp]:
  "unquoted [] = []" "unquoted (s @ t) = unquoted s @ unquoted t" "unquoted (quoted m) = unquoted m"
  by (simp_all add: unquoted_def quoted_def)

lemma unquoted_Cons [simp]: "unquoted (c # s) = (if c = CHR 0x22 then unquoted s else c # unquoted s)"
  by (simp add: unquoted_def)

lemma match_name_split: "match_name name s = Some (m, rest) \<Longrightarrow> s = m @ ''.'' @ rest"
proof -
  assume m: "match_name name s = Some (m, rest)"
  then obtain t where t: "drop (length name) s = CHR ''.'' # t"
    by (cases "drop (length name) s") (simp_all add: match_name_def split: if_splits)
  have "drop (length name + 1) s = t" using t by (metis drop_drop drop_Suc_Cons drop0 add.commute One_nat_def)
  then show ?thesis
    using m t append_take_drop_id [of "length name" s] by (auto simp: match_name_def split: if_splits)
qed

lemma unquoted_quote_matches: "unquoted (quote_matches name b s) = unquoted s"
proof (induction name b s rule: quote_matches.induct)
  case (1 name b s)
  show ?case
  proof (cases "if b then match_name name s else None")
    case (Some mr)
    obtain m rest where mr: "mr = (m, rest)" by (rule prod.exhaust)
    have s: "s = m @ ''.'' @ rest" using Some mr by (auto split: if_splits dest: match_name_split)
    show ?thesis
      using 1(3) [OF Some mr [symmetric]] by (subst quote_matches.simps) (simp only: Some mr option.case prod.case, simp add: s)
  next
    case None
    show ?thesis
    proof (cases s)
      case Nil
      then show ?thesis using None by (subst quote_matches.simps) simp
    next
      case (Cons c cs)
      have None': "(if b then match_name name (c # cs) else None) = None" using None by (simp only: Cons)
      show ?thesis
      proof (cases "if boundary c then match_name name cs else None")
        case (Some mr)
        obtain m rest where mr: "mr = (m, rest)" by (rule prod.exhaust)
        have cs: "cs = m @ ''.'' @ rest" using Some mr by (auto split: if_splits dest: match_name_split)
        show ?thesis
          using 1(2) [OF None Cons Some mr [symmetric]]
          by (subst quote_matches.simps)
            (simp only: None' Cons Some mr option.case prod.case list.case, simp add: cs)
      next
        case N: None
        show ?thesis
          using 1(1) [OF None Cons N]
          by (subst quote_matches.simps)
            (simp only: None' Cons N option.case list.case, simp)
      qed
    qed
  qed
qed

section \<open>Properties\<close>

text \<open>Quoting connection names changes a query by double quotes only: without them, the prepared text
  is the text that was given.\<close>

lemma preprocess_only_quotes: "unquoted (preprocess_federated_sql sql names) = unquoted sql"
proof -
  have "unquoted (fold (\<lambda>name result. quote_matches name True result) ns s) = unquoted s" for ns s
    by (induction ns arbitrary: s) (simp_all add: unquoted_quote_matches)
  then show ?thesis by (simp add: preprocess_federated_sql_def Let_def)
qed

text \<open>The preparation reads no string literals: a connection name and a dot inside a literal are
  quoted like a table reference, and a dot after a space in a literal is dropped, so a query
  with these literals runs with other values.\<close>

lemma string_literal_changed:
  "preprocess_federated_sql (''SELECT '' @ [CHR 0x27] @ ''to a-b.c'' @ [CHR 0x27]) [''a-b''] =
     ''SELECT '' @ [CHR 0x27] @ ''to '' @ quoted ''a-b'' @ ''.c'' @ [CHR 0x27] \<and>
   fix_leading_dot_table_refs (''SELECT '' @ [CHR 0x27] @ ''use .env'' @ [CHR 0x27]) =
     ''SELECT '' @ [CHR 0x27] @ ''use env'' @ [CHR 0x27]"
  by code_simp

end
