(* ===== verification/Database_Type.thy ===== *)
theory Database_Type
  imports Rust_Prelude
begin

text \<open>
  The database products. \<open>DatabaseType\<close> is generated by the build (\<open>build.rs\<close>) from
  descriptors; the datatype has the variants that the modelled code names and one for the others.
\<close>

datatype database_type =
    Postgres | Redshift | Kingbase | Highgo | Uxdb | Vastbase | Gaussdb | OpenGauss | Kwdb | Oscar
  | Vertica | Questdb | Mysql | Doris | StarRocks | Goldendb | Gbase | ManticoreSearch | Databend
  | ClickHouse | Tdengine | InfluxDb | VictoriaMetrics | Snowflake | Teradata | Exasol | Firebird
  | SqlServer | Oracle | OceanbaseOracle | Db2 | Dameng | Hive | PrestoSql | Trino | Spark | Kyuubi
  | Impala | Databricks | Kylin | Sundb | Sqlite | Rqlite | Turso | CloudflareD1 | Neo4j | Cassandra
  | Bigquery | H2 | Informix | Xugu | Yashandb | Jdbc | Iotdb | Iris | Argo | Access | Spanner | DuckDb
  | SapHana | OtherDatabase string

end
