(* ===== verification/Federated.thy ===== *)
theory Federated
  imports Federated_Text Database_Type
begin

text \<open>
  Federated queries (\<open>federated.rs\<close>): the analysis that maps the tables of a query to
  connections, the validation of these references, and the rewriting of a query on a single
  connection.

  The SQL parser is not part of the repository: \<open>sql_parser\<close> is its interface, over a type of
  statements. It parses a text, lists the relations of a statement in the order of the visitor,
  maps a function over them, and prints statements and names. \<open>visitor_ok\<close> states that the
  mutating visitor visits the relations that the reading visitor visits.
\<close>

text \<open>The fields of \<open>ConnectionConfig\<close> that federation reads.\<close>

record connection_config =
  cc_name :: string
  cc_db_type :: database_type
  cc_database :: "string option"
  cc_default_schema :: "string option"
  cc_visible_schemas :: "(string, string list) hash_map option"
  cc_federation_enabled :: bool

record ident =
  id_value :: string
  id_quote_style :: "char option"

datatype object_name_part = Identifier ident | FunctionPart string

type_synonym object_name = "object_name_part list"

record 'st sql_parser =
  parse_sql :: "string \<Rightarrow> 'st list result"
  relations :: "'st \<Rightarrow> object_name list"
  map_relations :: "(object_name \<Rightarrow> object_name) \<Rightarrow> 'st \<Rightarrow> 'st"
  show_statement :: "'st \<Rightarrow> string"
  show_name :: "object_name \<Rightarrow> string"

definition visitor_ok :: "'st sql_parser \<Rightarrow> bool" where
  "visitor_ok p \<longleftrightarrow> (\<forall>f st. relations p (map_relations p f st) = map f (relations p st))"

definition ident_new :: "string \<Rightarrow> object_name_part" where
  "ident_new s = Identifier \<lparr>id_value = s, id_quote_style = None\<rparr>"

record federated_table_ref =
  original_name :: string
  connection_name :: string
  database_name :: "string option"
  schema_name :: "string option"
  table_name :: string
  ref_alias :: "string option"

record federated_analysis =
  table_refs :: "federated_table_ref list"
  connections :: "string list"
  is_single_connection :: bool
  single_connection :: "string option"
  uses_federation_syntax :: bool

definition exact_map :: "connection_config list \<Rightarrow> (string, connection_config) hash_map" where
  "exact_map cs = hm_collect (map (\<lambda>c. (cc_name c, c)) cs)"

definition insensitive_map :: "connection_config list \<Rightarrow> (string, connection_config) hash_map" where
  "insensitive_map cs = hm_collect (map (\<lambda>c. (to_lowercase (cc_name c), c)) cs)"

definition resolve_connection ::
    "(string, connection_config) hash_map \<Rightarrow> (string, connection_config) hash_map \<Rightarrow> string \<Rightarrow>
     connection_config option" where
  "resolve_connection exact insensitive name =
     (case hm_get exact name of
        Some c \<Rightarrow> Some c
      | None \<Rightarrow> hm_get insensitive (to_lowercase name))"

definition name_parts :: "object_name \<Rightarrow> string list" where
  "name_parts name =
     List.map_filter (\<lambda>p. case p of Identifier i \<Rightarrow> Some (id_value i) | FunctionPart _ \<Rightarrow> None) name"

text \<open>The visitor of \<open>extract_table_refs\<close> on one name.\<close>

definition extract_name ::
    "'st sql_parser \<Rightarrow> connection_config list \<Rightarrow> object_name \<Rightarrow>
     federated_table_ref list \<times> bool \<Rightarrow> federated_table_ref list \<times> bool" where
  "extract_name p cs name = (\<lambda>(refs, uses).
     let parts = name_parts name;
         plain = (if 2 \<le> length parts
            then (refs @ [\<lparr>original_name = show_name p name, connection_name = [], database_name = None,
                   schema_name = Some (parts ! 0), table_name = parts ! 1, ref_alias = None\<rparr>], uses)
            else if length parts = 1
            then (refs @ [\<lparr>original_name = show_name p name, connection_name = [], database_name = None,
                   schema_name = None, table_name = parts ! 0, ref_alias = None\<rparr>], uses)
            else (refs, uses))
     in if 3 \<le> length parts
        then (case resolve_connection (exact_map cs) (insensitive_map cs) (parts ! 0) of
            Some config \<Rightarrow>
              let (db, schema, table) =
                (if 4 \<le> length parts then (Some (parts ! 1), Some (parts ! 2), parts ! 3)
                 else (Some (parts ! 1), None, parts ! 2))
              in (refs @ [\<lparr>original_name = show_name p name, connection_name = cc_name config,
                    database_name = db, schema_name = schema, table_name = table, ref_alias = None\<rparr>], True)
          | None \<Rightarrow> plain)
        else plain)"

definition extract_table_refs ::
    "'st sql_parser \<Rightarrow> connection_config list \<Rightarrow> 'st \<Rightarrow>
     federated_table_ref list \<times> bool \<Rightarrow> federated_table_ref list \<times> bool" where
  "extract_table_refs p cs stmt acc = fold (extract_name p cs) (relations p stmt) acc"

definition see_connection :: "federated_table_ref \<Rightarrow> string list \<Rightarrow> string list" where
  "see_connection r seen =
     (if connection_name r \<noteq> [] \<and> connection_name r \<notin> set seen then seen @ [connection_name r] else seen)"

definition prepared_sql :: "string \<Rightarrow> string list \<Rightarrow> string" where
  "prepared_sql sql names = fix_leading_dot_table_refs (preprocess_federated_sql sql names)"

definition analyze_federation ::
    "'st sql_parser \<Rightarrow> string \<Rightarrow> connection_config list \<Rightarrow> federated_analysis" where
  "analyze_federation p sql cs =
     (case parse_sql p (prepared_sql sql (map cc_name cs)) of
        Err e \<Rightarrow> \<lparr>table_refs = [], connections = [], is_single_connection = True,
            single_connection = None, uses_federation_syntax = False\<rparr>
      | Ok statements \<Rightarrow>
          let (refs, uses) = fold (extract_table_refs p cs) statements ([], False);
              seen = fold see_connection refs [];
              single = length seen \<le> 1
          in \<lparr>table_refs = refs, connections = seen, is_single_connection = single,
              single_connection = (if single \<and> seen \<noteq> [] then Some (seen ! 0) else None),
              uses_federation_syntax = uses\<rparr>)"

fun get_default_schema :: "database_type \<Rightarrow> string \<Rightarrow> string" where
  "get_default_schema Mysql db = db"
| "get_default_schema Doris db = db"
| "get_default_schema StarRocks db = db"
| "get_default_schema Goldendb db = db"
| "get_default_schema Gbase db = db"
| "get_default_schema ManticoreSearch db = db"
| "get_default_schema Databend db = db"
| "get_default_schema ClickHouse db = db"
| "get_default_schema Tdengine db = db"
| "get_default_schema InfluxDb db = db"
| "get_default_schema VictoriaMetrics db = db"
| "get_default_schema Snowflake db = ''PUBLIC''"
| "get_default_schema Teradata db = db"
| "get_default_schema Exasol db = db"
| "get_default_schema Firebird db = db"
| "get_default_schema SqlServer db = ''dbo''"
| "get_default_schema Oracle db = db"
| "get_default_schema OceanbaseOracle db = db"
| "get_default_schema Db2 db = db"
| "get_default_schema Dameng db = db"
| "get_default_schema Hive db = db"
| "get_default_schema PrestoSql db = db"
| "get_default_schema Trino db = db"
| "get_default_schema Spark db = db"
| "get_default_schema Kyuubi db = db"
| "get_default_schema Impala db = db"
| "get_default_schema Databricks db = db"
| "get_default_schema Kylin db = ''PUBLIC''"
| "get_default_schema Sundb db = ''PUBLIC''"
| "get_default_schema Sqlite db = ''main''"
| "get_default_schema Rqlite db = ''main''"
| "get_default_schema Turso db = ''main''"
| "get_default_schema CloudflareD1 db = ''main''"
| "get_default_schema Neo4j db = db"
| "get_default_schema Cassandra db = db"
| "get_default_schema Bigquery db = db"
| "get_default_schema H2 db = ''PUBLIC''"
| "get_default_schema Informix db = ''PUBLIC''"
| "get_default_schema Xugu db = ''PUBLIC''"
| "get_default_schema Yashandb db = ''PUBLIC''"
| "get_default_schema _ db = ''public''"

definition get_visible_schemas_for_database :: "connection_config \<Rightarrow> string \<Rightarrow> string list option" where
  "get_visible_schemas_for_database config database =
     Option.bind (cc_visible_schemas config) (\<lambda>m.
       case hm_get m database of Some v \<Rightarrow> Some v | None \<Rightarrow> hm_get m ''*'')"

definition or_default :: "'a \<Rightarrow> 'a option \<Rightarrow> 'a" where
  "or_default d x = (case x of Some y \<Rightarrow> y | None \<Rightarrow> d)"

definition rewrite_parts :: "connection_config \<Rightarrow> federated_table_ref \<Rightarrow> object_name" where
  "rewrite_parts config r =
     (let conn_database = or_default [] (cc_database config);
          db_type = cc_db_type config;
          default_schema = or_default (get_default_schema db_type conn_database) (cc_default_schema config);
          database_matches_conn =
            (case database_name r of Some db \<Rightarrow> eq_ignore_ascii_case db conn_database | None \<Rightarrow> False);
          prefix =
            (if database_matches_conn
             then (case schema_name r of
                 Some schema \<Rightarrow>
                   (if db_type \<in> {Oracle, OceanbaseOracle} then [ident_new default_schema] else []) @
                   [ident_new schema]
               | None \<Rightarrow> [ident_new default_schema])
             else (case database_name r of Some db \<Rightarrow> [ident_new db] | None \<Rightarrow> []) @
                  (case schema_name r of Some schema \<Rightarrow> [ident_new schema] | None \<Rightarrow> []))
      in prefix @ [ident_new (table_name r)])"

definition rewrite_map ::
    "connection_config \<Rightarrow> string \<Rightarrow> federated_table_ref list \<Rightarrow> (string, object_name) hash_map" where
  "rewrite_map config conn_name refs =
     fold (\<lambda>r m. if connection_name r = conn_name then hm_insert (original_name r) (rewrite_parts config r) m else m)
       refs []"

definition rewrite_name ::
    "'st sql_parser \<Rightarrow> (string, object_name) hash_map \<Rightarrow> object_name \<Rightarrow> object_name" where
  "rewrite_name p m name = or_default name (hm_get m (show_name p name))"

definition rewrite_federated_sql ::
    "'st sql_parser \<Rightarrow> string \<Rightarrow> federated_analysis \<Rightarrow> connection_config list \<Rightarrow> string option" where
  "rewrite_federated_sql p sql a cs =
     (if \<not> uses_federation_syntax a \<or> \<not> is_single_connection a then None
      else Option.bind (single_connection a) (\<lambda>conn_name.
        Option.bind (find (\<lambda>c. cc_name c = conn_name) cs) (\<lambda>config.
          let m = rewrite_map config conn_name (table_refs a)
          in if m = [] then None
             else (case parse_sql p (prepared_sql sql (connections a)) of
                 Err e \<Rightarrow> None
               | Ok statements \<Rightarrow>
                   Some (join ''; '' (map (show_statement p)
                     (map (map_relations p (rewrite_name p m)) statements)))))))"

datatype federation_validation_error =
    FederationNotEnabled string
  | SchemaNotVisible string string

definition show_validation_error :: "federation_validation_error \<Rightarrow> string" where
  "show_validation_error e =
     (let q = (\<lambda>s. [CHR 0x27] @ s @ [CHR 0x27]) in
      case e of
        FederationNotEnabled conn \<Rightarrow>
          ''Connection '' @ q conn @
          '' does not have federated query enabled. Enable it in the connection settings.''
      | SchemaNotVisible conn schema \<Rightarrow>
          ''Schema '' @ q schema @ '' is not visible for connection '' @ q conn @ ''. Check the connection'' @
          [CHR 0x27] @ ''s visible schemas configuration.'')"

definition validate_ref ::
    "connection_config list \<Rightarrow> federated_table_ref \<Rightarrow> federation_validation_error + unit" where
  "validate_ref cs r =
     (if connection_name r = [] then Inr ()
      else case resolve_connection (exact_map cs) (insensitive_map cs) (connection_name r) of
          None \<Rightarrow> Inr ()
        | Some config \<Rightarrow>
            if \<not> cc_federation_enabled config then Inl (FederationNotEnabled (connection_name r))
            else case schema_name r of
                None \<Rightarrow> Inr ()
              | Some schema \<Rightarrow>
                  let database = or_default (or_default [] (cc_database config)) (database_name r)
                  in case get_visible_schemas_for_database config database of
                       None \<Rightarrow> Inr ()
                     | Some visible \<Rightarrow>
                         if schema \<notin> set visible
                         then Inl (SchemaNotVisible (connection_name r) schema) else Inr ())"

fun validate_refs ::
    "connection_config list \<Rightarrow> federated_table_ref list \<Rightarrow> federation_validation_error + unit" where
  "validate_refs cs [] = Inr ()"
| "validate_refs cs (r # rs) = (case validate_ref cs r of Inl e \<Rightarrow> Inl e | Inr _ \<Rightarrow> validate_refs cs rs)"

definition validate_federation ::
    "federated_analysis \<Rightarrow> connection_config list \<Rightarrow> federation_validation_error + unit" where
  "validate_federation a cs = validate_refs cs (table_refs a)"

section \<open>Lemmas\<close>

text \<open>The connection a name refers to, and the references it gives.\<close>

definition federated_config :: "connection_config list \<Rightarrow> object_name \<Rightarrow> connection_config option" where
  "federated_config cs name =
     (if 3 \<le> length (name_parts name)
      then resolve_connection (exact_map cs) (insensitive_map cs) (name_parts name ! 0) else None)"

definition federated_ref :: "'st sql_parser \<Rightarrow> object_name \<Rightarrow> connection_config \<Rightarrow> federated_table_ref" where
  "federated_ref p name config =
     (let parts = name_parts name in
      \<lparr>original_name = show_name p name, connection_name = cc_name config, database_name = Some (parts ! 1),
       schema_name = (if 4 \<le> length parts then Some (parts ! 2) else None),
       table_name = (if 4 \<le> length parts then parts ! 3 else parts ! 2), ref_alias = None\<rparr>)"

definition refs_of :: "'st sql_parser \<Rightarrow> connection_config list \<Rightarrow> object_name \<Rightarrow> federated_table_ref list" where
  "refs_of p cs name =
     (case federated_config cs name of
        Some config \<Rightarrow> [federated_ref p name config]
      | None \<Rightarrow> fst (extract_name p [] name ([], False)))"

lemma resolve_connection_empty [simp]: "resolve_connection (exact_map []) (insensitive_map []) n = None"
  by (simp add: resolve_connection_def exact_map_def insensitive_map_def hm_collect_def)

lemma extract_name_eq:
  "extract_name p cs name (refs, uses) =
     (refs @ refs_of p cs name, uses \<or> federated_config cs name \<noteq> None)"
  by (auto simp: extract_name_def refs_of_def federated_config_def federated_ref_def Let_def
      split: option.splits)

lemma extract_fold:
  "fold (extract_name p cs) names (refs, uses) =
     (refs @ concat (map (refs_of p cs) names), uses \<or> list_ex (\<lambda>n. federated_config cs n \<noteq> None) names)"
  by (induction names arbitrary: refs uses) (simp_all add: extract_name_eq)

definition all_relations :: "'st sql_parser \<Rightarrow> 'st list \<Rightarrow> object_name list" where
  "all_relations p stmts = concat (map (relations p) stmts)"

lemma extract_statements:
  "fold (extract_table_refs p cs) stmts acc = fold (extract_name p cs) (all_relations p stmts) acc"
  by (induction stmts arbitrary: acc) (simp_all add: all_relations_def extract_table_refs_def)

lemma plain_ref_connection: "r \<in> set (fst (extract_name p [] name ([], False))) \<Longrightarrow> connection_name r = []"
  by (auto simp: extract_name_def Let_def split: if_splits)

lemma refs_of_federated:
  "r \<in> set (refs_of p cs name) \<Longrightarrow> connection_name r \<noteq> [] \<Longrightarrow>
     \<exists>c. federated_config cs name = Some c \<and> r = federated_ref p name c"
  by (auto simp: refs_of_def split: option.splits dest: plain_ref_connection)

lemma see_connection_fold:
  "distinct seen \<Longrightarrow> [] \<notin> set seen \<Longrightarrow>
     distinct (fold see_connection refs seen) \<and>
     set (fold see_connection refs seen) = set seen \<union> (connection_name ` set refs - {[]})"
  by (induction refs arbitrary: seen) (auto simp: see_connection_def)

lemma federated_ref_simps [simp]:
  "connection_name (federated_ref p name c) = cc_name c"
  "original_name (federated_ref p name c) = show_name p name"
  "database_name (federated_ref p name c) = Some (name_parts name ! 1)"
  by (simp_all add: federated_ref_def Let_def)

lemma refs_connections:
  "connection_name ` set (concat (map (refs_of p cs) names)) - {[]} =
     {cc_name c |c n. n \<in> set names \<and> federated_config cs n = Some c} - {[]}"
proof -
  have "x \<in> connection_name ` set (concat (map (refs_of p cs) names)) \<longleftrightarrow>
      (\<exists>c n. x = cc_name c \<and> n \<in> set names \<and> federated_config cs n = Some c)" if "x \<noteq> []" for x
  proof
    assume "x \<in> connection_name ` set (concat (map (refs_of p cs) names))"
    then obtain r n where "x = connection_name r" "n \<in> set names" "r \<in> set (refs_of p cs n)" by auto
    then show "\<exists>c n. x = cc_name c \<and> n \<in> set names \<and> federated_config cs n = Some c"
      using that refs_of_federated [of r p cs n] by fastforce
  next
    assume "\<exists>c n. x = cc_name c \<and> n \<in> set names \<and> federated_config cs n = Some c"
    then obtain c n where c: "x = cc_name c" "n \<in> set names" "federated_config cs n = Some c" by blast
    then have "federated_ref p n c \<in> set (concat (map (refs_of p cs) names))"
      by (auto simp: refs_of_def intro!: bexI [of _ n])
    then show "x \<in> connection_name ` set (concat (map (refs_of p cs) names))"
      using c(1) by (intro image_eqI [of _ _ "federated_ref p n c"]) simp_all
  qed
  then show ?thesis by blast
qed

lemma analyze_eq:
  assumes "parse_sql p (prepared_sql sql (map cc_name cs)) = Ok stmts"
    and "a = analyze_federation p sql cs"
  shows "table_refs a = concat (map (refs_of p cs) (all_relations p stmts))"
    and "connections a = fold see_connection (table_refs a) []"
    and "uses_federation_syntax a = list_ex (\<lambda>n. federated_config cs n \<noteq> None) (all_relations p stmts)"
    and "is_single_connection a \<longleftrightarrow> length (connections a) \<le> 1"
    and "single_connection a = (case connections a of [c] \<Rightarrow> Some c | _ \<Rightarrow> None)"
  using assms
  by (auto simp: analyze_federation_def extract_statements extract_fold Let_def split: list.splits)

lemma map_of_rev_mem: "map_of (rev (map (\<lambda>c. (f c, c)) cs)) k = Some c \<Longrightarrow> c \<in> set cs \<and> f c = k"
  by (auto dest!: map_of_SomeD)

lemma resolve_connection_mem:
  "resolve_connection (exact_map cs) (insensitive_map cs) n = Some c \<Longrightarrow> c \<in> set cs"
  by (auto simp: resolve_connection_def exact_map_def insensitive_map_def hm_collect_get
      split: option.splits dest: map_of_rev_mem)

text \<open>A configuration that a name resolves to is the one its own name resolves to.\<close>

lemma last_key_eq:
  "map_of (rev (map (\<lambda>c. (g (f c), c)) cs)) k = Some c \<Longrightarrow> map_of (rev (map (\<lambda>c. (f c, c)) cs)) (f c) = Some c"
  by (induction cs rule: rev_induct) (auto split: if_splits dest: map_of_rev_mem)

lemma resolve_canonical:
  assumes "resolve_connection (exact_map cs) (insensitive_map cs) n = Some c"
  shows "resolve_connection (exact_map cs) (insensitive_map cs) (cc_name c) = Some c"
proof -
  have "hm_get (exact_map cs) (cc_name c) = Some c"
    using assms last_key_eq [of to_lowercase cc_name cs] map_of_rev_mem [of cc_name cs n c]
    by (auto simp: resolve_connection_def exact_map_def insensitive_map_def hm_collect_get split: option.splits)
  then show ?thesis by (simp add: resolve_connection_def)
qed

lemma validate_refs_ok: "validate_refs cs rs = Inr () \<longleftrightarrow> (\<forall>r\<in>set rs. validate_ref cs r = Inr ())"
  by (induction rs) (auto split: sum.splits)

text \<open>The parts of a federated name without its connection, as the rewriting leaves them.\<close>

definition stripped :: "connection_config \<Rightarrow> string list \<Rightarrow> string list" where
  "stripped config parts =
     (let own = or_default [] (cc_database config);
          schema = or_default (get_default_schema (cc_db_type config) own) (cc_default_schema config)
      in if eq_ignore_ascii_case (parts ! 1) own
         then (if 4 \<le> length parts
               then (if cc_db_type config \<in> {Oracle, OceanbaseOracle} then [schema] else []) @ [parts ! 2, parts ! 3]
               else [schema, parts ! 2])
         else take 3 (drop 1 parts))"

lemma name_parts_simps [simp]:
  "name_parts [] = []" "name_parts (ident_new s # n) = s # name_parts n"
  "name_parts (m @ n) = name_parts m @ name_parts n"
  by (simp_all add: name_parts_def ident_new_def List.map_filter_def)

lemma take_drop_nth: "3 \<le> length xs \<Longrightarrow>
    take 3 (drop 1 xs) = [xs ! 1, xs ! 2] @ (if 4 \<le> length xs then [xs ! 3] else [])"
  by (cases xs; cases "tl xs"; cases "tl (tl xs)"; cases "tl (tl (tl xs))") (auto simp: eval_nat_numeral)

lemma name_parts_rewrite:
  assumes "3 \<le> length (name_parts n)"
  shows "name_parts (rewrite_parts config (federated_ref p n c)) = stripped config (name_parts n)"
  unfolding stripped_def rewrite_parts_def federated_ref_def Let_def take_drop_nth [OF assms]
  by (simp split: option.splits)

lemma rewrite_map_get:
  assumes "\<And>r. r \<in> set refs \<Longrightarrow> connection_name r = conn \<Longrightarrow> original_name r = k \<Longrightarrow> rewrite_parts config r = v"
  shows "hm_get (rewrite_map config conn refs) k =
    (if list_ex (\<lambda>r. connection_name r = conn \<and> original_name r = k) refs then Some v else None)"
  using assms unfolding rewrite_map_def
  by (induction refs rule: rev_induct) auto

lemma rewrite_map_Nil: "rewrite_map config conn refs = [] \<longleftrightarrow> \<not> list_ex (\<lambda>r. connection_name r = conn) refs"
  unfolding rewrite_map_def by (induction refs rule: rev_induct) auto

lemma refs_of_key:
  assumes "conn \<noteq> []" "inj_on (show_name p) (set names)" "n \<in> set names"
    and "r \<in> set (concat (map (refs_of p cs) names))" "connection_name r = conn" "original_name r = show_name p n"
  shows "\<exists>c. federated_config cs n = Some c \<and> cc_name c = conn \<and> r = federated_ref p n c"
proof -
  obtain n' where n': "n' \<in> set names" "r \<in> set (refs_of p cs n')" using assms(4) by auto
  then obtain c where c: "federated_config cs n' = Some c" "r = federated_ref p n' c"
    using refs_of_federated assms(1,5) by blast
  have "n' = n" using assms(2,3,6) n'(1) c(2) by (auto dest: inj_onD)
  then show ?thesis using c assms(5) by auto
qed

lemma rewrite_name_eq:
  assumes "conn \<noteq> []" "inj_on (show_name p) (set names)" "n \<in> set names"
  shows "rewrite_name p (rewrite_map config conn (concat (map (refs_of p cs) names))) n =
    (case federated_config cs n of
       Some c \<Rightarrow> if cc_name c = conn then rewrite_parts config (federated_ref p n c) else n
     | None \<Rightarrow> n)"
proof (cases "\<exists>c. federated_config cs n = Some c \<and> cc_name c = conn")
  case True
  then obtain c where c: "federated_config cs n = Some c" "cc_name c = conn" by blast
  have "hm_get (rewrite_map config conn (concat (map (refs_of p cs) names))) (show_name p n) =
      (if list_ex (\<lambda>r. connection_name r = conn \<and> original_name r = show_name p n) (concat (map (refs_of p cs) names))
       then Some (rewrite_parts config (federated_ref p n c)) else None)"
    using refs_of_key [OF assms] c by (intro rewrite_map_get) fastforce
  moreover have "federated_ref p n c \<in> set (concat (map (refs_of p cs) names))"
    using c(1) assms(3) by (auto simp: refs_of_def intro!: bexI [of _ n])
  then have "list_ex (\<lambda>r. connection_name r = conn \<and> original_name r = show_name p n) (concat (map (refs_of p cs) names))"
    unfolding list_ex_iff using c(2) by (intro bexI [of _ "federated_ref p n c"]) simp_all
  ultimately show ?thesis using c by (simp add: rewrite_name_def or_default_def)
next
  case False
  have "hm_get (rewrite_map config conn (concat (map (refs_of p cs) names))) (show_name p n) =
      (if list_ex (\<lambda>r. connection_name r = conn \<and> original_name r = show_name p n) (concat (map (refs_of p cs) names))
       then Some [] else None)"
    using refs_of_key [OF assms] False by (intro rewrite_map_get) blast
  moreover have "\<not> list_ex (\<lambda>r. connection_name r = conn \<and> original_name r = show_name p n)
      (concat (map (refs_of p cs) names))"
    unfolding list_ex_iff using refs_of_key [OF assms] False by blast
  ultimately show ?thesis using False by (auto simp: rewrite_name_def or_default_def split: option.splits)
qed

lemma all_relations_map:
  "visitor_ok p \<Longrightarrow> all_relations p (map (map_relations p f) stmts) = map f (all_relations p stmts)"
  by (induction stmts) (simp_all add: all_relations_def visitor_ok_def)

section \<open>Properties\<close>

text \<open>The analysis of a query that parses lists, without repetition, exactly the names of the
  connections that its table references of three or more parts resolve to; each is the name of a
  configured connection; the query is a single-connection query when there is exactly one.\<close>

lemma analysis_exact:
  assumes "parse_sql p (prepared_sql sql (map cc_name cs)) = Ok stmts"
  shows "let a = analyze_federation p sql cs in
    distinct (connections a) \<and>
    set (connections a) =
      {cc_name c |c n. n \<in> set (all_relations p stmts) \<and> federated_config cs n = Some c} - {[]} \<and>
    set (connections a) \<subseteq> set (map cc_name cs) \<and>
    (single_connection a = Some c \<longleftrightarrow> connections a = [c]) \<and>
    (uses_federation_syntax a \<longleftrightarrow> (\<exists>n c. n \<in> set (all_relations p stmts) \<and> federated_config cs n = Some c))"
proof -
  define a where "a = analyze_federation p sql cs"
  note eq = analyze_eq [OF assms a_def]
  have seen: "distinct (connections a)"
    "set (connections a) = connection_name ` set (table_refs a) - {[]}"
    using see_connection_fold [of "[]" "table_refs a"] by (simp_all add: eq(2))
  have set: "set (connections a) =
      {cc_name c |c n. n \<in> set (all_relations p stmts) \<and> federated_config cs n = Some c} - {[]}"
    unfolding seen(2) eq(1) by (rule refs_connections)
  have "cc_name c \<in> set (map cc_name cs)" if "federated_config cs n = Some c" for n c
    using that resolve_connection_mem by (auto simp: federated_config_def split: if_splits)
  then have sub: "set (connections a) \<subseteq> set (map cc_name cs)" unfolding set by blast
  have single: "single_connection a = Some c \<longleftrightarrow> connections a = [c]"
    unfolding eq(5) by (auto split: list.splits)
  have uses: "uses_federation_syntax a \<longleftrightarrow>
      (\<exists>n c. n \<in> set (all_relations p stmts) \<and> federated_config cs n = Some c)"
    unfolding eq(3) list_ex_iff by auto
  show ?thesis
    unfolding a_def [symmetric] Let_def using seen(1) set sub single uses by blast
qed

text \<open>C20: A query validates exactly when every reference of three or more parts that resolves to a named
  connection resolves to one with federation enabled and, where the reference has a schema part,
  the schema is among the visible schemas of its database. A reference without a schema part is
  not checked for visibility, although it is rewritten to the default schema.\<close>

theorem validation_exact:
  assumes "parse_sql p (prepared_sql sql (map cc_name cs)) = Ok stmts"
  shows "validate_federation (analyze_federation p sql cs) cs = Inr () \<longleftrightarrow>
    (\<forall>n\<in>set (all_relations p stmts). \<forall>c. federated_config cs n = Some c \<and> cc_name c \<noteq> [] \<longrightarrow>
       cc_federation_enabled c \<and>
       (length (name_parts n) = 3 \<or>
        (case get_visible_schemas_for_database c (name_parts n ! 1) of
           None \<Rightarrow> True | Some visible \<Rightarrow> name_parts n ! 2 \<in> set visible)))"
proof -
  have ref: "validate_ref cs (federated_ref p n c) = Inr () \<longleftrightarrow>
      (cc_name c \<noteq> [] \<longrightarrow> cc_federation_enabled c \<and>
        (length (name_parts n) = 3 \<or>
         (case get_visible_schemas_for_database c (name_parts n ! 1) of
            None \<Rightarrow> True | Some visible \<Rightarrow> name_parts n ! 2 \<in> set visible)))"
    if c: "federated_config cs n = Some c" for n c
  proof -
    have "resolve_connection (exact_map cs) (insensitive_map cs) (cc_name c) = Some c"
      and "3 \<le> length (name_parts n)"
      using c resolve_canonical by (auto simp: federated_config_def split: if_splits)
    then show ?thesis
      by (auto simp: validate_ref_def federated_ref_def or_default_def Let_def split: option.splits if_splits)
  qed
  have other: "validate_ref cs r = Inr ()" if "connection_name r = []" for r
    using that by (simp add: validate_ref_def)
  have "validate_federation (analyze_federation p sql cs) cs = Inr () \<longleftrightarrow>
      (\<forall>n\<in>set (all_relations p stmts). \<forall>r\<in>set (refs_of p cs n). validate_ref cs r = Inr ())"
    by (simp add: validate_federation_def validate_refs_ok analyze_eq(1) [OF assms refl])
  also have "\<dots> \<longleftrightarrow> (\<forall>n\<in>set (all_relations p stmts). \<forall>c. federated_config cs n = Some c \<longrightarrow>
      validate_ref cs (federated_ref p n c) = Inr ())"
    by (rule ball_cong [OF refl]) (auto simp: refs_of_def other plain_ref_connection split: option.splits)
  finally show ?thesis using ref by auto
qed

text \<open>C19: When a query that parses refers to a single connection, rewriting it gives a text, provided the
  second preparation of the query, with the names of the used connections only, is the first one,
  and distinct relations of the query are printed differently. In the rewritten statements each
  relation that resolved to the connection has lost its connection part, with the database part
  replaced by the default schema or dropped where it names the connection's own database, and
  every other relation is unchanged.\<close>

theorem rewrite_strips_connection:
  assumes "parse_sql p (prepared_sql sql (map cc_name cs)) = Ok stmts" "visitor_ok p"
    and "inj_on (show_name p) (set (all_relations p stmts))"
    and "a = analyze_federation p sql cs" "single_connection a = Some conn"
    and "prepared_sql sql [conn] = prepared_sql sql (map cc_name cs)"
  shows "\<exists>config\<in>set cs. cc_name config = conn \<and> (\<exists>stmts'.
    rewrite_federated_sql p sql a cs = Some (join ''; '' (map (show_statement p) stmts')) \<and>
    list_all2 (\<lambda>n n'. if map_option cc_name (federated_config cs n) = Some conn
        then name_parts n' = stripped config (name_parts n) else n' = n)
      (all_relations p stmts) (all_relations p stmts'))"
proof -
  note eq = analyze_eq [OF assms(1,4)]
  have conns: "connections a = [conn]" using assms(5) by (auto simp: eq(5) split: list.splits)
  have set: "set (connections a) =
      {cc_name c |c n. n \<in> set (all_relations p stmts) \<and> federated_config cs n = Some c} - {[]}"
    unfolding eq(2) using see_connection_fold [of "[]" "table_refs a"] refs_connections [of p cs] by (simp add: eq(1))
  then have ne: "conn \<noteq> []" and "conn \<in>
      {cc_name c |c n. n \<in> set (all_relations p stmts) \<and> federated_config cs n = Some c}"
    by (auto simp: conns)
  then obtain c n where c: "conn = cc_name c" "n \<in> set (all_relations p stmts)" "federated_config cs n = Some c"
    by blast
  then have "c \<in> set cs" using resolve_connection_mem by (auto simp: federated_config_def split: if_splits)
  then obtain config where config: "find (\<lambda>c. cc_name c = conn) cs = Some config"
    using c(1) by (metis (mono_tags, lifting) find_None_iff option.exhaust)
  then have mem: "config \<in> set cs" "cc_name config = conn" by (auto simp: find_Some_iff)
  let ?m = "rewrite_map config conn (table_refs a)"
  have name: "rewrite_name p ?m n = (case federated_config cs n of
       Some c \<Rightarrow> if cc_name c = conn then rewrite_parts config (federated_ref p n c) else n
     | None \<Rightarrow> n)" if "n \<in> set (all_relations p stmts)" for n
    unfolding eq(1) by (rule rewrite_name_eq [OF ne assms(3) that])
  have m: "?m \<noteq> []"
    using c refs_of_def [of p cs n]
    by (auto simp: rewrite_map_Nil eq(1) list_ex_iff intro!: bexI [of _ n])
  let ?stmts' = "map (map_relations p (rewrite_name p ?m)) stmts"
  have uses: "uses_federation_syntax a" using c by (auto simp: eq(3) list_ex_iff)
  have out: "rewrite_federated_sql p sql a cs = Some (join ''; '' (map (show_statement p) ?stmts'))"
    using uses assms(1,5,6) m by (simp add: rewrite_federated_sql_def eq(4) conns config Let_def)
  have "list_all2 (\<lambda>n n'. if map_option cc_name (federated_config cs n) = Some conn
        then name_parts n' = stripped config (name_parts n) else n' = n)
      (all_relations p stmts) (all_relations p ?stmts')"
    unfolding all_relations_map [OF assms(2)] list_all2_map2 list_all2_same
    by (auto simp: name name_parts_rewrite federated_config_def split: option.splits if_splits)
  then show ?thesis using mem out by blast
qed

text \<open>A parser for the one query of the examples: a statement is the list of its relations.\<close>

definition toy_name :: "string list \<Rightarrow> object_name" where
  "toy_name parts = map ident_new parts"

definition toy_parser :: "object_name list sql_parser" where
  "toy_parser =
     \<lparr>parse_sql = (\<lambda>s. if s = ''pg.shop.t'' then Ok [[toy_name [''pg'', ''shop'', ''t'']]] else Err ''parse''),
      relations = (\<lambda>st. st), map_relations = map,
      show_statement = (\<lambda>st. join '','' (map (\<lambda>n. join ''.'' (name_parts n)) st)),
      show_name = (\<lambda>n. join ''.'' (name_parts n))\<rparr>"

definition toy_connections :: "connection_config list" where
  "toy_connections =
     [\<lparr>cc_name = ''pg'', cc_db_type = Postgres, cc_database = Some ''shop'', cc_default_schema = None,
       cc_visible_schemas = Some [(''*'', [''sales''])], cc_federation_enabled = True\<rparr>]"

lemma toy_prepared: "prepared_sql ''pg.shop.t'' [''pg''] = ''pg.shop.t''"
  by code_simp

lemma toy_parse:
  "parse_sql toy_parser (prepared_sql ''pg.shop.t'' (map cc_name toy_connections)) =
     Ok [[toy_name [''pg'', ''shop'', ''t'']]]"
  by (simp add: toy_parser_def toy_connections_def toy_prepared)

lemma toy_relations: "all_relations toy_parser [[n]] = [n]"
  by (simp add: all_relations_def toy_parser_def)

lemma toy_config: "federated_config toy_connections (toy_name [''pg'', ''shop'', ''t'']) = Some (hd toy_connections)"
  by (simp add: federated_config_def toy_name_def toy_connections_def resolve_connection_def exact_map_def
      hm_collect_def)

lemma toy_hd: "cc_name (hd toy_connections) = ''pg''"
  by (simp add: toy_connections_def)

lemma toy_stripped:
  "c \<in> set toy_connections \<Longrightarrow> stripped c (name_parts (toy_name [''pg'', ''shop'', ''t''])) = [''public'', ''t'']"
  by (simp add: toy_connections_def toy_name_def stripped_def or_default_def eq_ignore_ascii_case_def)

lemmas toy = toy_relations toy_config toy_hd

text \<open>The reference without a schema passes, though only the schema \<open>sales\<close> is visible.\<close>

theorem validation_exact_witness:
  "validate_federation (analyze_federation toy_parser ''pg.shop.t'' toy_connections) toy_connections = Inr ()"
proof -
  have "cc_federation_enabled (hd toy_connections)" "length (name_parts (toy_name [''pg'', ''shop'', ''t''])) = 3"
    by (simp_all add: toy_connections_def toy_name_def)
  then show ?thesis unfolding validation_exact [OF toy_parse] toy(1) using toy(2) by simp
qed

theorem rewrite_strips_connection_witness:
  "\<exists>stmts. rewrite_federated_sql toy_parser ''pg.shop.t''
      (analyze_federation toy_parser ''pg.shop.t'' toy_connections) toy_connections =
      Some (join ''; '' (map (show_statement toy_parser) stmts)) \<and>
    map name_parts (all_relations toy_parser stmts) = [[''public'', ''t'']]"
proof -
  have single: "single_connection (analyze_federation toy_parser ''pg.shop.t'' toy_connections) = Some ''pg''"
    by (simp add: analyze_eq(5,2,1) [OF toy_parse refl] toy refs_of_def see_connection_def)
  have visitor: "visitor_ok toy_parser" by (simp add: visitor_ok_def toy_parser_def)
  have inj: "inj_on (show_name toy_parser) (set (all_relations toy_parser [[toy_name [''pg'', ''shop'', ''t'']]]))"
    by (simp add: toy)
  have same: "prepared_sql ''pg.shop.t'' [''pg''] = prepared_sql ''pg.shop.t'' (map cc_name toy_connections)"
    by (simp add: toy_connections_def)
  show ?thesis
    using rewrite_strips_connection [OF toy_parse visitor inj refl single same]
    by (auto simp: toy toy_stripped list_all2_Cons1)
qed

end
