(* ===== verification/Schema_Visibility.thy ===== *)
theory Schema_Visibility
  imports Rust_Prelude
begin

text \<open>
  Visibility of schemas and tables in federated queries (\<open>federation_schema_visibility.rs\<close>):
  the configuration of one connection with its edits and its two checks, and the manager of the
  configurations of all connections. The answers of the manager are determined by the history of
  the operations on a connection.
\<close>

record visibility_config =
  fv_connection_id :: string
  fv_default_schema :: string
  fv_allow_all_schemas :: bool
  fv_allowed_schemas :: "string list"
  fv_excluded_schemas :: "string list"
  fv_excluded_tables :: "string list"
  fv_include_system_schemas :: bool

definition default_public_schema :: string where
  "default_public_schema = ''public''"

definition visibility_default :: visibility_config where
  "visibility_default =
     \<lparr>fv_connection_id = [], fv_default_schema = default_public_schema, fv_allow_all_schemas = True,
      fv_allowed_schemas = [], fv_excluded_schemas = [], fv_excluded_tables = [],
      fv_include_system_schemas = False\<rparr>"

definition visibility_new :: "string \<Rightarrow> visibility_config" where
  "visibility_new connection_id = visibility_default\<lparr>fv_connection_id := connection_id\<rparr>"

definition is_system_schema :: "string \<Rightarrow> bool" where
  "is_system_schema schema \<longleftrightarrow>
     to_lowercase schema \<in>
       {''information_schema'', ''pg_catalog'', ''sys'', ''mysql'', ''performance_schema''}"

definition is_schema_accessible :: "visibility_config \<Rightarrow> string \<Rightarrow> bool" where
  "is_schema_accessible v schema =
     (if schema = fv_default_schema v then True
      else if \<not> fv_include_system_schemas v \<and> is_system_schema schema then False
      else if schema \<in> set (fv_excluded_schemas v) then False
      else if fv_allow_all_schemas v then True
      else schema \<in> set (fv_allowed_schemas v))"

definition qualified_name :: "string \<Rightarrow> string \<Rightarrow> string" where
  "qualified_name schema table = schema @ ''.'' @ table"

definition is_table_accessible :: "visibility_config \<Rightarrow> string \<Rightarrow> string \<Rightarrow> bool" where
  "is_table_accessible v schema table =
     (if \<not> is_schema_accessible v schema then False
      else qualified_name schema table \<notin> set (fv_excluded_tables v))"


definition push_new :: "'a \<Rightarrow> 'a list \<Rightarrow> 'a list" where
  "push_new x xs = (if x \<notin> set xs then xs @ [x] else xs)"





definition add_excluded_table :: "string \<Rightarrow> string \<Rightarrow> visibility_config \<Rightarrow> visibility_config" where
  "add_excluded_table s t v = v\<lparr>fv_excluded_tables := push_new (qualified_name s t) (fv_excluded_tables v)\<rparr>"









section \<open>Operations on the manager\<close>

text \<open>
  What a caller does with the manager: it takes the configuration of a connection, which is created
  when there is none, and edits it through its methods or by assigning its public fields, or it
  removes a configuration.
\<close>

datatype visibility_edit =
    ExcludeSchema string | IncludeSchema string | AllowSchema string | DisallowSchema string
  | ExcludeTable string string | IncludeTable string string
  | SetDefaultSchema string | SetAllowAll bool | SetIncludeSystem bool | NoEdit


datatype manager_op = Edit string visibility_edit | Remove string


section \<open>Specification by the history\<close>

text \<open>
  A setting of a connection is what the latest operation that concerns it made of it; removing the
  configuration resets every setting. \<open>latest f d ops\<close> is the value that \<open>f\<close> gives for the last
  operation for which it gives one, and \<open>d\<close> when there is none.
\<close>

definition latest :: "(manager_op \<Rightarrow> 'a option) \<Rightarrow> 'a \<Rightarrow> manager_op list \<Rightarrow> 'a" where
  "latest f d ops = (case List.map_filter f (rev ops) of [] \<Rightarrow> d | x # _ \<Rightarrow> x)"

definition setting :: "string \<Rightarrow> (visibility_edit \<Rightarrow> 'a option) \<Rightarrow> 'a \<Rightarrow> manager_op list \<Rightarrow> 'a" where
  "setting c f d =
     latest (\<lambda>op. case op of Edit c' e \<Rightarrow> if c' = c then f e else None | Remove c' \<Rightarrow> if c' = c then Some d else None) d"

definition configured :: "manager_op list \<Rightarrow> string \<Rightarrow> bool" where
  "configured ops c = setting c (\<lambda>_. Some True) False ops"








lemma setting_Nil [simp]: "setting c f d [] = d"
  by (simp add: setting_def latest_def List.map_filter_simps)

lemma setting_snoc [simp]:
  "setting c f d (ops @ [Edit c' e]) = (case if c' = c then f e else None of Some x \<Rightarrow> x | None \<Rightarrow> setting c f d ops)"
  "setting c f d (ops @ [Remove c']) = (if c' = c then d else setting c f d ops)"
  by (simp_all add: setting_def latest_def List.map_filter_simps split: option.split)


section \<open>The manager refines the history\<close>


lemma push_new_simps [simp]: "set (push_new x xs) = insert x (set xs)" "distinct (push_new x xs) = distinct xs"
  by (auto simp: push_new_def)







lemma configured_snoc [simp]:
  "configured (ops @ [Edit c' e]) c = (c' = c \<or> configured ops c)"
  "configured (ops @ [Remove c']) c = (c' \<noteq> c \<and> configured ops c)"
  by (simp_all add: configured_def)






section \<open>Properties\<close>



text \<open>A qualified name does not tell where the schema ends: excluding a table hides one of another schema.\<close>

lemma dotted_names_confused:
  "\<not> is_table_accessible (add_excluded_table ''a'' ''b.c'' (visibility_new ''x'')) ''a.b'' ''c''"
  by (simp add: is_table_accessible_def add_excluded_table_def qualified_name_def visibility_new_def visibility_default_def
      push_new_def)

end
