(* ===== verification/Wkb.thy ===== *)
theory Wkb
  imports Rust_Prelude "HOL-Library.Word"
begin

text \<open>
  Decoding of well-known binary geometries (\<open>db/wkb.rs\<close>). A reader is the list of the bytes
  from its position on; a parser that runs past the end or meets an unknown tag returns
  \<open>None\<close>. A double is its 64 bits, and \<open>show_f64\<close>, the text of a double, is an argument.
  The recursion of \<open>parse_wkb_geometry\<close> over nested collections carries a bound on the depth,
  and \<open>decode_wkb_geometry\<close> starts with the number of bytes; \<open>decode_depth_enough\<close> shows that
  every greater bound gives the same result.
\<close>

unbundle bit_operations_syntax

type_synonym f64_bits = "64 word"

record wkb_dimensions =
  has_z :: bool
  has_m :: bool

definition dims_suffix :: "wkb_dimensions \<Rightarrow> string" where
  "dims_suffix d =
     (case (has_z d, has_m d) of
        (False, False) \<Rightarrow> ''''
      | (True, False) \<Rightarrow> '' Z''
      | (False, True) \<Rightarrow> '' M''
      | (True, True) \<Rightarrow> '' ZM'')"

definition coordinate_len :: "wkb_dimensions \<Rightarrow> nat" where
  "coordinate_len d = 2 + of_bool (has_z d) + of_bool (has_m d)"

datatype wkb_geometry =
    Point wkb_dimensions "f64_bits list option"
  | LineString wkb_dimensions "f64_bits list list"
  | Polygon wkb_dimensions "f64_bits list list list"
  | MultiPoint wkb_dimensions "f64_bits list option list"
  | MultiLineString wkb_dimensions "f64_bits list list list"
  | MultiPolygon wkb_dimensions "f64_bits list list list list"
  | GeometryCollection wkb_dimensions "wkb_geometry list"

record decoded_geometry =
  wkt :: string
  srid :: "32 word option"

section \<open>Printing\<close>

definition format_wkb_coordinate :: "(f64_bits \<Rightarrow> string) \<Rightarrow> f64_bits list \<Rightarrow> string" where
  "format_wkb_coordinate show_f64 coords = join '' '' (map show_f64 coords)"

definition format_wkb_coordinate_sequence :: "(f64_bits \<Rightarrow> string) \<Rightarrow> f64_bits list list \<Rightarrow> string" where
  "format_wkb_coordinate_sequence show_f64 points = join '','' (map (format_wkb_coordinate show_f64) points)"

definition parens :: "string \<Rightarrow> string" where
  "parens s = ''('' @ s @ '')''"

text \<open>A tag with its dimensions and its parts, or \<open>EMPTY\<close>.\<close>

definition tagged :: "string \<Rightarrow> wkb_dimensions \<Rightarrow> ('a list \<Rightarrow> string) \<Rightarrow> 'a list \<Rightarrow> string" where
  "tagged tag dims body parts =
     (if parts = [] then tag @ dims_suffix dims @ '' EMPTY'' else tag @ dims_suffix dims @ parens (body parts))"

fun to_wkt :: "(f64_bits \<Rightarrow> string) \<Rightarrow> wkb_geometry \<Rightarrow> string" where
  "to_wkt sf (Point dims coords) =
     (case coords of
        Some coords \<Rightarrow> ''POINT'' @ dims_suffix dims @ parens (format_wkb_coordinate sf coords)
      | None \<Rightarrow> ''POINT'' @ dims_suffix dims @ '' EMPTY'')"
| "to_wkt sf (LineString dims points) = tagged ''LINESTRING'' dims (format_wkb_coordinate_sequence sf) points"
| "to_wkt sf (Polygon dims rings) =
     tagged ''POLYGON'' dims (\<lambda>rs. join '','' (map (\<lambda>r. parens (format_wkb_coordinate_sequence sf r)) rs)) rings"
| "to_wkt sf (MultiPoint dims points) =
     tagged ''MULTIPOINT'' dims (\<lambda>ps. join '','' (map (\<lambda>p.
       case p of Some coords \<Rightarrow> parens (format_wkb_coordinate sf coords) | None \<Rightarrow> ''EMPTY'') ps)) points"
| "to_wkt sf (MultiLineString dims lines) =
     tagged ''MULTILINESTRING'' dims (\<lambda>ls. join '','' (map (\<lambda>l. parens (format_wkb_coordinate_sequence sf l)) ls)) lines"
| "to_wkt sf (MultiPolygon dims polygons) =
     tagged ''MULTIPOLYGON'' dims (\<lambda>ps. join '','' (map (\<lambda>p.
       parens (join '','' (map (\<lambda>r. parens (format_wkb_coordinate_sequence sf r)) p))) ps)) polygons"
| "to_wkt sf (GeometryCollection dims geometries) =
     tagged ''GEOMETRYCOLLECTION'' dims (\<lambda>gs. join '','' gs) (map (to_wkt sf) geometries)"

section \<open>Reading\<close>

datatype wkb_endian = Big | Little

type_synonym 'a reader = "8 word list \<Rightarrow> ('a \<times> 8 word list) option"

definition pret :: "'a \<Rightarrow> 'a reader" where
  "pret a bs = Some (a, bs)"

definition pfail :: "'a reader" where
  "pfail bs = None"

definition pbind :: "'a reader \<Rightarrow> ('a \<Rightarrow> 'b reader) \<Rightarrow> 'b reader" where
  "pbind p f bs = (case p bs of None \<Rightarrow> None | Some (a, bs') \<Rightarrow> f a bs')"

text \<open>\<open>(0..n).map(|_| p(reader)).collect::<Option<Vec<_>>>()\<close>\<close>

primrec repeat_read :: "nat \<Rightarrow> 'a reader \<Rightarrow> 'a list reader" where
  "repeat_read 0 p = pret []"
| "repeat_read (Suc n) p = pbind p (\<lambda>x. pbind (repeat_read n p) (\<lambda>xs. pret (x # xs)))"

fun read_u8 :: "8 word reader" where
  "read_u8 [] = None"
| "read_u8 (b # bs) = Some (b, bs)"

definition read_array :: "nat \<Rightarrow> 8 word list reader" where
  "read_array n bs = (if n \<le> length bs then Some (take n bs, drop n bs) else None)"

primrec le_value :: "8 word list \<Rightarrow> nat" where
  "le_value [] = 0"
| "le_value (b # bs) = unat b + 256 * le_value bs"

definition bytes_value :: "wkb_endian \<Rightarrow> 8 word list \<Rightarrow> nat" where
  "bytes_value e bs = (case e of Big \<Rightarrow> le_value (rev bs) | Little \<Rightarrow> le_value bs)"

definition read_u32 :: "wkb_endian \<Rightarrow> 32 word reader" where
  "read_u32 e = pbind (read_array 4) (\<lambda>bs. pret (of_nat (bytes_value e bs)))"

definition read_f64 :: "wkb_endian \<Rightarrow> f64_bits reader" where
  "read_f64 e = pbind (read_array 8) (\<lambda>bs. pret (of_nat (bytes_value e bs)))"

text \<open>\<open>f64::is_nan\<close> on the bits.\<close>

definition is_nan :: "f64_bits \<Rightarrow> bool" where
  "is_nan w \<longleftrightarrow> w AND 0x7FF0000000000000 = 0x7FF0000000000000 \<and> w AND 0x000FFFFFFFFFFFFF \<noteq> 0"

definition parse_wkb_dimensions :: "32 word \<Rightarrow> 32 word \<times> wkb_dimensions \<times> bool" where
  "parse_wkb_dimensions type_word =
     (let base = type_word AND 0x1FFFFFFF;
          dims = \<lparr>has_z = (type_word AND 0x80000000 \<noteq> 0), has_m = (type_word AND 0x40000000 \<noteq> 0)\<rparr>;
          has_srid = (type_word AND 0x20000000 \<noteq> 0)
      in if 3000 \<le> base then (base - 3000, dims\<lparr>has_z := True, has_m := True\<rparr>, has_srid)
         else if 2000 \<le> base then (base - 2000, dims\<lparr>has_m := True\<rparr>, has_srid)
         else if 1000 \<le> base then (base - 1000, dims\<lparr>has_z := True\<rparr>, has_srid)
         else (base, dims, has_srid))"

definition read_endian :: "wkb_endian reader" where
  "read_endian = pbind read_u8 (\<lambda>b. if b = 0 then pret Big else if b = 1 then pret Little else pfail)"

definition non_empty :: "f64_bits list \<Rightarrow> f64_bits list option" where
  "non_empty coords = (if list_all is_nan coords then None else Some coords)"

definition read_wkb_point_coords :: "wkb_dimensions \<Rightarrow> f64_bits list option reader" where
  "read_wkb_point_coords dims =
     pbind read_endian (\<lambda>e. pbind (read_u32 e) (\<lambda>type_word.
       let (base, parsed, has_srid) = parse_wkb_dimensions type_word
       in if base \<noteq> 1 \<or> parsed \<noteq> dims then pfail
          else pbind (if has_srid then pbind (read_u32 e) (\<lambda>_. pret ()) else pret ()) (\<lambda>_.
            pbind (repeat_read (coordinate_len parsed) (read_f64 e)) (\<lambda>coords. pret (non_empty coords)))))"

definition parse_wkb_points :: "wkb_endian \<Rightarrow> wkb_dimensions \<Rightarrow> f64_bits list list reader" where
  "parse_wkb_points e dims =
     pbind (read_u32 e) (\<lambda>count. repeat_read (unat count) (repeat_read (coordinate_len dims) (read_f64 e)))"

text \<open>\<open>has_srid.then(..).flatten().filter(..)\<close>: a failed read leaves the reader where it was.\<close>

definition read_srid :: "wkb_endian \<Rightarrow> bool \<Rightarrow> 32 word option reader" where
  "read_srid e has_srid bs =
     (if has_srid
      then (case read_u32 e bs of
          Some (w, bs') \<Rightarrow> Some (if w \<noteq> 0 then Some w else None, bs')
        | None \<Rightarrow> Some (None, bs))
      else Some (None, bs))"

definition line_points :: "wkb_geometry \<Rightarrow> f64_bits list list reader" where
  "line_points g = (case g of LineString _ points \<Rightarrow> pret points | _ \<Rightarrow> pfail)"

definition polygon_rings :: "wkb_geometry \<Rightarrow> f64_bits list list list reader" where
  "polygon_rings g = (case g of Polygon _ rings \<Rightarrow> pret rings | _ \<Rightarrow> pfail)"

definition parse_body ::
    "(wkb_geometry \<times> 32 word option) reader \<Rightarrow> wkb_endian \<Rightarrow> 32 word \<Rightarrow> wkb_dimensions \<Rightarrow> wkb_geometry reader" where
  "parse_body nested e base dims =
     (if base = 1 then pbind (repeat_read (coordinate_len dims) (read_f64 e)) (\<lambda>coords. pret (Point dims (non_empty coords)))
      else if base = 2 then pbind (parse_wkb_points e dims) (\<lambda>points. pret (LineString dims points))
      else if base = 3 then pbind (read_u32 e) (\<lambda>n. pbind (repeat_read (unat n) (parse_wkb_points e dims)) (\<lambda>rings.
        pret (Polygon dims rings)))
      else if base = 4 then pbind (read_u32 e) (\<lambda>n. pbind (repeat_read (unat n) (read_wkb_point_coords dims)) (\<lambda>points.
        pret (MultiPoint dims points)))
      else if base = 5 then pbind (read_u32 e) (\<lambda>n.
        pbind (repeat_read (unat n) (pbind nested (\<lambda>r. line_points (fst r)))) (\<lambda>lines. pret (MultiLineString dims lines)))
      else if base = 6 then pbind (read_u32 e) (\<lambda>n.
        pbind (repeat_read (unat n) (pbind nested (\<lambda>r. polygon_rings (fst r)))) (\<lambda>polygons. pret (MultiPolygon dims polygons)))
      else if base = 7 then pbind (read_u32 e) (\<lambda>n.
        pbind (repeat_read (unat n) (pbind nested (\<lambda>r. pret (fst r)))) (\<lambda>geometries. pret (GeometryCollection dims geometries)))
      else pfail)"

primrec parse_wkb_geometry :: "nat \<Rightarrow> (wkb_geometry \<times> 32 word option) reader" where
  "parse_wkb_geometry 0 = pfail"
| "parse_wkb_geometry (Suc depth) =
     pbind read_endian (\<lambda>e. pbind (read_u32 e) (\<lambda>type_word.
       let (base, dims, has_srid) = parse_wkb_dimensions type_word
       in pbind (read_srid e has_srid) (\<lambda>s.
            pbind (parse_body (parse_wkb_geometry depth) e base dims) (\<lambda>g. pret (g, s)))))"

definition decode_wkb_geometry :: "(f64_bits \<Rightarrow> string) \<Rightarrow> 8 word list \<Rightarrow> decoded_geometry option" where
  "decode_wkb_geometry sf raw =
     (case parse_wkb_geometry (length raw) raw of
        None \<Rightarrow> None
      | Some ((g, s), rest) \<Rightarrow> if rest \<noteq> [] then None else Some \<lparr>wkt = to_wkt sf g, srid = s\<rparr>)"

definition wkb_to_wkt :: "(f64_bits \<Rightarrow> string) \<Rightarrow> 8 word list \<Rightarrow> string option" where
  "wkb_to_wkt sf raw = map_option wkt (decode_wkb_geometry sf raw)"

section \<open>The bound on the depth is enough\<close>

definition shrinks :: "'a reader \<Rightarrow> bool" where
  "shrinks p \<longleftrightarrow> (\<forall>bs a bs'. p bs = Some (a, bs') \<longrightarrow> length bs' \<le> length bs)"

named_theorems reader_rules

lemma shrinks_ret [reader_rules]: "shrinks (pret a)"
  by (simp add: shrinks_def pret_def)

lemma shrinks_fail [reader_rules]: "shrinks pfail"
  by (simp add: shrinks_def pfail_def)

lemma shrinks_bind [reader_rules]: "shrinks p \<Longrightarrow> (\<And>a. shrinks (f a)) \<Longrightarrow> shrinks (pbind p f)"
  by (fastforce simp: shrinks_def pbind_def split: option.splits)

lemma shrinks_times [reader_rules]: "shrinks p \<Longrightarrow> shrinks (repeat_read n p)"
  by (induction n) (simp_all add: reader_rules)

lemma shrinks_array [reader_rules]: "shrinks (read_array n)"
  by (simp add: shrinks_def read_array_def)

lemma shrinks_u8 [reader_rules]: "shrinks read_u8"
  unfolding shrinks_def by (auto elim: read_u8.elims)

lemma shrinks_u32 [reader_rules]: "shrinks (read_u32 e)"
  unfolding read_u32_def by (intro reader_rules)

lemma shrinks_f64 [reader_rules]: "shrinks (read_f64 e)"
  unfolding read_f64_def by (intro reader_rules)

lemma shrinks_endian [reader_rules]: "shrinks read_endian"
  unfolding read_endian_def by (simp add: reader_rules)

lemma shrinks_srid [reader_rules]: "shrinks (read_srid e h)"
  using shrinks_u32 [of e] by (auto simp: shrinks_def read_srid_def split: option.splits if_splits)

lemma shrinks_points [reader_rules]: "shrinks (parse_wkb_points e dims)"
  unfolding parse_wkb_points_def by (intro reader_rules)

lemma shrinks_point_coords [reader_rules]: "shrinks (read_wkb_point_coords dims)"
  unfolding read_wkb_point_coords_def by (auto simp: Let_def intro!: reader_rules split: prod.split)

lemma shrinks_parts [reader_rules]: "shrinks (line_points g)" "shrinks (polygon_rings g)"
  by (simp_all add: line_points_def polygon_rings_def reader_rules split: wkb_geometry.split)

lemma shrinks_body [reader_rules]: "shrinks nested \<Longrightarrow> shrinks (parse_body nested e base dims)"
  by (auto simp: parse_body_def intro!: reader_rules)

lemma shrinks_geometry [reader_rules]: "shrinks (parse_wkb_geometry d)"
  by (induction d) (auto simp: Let_def intro!: reader_rules split: prod.split)

definition agree :: "nat \<Rightarrow> 'a reader \<Rightarrow> 'a reader \<Rightarrow> bool" where
  "agree n p q \<longleftrightarrow> (\<forall>bs. length bs \<le> n \<longrightarrow> p bs = q bs)"

lemma agree_refl [simp]: "agree n p p"
  by (simp add: agree_def)

lemma agree_bind:
  "agree n p q \<Longrightarrow> shrinks p \<Longrightarrow> (\<And>a. agree n (f a) (g a)) \<Longrightarrow> agree n (pbind p f) (pbind q g)"
  unfolding agree_def pbind_def shrinks_def by (force split: option.split)

lemma agree_times: "agree n p q \<Longrightarrow> shrinks p \<Longrightarrow> agree n (repeat_read k p) (repeat_read k q)"
  by (induction k) (simp_all add: agree_bind reader_rules)

lemma agree_body:
  assumes "agree n p q" "shrinks p"
  shows "agree n (parse_body p e base dims) (parse_body q e base dims)"
proof -
  have "agree n (repeat_read k (pbind p f)) (repeat_read k (pbind q f))"
    if "\<And>a. shrinks (f a)" for k and f :: "wkb_geometry \<times> 32 word option \<Rightarrow> 'x reader"
    using that assms by (intro agree_times agree_bind) (simp_all add: reader_rules)
  then show ?thesis
    unfolding parse_body_def
    by (simp add: agree_bind agree_times assms reader_rules)
qed

lemma agree_weaken: "agree n p q \<Longrightarrow> m \<le> n \<Longrightarrow> agree m p q"
  by (simp add: agree_def)

text \<open>The byte of the order is consumed before any nested geometry.\<close>

lemma read_endian_shorter: "read_endian bs = Some (e, bs') \<Longrightarrow> length bs' < length bs"
  by (cases bs) (auto simp: read_endian_def pbind_def pret_def pfail_def split: if_splits)

lemma agree_endian:
  assumes "\<And>e. agree n (f e) (g e)"
  shows "agree (Suc n) (pbind read_endian f) (pbind read_endian g)"
  unfolding agree_def
proof (intro allI impI)
  fix bs :: "8 word list"
  assume len: "length bs \<le> Suc n"
  show "pbind read_endian f bs = pbind read_endian g bs"
  proof (cases "read_endian bs")
    case (Some r)
    obtain e bs' where r: "r = (e, bs')" by (rule prod.exhaust)
    have "length bs' \<le> n" using read_endian_shorter [of bs e bs'] Some r len by simp
    then show ?thesis using assms by (simp add: pbind_def Some r agree_def)
  qed (simp add: pbind_def)
qed

lemma agree_depth: "n \<le> d \<Longrightarrow> agree n (parse_wkb_geometry d) (parse_wkb_geometry n)"
proof (induction n arbitrary: d)
  case 0
  show ?case by (cases d) (simp_all add: agree_def pbind_def read_endian_def pfail_def)
next
  case (Suc n)
  obtain d' where d: "d = Suc d'" "n \<le> d'" using Suc.prems by (cases d) auto
  have "agree n (parse_body (parse_wkb_geometry d') e b dims) (parse_body (parse_wkb_geometry n) e b dims)"
    for e b dims by (intro agree_body Suc.IH d(2) reader_rules)
  then show ?case
    unfolding d(1) parse_wkb_geometry.simps Let_def
    by (intro agree_endian agree_bind) (auto intro!: agree_bind reader_rules split: prod.split)
qed

section \<open>The encoding\<close>

primrec le_bytes :: "nat \<Rightarrow> nat \<Rightarrow> 8 word list" where
  "le_bytes 0 x = []"
| "le_bytes (Suc n) x = of_nat x # le_bytes n (x div 256)"

definition to_bytes :: "wkb_endian \<Rightarrow> nat \<Rightarrow> nat \<Rightarrow> 8 word list" where
  "to_bytes e n x = (case e of Big \<Rightarrow> rev (le_bytes n x) | Little \<Rightarrow> le_bytes n x)"

definition put_u32 :: "wkb_endian \<Rightarrow> 32 word \<Rightarrow> 8 word list" where
  "put_u32 e w = to_bytes e 4 (unat w)"

definition put_f64 :: "wkb_endian \<Rightarrow> f64_bits \<Rightarrow> 8 word list" where
  "put_f64 e w = to_bytes e 8 (unat w)"

definition type_word :: "32 word \<Rightarrow> wkb_dimensions \<Rightarrow> bool \<Rightarrow> 32 word" where
  "type_word base dims has_srid =
     base OR (if has_z dims then 0x80000000 else 0) OR (if has_m dims then 0x40000000 else 0) OR
     (if has_srid then 0x20000000 else 0)"

definition put_header :: "wkb_endian \<Rightarrow> 32 word \<Rightarrow> wkb_dimensions \<Rightarrow> 32 word option \<Rightarrow> 8 word list" where
  "put_header e base dims s =
     [case e of Big \<Rightarrow> 0 | Little \<Rightarrow> 1] @ put_u32 e (type_word base dims (s \<noteq> None)) @
     (case s of None \<Rightarrow> [] | Some w \<Rightarrow> put_u32 e w)"

definition put_coords :: "wkb_endian \<Rightarrow> f64_bits list \<Rightarrow> 8 word list" where
  "put_coords e cs = concat (map (put_f64 e) cs)"

definition put_list :: "wkb_endian \<Rightarrow> ('a \<Rightarrow> 8 word list) \<Rightarrow> 'a list \<Rightarrow> 8 word list" where
  "put_list e put xs = put_u32 e (of_nat (length xs)) @ concat (map put xs)"

definition nan :: f64_bits where
  "nan = 0x7FF8000000000000"

definition put_point :: "wkb_endian \<Rightarrow> wkb_dimensions \<Rightarrow> f64_bits list option \<Rightarrow> 8 word list" where
  "put_point e dims p =
     put_coords e (case p of Some cs \<Rightarrow> cs | None \<Rightarrow> replicate (coordinate_len dims) nan)"

fun encode_wkb :: "wkb_endian \<Rightarrow> 32 word option \<Rightarrow> wkb_geometry \<Rightarrow> 8 word list" where
  "encode_wkb e s (Point dims p) = put_header e 1 dims s @ put_point e dims p"
| "encode_wkb e s (LineString dims ps) = put_header e 2 dims s @ put_list e (put_coords e) ps"
| "encode_wkb e s (Polygon dims rs) = put_header e 3 dims s @ put_list e (put_list e (put_coords e)) rs"
| "encode_wkb e s (MultiPoint dims ps) =
     put_header e 4 dims s @ put_list e (\<lambda>p. put_header e 1 dims None @ put_point e dims p) ps"
| "encode_wkb e s (MultiLineString dims ls) =
     put_header e 5 dims s @ put_list e (\<lambda>l. put_header e 2 dims None @ put_list e (put_coords e) l) ls"
| "encode_wkb e s (MultiPolygon dims ps) =
     put_header e 6 dims s @
     put_list e (\<lambda>rs. put_header e 3 dims None @ put_list e (put_list e (put_coords e)) rs) ps"
| "encode_wkb e s (GeometryCollection dims gs) =
     put_header e 7 dims s @ put_list e id (map (encode_wkb e None) gs)"

definition short :: "'a list \<Rightarrow> bool" where
  "short xs \<longleftrightarrow> length xs < 2 ^ 32"

definition coords_ok :: "wkb_dimensions \<Rightarrow> f64_bits list \<Rightarrow> bool" where
  "coords_ok dims cs \<longleftrightarrow> length cs = coordinate_len dims"

definition points_ok :: "wkb_dimensions \<Rightarrow> f64_bits list list \<Rightarrow> bool" where
  "points_ok dims ps \<longleftrightarrow> short ps \<and> list_all (coords_ok dims) ps"

definition point_ok :: "wkb_dimensions \<Rightarrow> f64_bits list option \<Rightarrow> bool" where
  "point_ok dims p = (case p of None \<Rightarrow> True | Some cs \<Rightarrow> coords_ok dims cs \<and> \<not> list_all is_nan cs)"

text \<open>Geometries that the format can express.\<close>

fun geometry_ok :: "wkb_geometry \<Rightarrow> bool" where
  "geometry_ok (Point dims p) = point_ok dims p"
| "geometry_ok (LineString dims ps) = points_ok dims ps"
| "geometry_ok (Polygon dims rs) = (short rs \<and> list_all (points_ok dims) rs)"
| "geometry_ok (MultiPoint dims ps) = (short ps \<and> list_all (point_ok dims) ps)"
| "geometry_ok (MultiLineString dims ls) = (short ls \<and> list_all (points_ok dims) ls)"
| "geometry_ok (MultiPolygon dims ps) =
     (short ps \<and> list_all (\<lambda>rs. short rs \<and> list_all (points_ok dims) rs) ps)"
| "geometry_ok (GeometryCollection dims gs) = (short gs \<and> list_all geometry_ok gs)"

text \<open>A parser reads a value back from its encoding, whatever follows.\<close>

definition reads :: "'a reader \<Rightarrow> 'a \<Rightarrow> 8 word list \<Rightarrow> bool" where
  "reads p x bs \<longleftrightarrow> (\<forall>rest. p (bs @ rest) = Some (x, rest))"

lemma reads_ret: "reads (pret x) x []"
  by (simp add: reads_def pret_def)

lemma reads_bind: "reads p x b1 \<Longrightarrow> reads (f x) y b2 \<Longrightarrow> reads (pbind p f) y (b1 @ b2)"
  by (simp add: reads_def pbind_def)

lemma reads_map: "reads p x bs \<Longrightarrow> reads (pbind p (\<lambda>x. pret (h x))) (h x) bs"
  by (simp add: reads_def pbind_def pret_def)

lemma reads_times:
  "list_all (\<lambda>x. reads p x (put x)) xs \<Longrightarrow> reads (repeat_read (length xs) p) xs (concat (map put xs))"
proof (induction xs)
  case (Cons x xs)
  have "reads (repeat_read (length xs) p) xs (concat (map put xs))" using Cons by simp
  then have "reads (pbind (repeat_read (length xs) p) (\<lambda>xs. pret (x # xs))) (x # xs) (concat (map put xs))"
    by (rule reads_map [of _ _ _ "Cons x"])
  then show ?case using Cons.prems by (auto intro!: reads_bind)
qed (simp add: reads_ret)

lemma le_value_bytes: "le_value (le_bytes n x) = x mod 256 ^ n"
proof (induction n arbitrary: x)
  case (Suc n)
  have "unat (of_nat x :: 8 word) = x mod 256" by (simp add: unat_of_nat)
  then show ?case using Suc by (simp add: mod_mult2_eq)
qed simp

lemma length_le_bytes [simp]: "length (le_bytes n x) = n"
  by (induction n arbitrary: x) simp_all

lemma length_to_bytes [simp]: "length (to_bytes e n x) = n"
  by (simp add: to_bytes_def split: wkb_endian.split)

lemma bytes_value_to_bytes: "bytes_value e (to_bytes e n x) = x mod 256 ^ n"
  by (simp add: bytes_value_def to_bytes_def le_value_bytes split: wkb_endian.split)

lemma unat_less_power: "unat (w :: 'a::len word) < 2 ^ LENGTH('a)"
  by (rule unsigned_less)

lemma reads_u32: "reads (read_u32 e) w (put_u32 e w)"
proof -
  have "unat w mod 256 ^ 4 = unat w" using unat_less_power [of w] by simp
  then show ?thesis
    by (simp add: reads_def read_u32_def put_u32_def pbind_def pret_def read_array_def bytes_value_to_bytes)
qed

lemma reads_f64: "reads (read_f64 e) w (put_f64 e w)"
proof -
  have "unat w mod 256 ^ 8 = unat w" using unat_less_power [of w] by simp
  then show ?thesis
    by (simp add: reads_def read_f64_def put_f64_def pbind_def pret_def read_array_def bytes_value_to_bytes)
qed

lemma reads_list:
  assumes "short xs" "list_all (\<lambda>x. reads p x (put x)) xs"
  shows "reads (pbind (read_u32 e) (\<lambda>n. repeat_read (unat n) p)) xs (put_list e put xs)"
proof -
  have "unat (of_nat (length xs) :: 32 word) = length xs"
    using assms(1) by (simp add: short_def unat_of_nat)
  then show ?thesis
    unfolding put_list_def using reads_times [OF assms(2)] by (intro reads_bind [OF reads_u32]) simp
qed

lemma reads_coords: "coords_ok dims cs \<Longrightarrow> reads (repeat_read (coordinate_len dims) (read_f64 e)) cs (put_coords e cs)"
  using reads_times [of "read_f64 e" "put_f64 e" cs]
  by (simp add: coords_ok_def put_coords_def reads_f64 list_all_iff)

lemma parse_type_word:
  assumes "base \<in> {1, 2, 3, 4, 5, 6, 7}"
  shows "parse_wkb_dimensions (type_word base dims h) = (base, dims, h)"
proof -
  have split: "(base OR z OR m OR h) AND k = (base AND k) OR (z AND k) OR (m AND k) OR (h AND k)"
    for z m h k :: "32 word" by (simp add: bit.conj_disj_distrib2)
  have base: "base AND 0x1FFFFFFF = base" "base AND 0x80000000 = 0" "base AND 0x40000000 = 0"
    "base AND 0x20000000 = 0" "\<not> 1000 \<le> base" "\<not> 2000 \<le> base" "\<not> 3000 \<le> base"
    using assms by (auto simp: word_le_nat_alt)
  show ?thesis
    by (cases dims) (simp add: parse_wkb_dimensions_def type_word_def split base Let_def)
qed

lemma reads_endian: "reads read_endian e [case e of Big \<Rightarrow> 0 | Little \<Rightarrow> 1]"
  by (simp add: reads_def read_endian_def pbind_def pret_def split: wkb_endian.split)

lemma reads_srid:
  "s \<noteq> Some 0 \<Longrightarrow> reads (read_srid e (s \<noteq> None)) s (case s of None \<Rightarrow> [] | Some w \<Rightarrow> put_u32 e w)"
  using reads_u32 [of e] by (auto simp: reads_def read_srid_def split: option.split)

lemma reads_header:
  assumes base: "base \<in> {1, 2, 3, 4, 5, 6, 7}" and s: "s \<noteq> Some 0"
    and body: "reads (parse_body (parse_wkb_geometry n) e base dims) g bs"
  shows "reads (parse_wkb_geometry (Suc n)) (g, s) (put_header e base dims s @ bs)"
proof -
  have "reads (pbind (read_srid e (s \<noteq> None)) (\<lambda>s.
      pbind (parse_body (parse_wkb_geometry n) e base dims) (\<lambda>g. pret (g, s)))) (g, s)
      ((case s of None \<Rightarrow> [] | Some w \<Rightarrow> put_u32 e w) @ bs)"
    by (rule reads_bind [OF reads_srid [OF s]]) (rule reads_map [OF body])
  then have "reads (let (base, dims, has_srid) = parse_wkb_dimensions (type_word base dims (s \<noteq> None))
      in pbind (read_srid e has_srid) (\<lambda>s.
        pbind (parse_body (parse_wkb_geometry n) e base dims) (\<lambda>g. pret (g, s)))) (g, s)
      ((case s of None \<Rightarrow> [] | Some w \<Rightarrow> put_u32 e w) @ bs)"
    unfolding parse_type_word [OF base] Let_def prod.case .
  then have "reads (pbind (read_u32 e) (\<lambda>type_word.
      let (base, dims, has_srid) = parse_wkb_dimensions type_word
      in pbind (read_srid e has_srid) (\<lambda>s.
        pbind (parse_body (parse_wkb_geometry n) e base dims) (\<lambda>g. pret (g, s))))) (g, s)
      (put_u32 e (type_word base dims (s \<noteq> None)) @ (case s of None \<Rightarrow> [] | Some w \<Rightarrow> put_u32 e w) @ bs)"
    by (rule reads_bind [OF reads_u32])
  then show ?thesis
    unfolding put_header_def parse_wkb_geometry.simps append_assoc by (rule reads_bind [OF reads_endian])
qed

lemma list_all_nan: "list_all is_nan (replicate n nan)"
  by (simp add: list_all_iff is_nan_def nan_def)

lemma reads_point:
  assumes "point_ok dims p"
  shows "reads (pbind (repeat_read (coordinate_len dims) (read_f64 e)) (\<lambda>cs. pret (h (non_empty cs)))) (h p)
    (put_point e dims p)"
proof (cases p)
  case None
  have "coords_ok dims (replicate (coordinate_len dims) nan)" by (simp add: coords_ok_def)
  from reads_map [OF reads_coords [OF this], where h = "\<lambda>cs. h (non_empty cs)"]
  show ?thesis by (simp add: None put_point_def non_empty_def list_all_nan)
next
  case (Some cs)
  have "coords_ok dims cs" "\<not> list_all is_nan cs" using assms by (simp_all add: Some point_ok_def)
  with reads_map [OF reads_coords [of dims cs], where h = "\<lambda>cs. h (non_empty cs)"]
  show ?thesis by (simp add: Some put_point_def non_empty_def)
qed

lemma reads_points: "points_ok dims ps \<Longrightarrow> reads (parse_wkb_points e dims) ps (put_list e (put_coords e) ps)"
  unfolding parse_wkb_points_def points_ok_def
  by (rule reads_list) (auto simp: list_all_iff intro: reads_coords)

lemma reads_rings:
  "short rs \<Longrightarrow> list_all (points_ok dims) rs \<Longrightarrow>
     reads (pbind (read_u32 e) (\<lambda>n. repeat_read (unat n) (parse_wkb_points e dims))) rs
       (put_list e (put_list e (put_coords e)) rs)"
  by (rule reads_list) (auto simp: list_all_iff intro: reads_points)

lemma pbind_ret [simp]: "pbind (pret a) f = f a"
  by (rule ext) (simp add: pbind_def pret_def)

lemma pbind_assoc: "pbind (pbind p f) g = pbind p (\<lambda>x. pbind (f x) g)"
  by (rule ext) (simp add: pbind_def split: option.split)

lemma reads_counted:
  assumes "reads (pbind (read_u32 e) (\<lambda>n. repeat_read (unat n) p)) xs bs"
  shows "reads (pbind (read_u32 e) (\<lambda>n. pbind (repeat_read (unat n) p) (\<lambda>xs. pret (h xs)))) (h xs) bs"
  using reads_map [OF assms, where h = h] by (simp add: pbind_assoc)

lemma reads_line: "points_ok dims ps \<Longrightarrow> s \<noteq> Some 0 \<Longrightarrow>
    reads (parse_wkb_geometry (Suc n)) (LineString dims ps, s) (encode_wkb e s (LineString dims ps))"
  unfolding encode_wkb.simps
  by (rule reads_header) (simp_all add: parse_body_def reads_map reads_points)

lemma reads_polygon: "short rs \<Longrightarrow> list_all (points_ok dims) rs \<Longrightarrow> s \<noteq> Some 0 \<Longrightarrow>
    reads (parse_wkb_geometry (Suc n)) (Polygon dims rs, s) (encode_wkb e s (Polygon dims rs))"
  unfolding encode_wkb.simps
  by (rule reads_header) (simp_all add: parse_body_def reads_counted reads_rings)

lemma reads_wkb_point:
  assumes "point_ok dims p"
  shows "reads (read_wkb_point_coords dims) p (put_header e 1 dims None @ put_point e dims p)"
proof -
  have "reads (let (base, parsed, has_srid) = parse_wkb_dimensions (type_word 1 dims False)
       in if base \<noteq> 1 \<or> parsed \<noteq> dims then pfail
          else pbind (if has_srid then pbind (read_u32 e) (\<lambda>_. pret ()) else pret ()) (\<lambda>_.
            pbind (repeat_read (coordinate_len parsed) (read_f64 e)) (\<lambda>coords. pret (non_empty coords))))
      p (put_point e dims p)"
    using reads_point [OF assms, where h = id] by (simp add: parse_type_word)
  then have "reads (pbind (read_u32 e) (\<lambda>type_word.
      let (base, parsed, has_srid) = parse_wkb_dimensions type_word
       in if base \<noteq> 1 \<or> parsed \<noteq> dims then pfail
          else pbind (if has_srid then pbind (read_u32 e) (\<lambda>_. pret ()) else pret ()) (\<lambda>_.
            pbind (repeat_read (coordinate_len parsed) (read_f64 e)) (\<lambda>coords. pret (non_empty coords)))))
      p (put_u32 e (type_word 1 dims False) @ put_point e dims p)"
    by (rule reads_bind [OF reads_u32])
  then show ?thesis
    unfolding read_wkb_point_coords_def put_header_def append_assoc
    by (intro reads_bind [OF reads_endian]) simp
qed

fun geometry_depth :: "wkb_geometry \<Rightarrow> nat" where
  "geometry_depth (MultiLineString dims ls) = 2"
| "geometry_depth (MultiPolygon dims ps) = 2"
| "geometry_depth (GeometryCollection dims gs) = Suc (foldr max (map geometry_depth gs) 0)"
| "geometry_depth _ = 1"

lemma foldr_max_ge: "x \<in> set xs \<Longrightarrow> x \<le> foldr max xs (0 :: nat)"
  by (induction xs) (auto simp: le_max_iff_disj)

lemma foldr_max_le: "(\<And>x. x \<in> set xs \<Longrightarrow> x \<le> b) \<Longrightarrow> foldr max xs (0 :: nat) \<le> b"
  by (induction xs) simp_all

lemma reads_nested:
  assumes "reads (parse_wkb_geometry n) (g, None) bs" "f g = pret x"
  shows "reads (pbind (parse_wkb_geometry n) (\<lambda>r. f (fst r))) x bs"
  using assms by (simp add: reads_def pbind_def pret_def)

lemma reads_nested_line:
  assumes "points_ok dims ps"
  shows "reads (pbind (parse_wkb_geometry (Suc n)) (\<lambda>r. line_points (fst r))) ps
    (put_header e 2 dims None @ put_list e (put_coords e) ps)"
  using reads_line [OF assms, of None n e]
  by (intro reads_nested [where g = "LineString dims ps"]) (simp_all only: encode_wkb.simps line_points_def wkb_geometry.case
      option.distinct simp_thms)

lemma reads_nested_polygon:
  assumes "short rs \<and> list_all (points_ok dims) rs"
  shows "reads (pbind (parse_wkb_geometry (Suc n)) (\<lambda>r. polygon_rings (fst r))) rs
    (put_header e 3 dims None @ put_list e (put_list e (put_coords e)) rs)"
  using assms reads_polygon [of rs dims None n e]
  by (intro reads_nested [where g = "Polygon dims rs"])
    (simp_all only: encode_wkb.simps polygon_rings_def wkb_geometry.case option.distinct simp_thms)

lemma reads_geometry:
  "geometry_ok g \<Longrightarrow> s \<noteq> Some 0 \<Longrightarrow> geometry_depth g \<le> n \<Longrightarrow>
     reads (parse_wkb_geometry n) (g, s) (encode_wkb e s g)"
proof (induction e s g arbitrary: n rule: encode_wkb.induct)
  case (1 e s dims p)
  then obtain k where "n = Suc k" by (cases n) auto
  then show ?case
    using 1 unfolding encode_wkb.simps by (simp only:) (rule reads_header, simp_all add: parse_body_def reads_point)
next
  case (2 e s dims ps)
  then obtain k where "n = Suc k" by (cases n) auto
  then show ?case using 2 reads_line by simp
next
  case (3 e s dims rs)
  then obtain k where "n = Suc k" by (cases n) auto
  then show ?case using 3 reads_polygon by simp
next
  case (4 e s dims ps)
  then obtain k where n: "n = Suc k" by (cases n) auto
  have "reads (pbind (read_u32 e) (\<lambda>m. repeat_read (unat m) (read_wkb_point_coords dims))) ps
      (put_list e (\<lambda>p. put_header e 1 dims None @ put_point e dims p) ps)"
    using 4 by (intro reads_list) (auto simp: list_all_iff intro: reads_wkb_point)
  then show ?case
    using 4 unfolding encode_wkb.simps n by (intro reads_header) (simp_all add: parse_body_def reads_counted)
next
  case (5 e s dims ls)
  then obtain k where n: "n = Suc (Suc k)" by (cases n rule: nat.exhaust; cases "n - 1") auto
  have "reads (pbind (read_u32 e) (\<lambda>m. repeat_read (unat m)
      (pbind (parse_wkb_geometry (Suc k)) (\<lambda>r. line_points (fst r))))) ls
      (put_list e (\<lambda>l. put_header e 2 dims None @ put_list e (put_coords e) l) ls)"
    using 5(1) by (intro reads_list) (auto simp only: list_all_iff geometry_ok.simps intro!: reads_nested_line)
  then show ?case
    using 5 unfolding encode_wkb.simps n by (intro reads_header) (simp_all add: parse_body_def reads_counted)
next
  case (6 e s dims ps)
  then obtain k where n: "n = Suc (Suc k)" by (cases n rule: nat.exhaust; cases "n - 1") auto
  have "reads (pbind (read_u32 e) (\<lambda>m. repeat_read (unat m)
      (pbind (parse_wkb_geometry (Suc k)) (\<lambda>r. polygon_rings (fst r))))) ps
      (put_list e (\<lambda>rs. put_header e 3 dims None @ put_list e (put_list e (put_coords e)) rs) ps)"
    using 6(1) by (intro reads_list) (auto simp only: list_all_iff geometry_ok.simps intro!: reads_nested_polygon)
  then show ?case
    using 6 unfolding encode_wkb.simps n by (intro reads_header) (simp_all add: parse_body_def reads_counted)
next
  case (7 e s dims gs)
  then obtain k where n: "n = Suc k" by (cases n) auto
  have "reads (parse_wkb_geometry k) (g, None) (encode_wkb e None g)" if "g \<in> set gs" for g
  proof (rule 7(1) [OF that])
    have "geometry_depth g \<le> foldr max (map geometry_depth gs) 0" using that by (intro foldr_max_ge) auto
    then show "geometry_depth g \<le> k" using 7(4) n by simp
  qed (use 7(2) that in \<open>auto simp: list_all_iff\<close>)
  then have "reads (pbind (read_u32 e) (\<lambda>m. repeat_read (unat m)
      (pbind (parse_wkb_geometry k) (\<lambda>r. pret (fst r))))) gs (put_list e (encode_wkb e None) gs)"
    using 7(2) by (intro reads_list) (auto simp: list_all_iff intro!: reads_nested [where f = pret])
  moreover have "put_list e id (map (encode_wkb e None) gs) = put_list e (encode_wkb e None) gs"
    by (simp add: put_list_def)
  ultimately show ?case
    using 7(3) unfolding encode_wkb.simps n by (intro reads_header) (simp_all add: parse_body_def reads_counted)
qed

lemma length_put_header: "5 \<le> length (put_header e b dims s)"
  by (simp add: put_header_def put_u32_def)

lemma length_concat_ge: "x \<in> set xs \<Longrightarrow> length x \<le> length (concat xs)"
  by (induction xs) auto

lemma depth_le_length: "geometry_depth g \<le> length (encode_wkb e s g)"
proof (induction e s g rule: encode_wkb.induct)
  case (7 e s dims gs)
  have "foldr max (map geometry_depth gs) 0 \<le> length (concat (map (encode_wkb e None) gs))"
    using 7 by (intro foldr_max_le) (auto intro!: order_trans [OF 7 length_concat_ge])
  then show ?case using length_put_header [of e 7 dims s] by (simp add: put_list_def)
qed (simp_all add: put_header_def put_u32_def)

section \<open>Properties\<close>

text \<open>C15: Decoding reads back what the format encodes: for every geometry the format can express, in both
  byte orders, with or without a reference system, nested to any depth, the decoder gives the
  text of that geometry and the reference system. The encoding is the extended one, with flags for
  the dimensions, and a reference system is not 0, which the decoder takes for none.\<close>

theorem decode_encode_wkb:
  assumes "geometry_ok g" "s \<noteq> Some 0"
  shows "decode_wkb_geometry sf (encode_wkb e s g) = Some \<lparr>wkt = to_wkt sf g, srid = s\<rparr>"
proof -
  have "reads (parse_wkb_geometry (length (encode_wkb e s g))) (g, s) (encode_wkb e s g)"
    using assms depth_le_length by (intro reads_geometry)
  then have "parse_wkb_geometry (length (encode_wkb e s g)) (encode_wkb e s g @ []) = Some ((g, s), [])"
    unfolding reads_def by blast
  then show ?thesis by (simp add: decode_wkb_geometry_def)
qed

definition sample_geometry :: wkb_geometry where
  "sample_geometry =
     GeometryCollection \<lparr>has_z = False, has_m = False\<rparr>
       [Point \<lparr>has_z = False, has_m = False\<rparr> (Some [0, 0]), Point \<lparr>has_z = True, has_m = False\<rparr> None]"

theorem decode_encode_wkb_witness:
  "decode_wkb_geometry (\<lambda>w. show_nat (unat w)) (encode_wkb Little (Some 4326) sample_geometry) =
     Some \<lparr>wkt = to_wkt (\<lambda>w. show_nat (unat w)) sample_geometry, srid = Some 4326\<rparr>"
proof -
  have "geometry_ok sample_geometry"
    by (simp add: sample_geometry_def point_ok_def coords_ok_def coordinate_len_def is_nan_def short_def)
  then show ?thesis by (rule decode_encode_wkb) simp
qed

text \<open>The decoder terminates on every input: the nesting it follows is bounded by the number of bytes,
  so that any greater bound on the depth parses the same geometry and leaves the same rest.\<close>

lemma decode_depth_enough:
  "parse_wkb_geometry (length raw + extra) raw = parse_wkb_geometry (length raw) raw"
  using agree_depth [of "length raw" "length raw + extra"] by (simp add: agree_def)

end
