(* ===== verification/State_Calibrator.thy ===== *)
theory State_Calibrator
  imports Encrypted_Payload "HOL-Library.List_Lexorder" "HOL-Library.Char_ord"
begin

text \<open>
  Calibration of object states (\<open>state_calibrator.rs\<close>): fingerprints of normalised definitions,
  the three-way reconciliation of a baseline with a source and a target, the detection of drift,
  and the plan of a new baseline.

  SHA-256 is the argument \<open>digest\<close>; identifiers and timestamps of new records are arguments
  too. A drift score is one of the constants of the code, by its name; \<open>mean_score\<close> is the
  floating-point mean of the scores of a report.
\<close>

datatype drift_score = DriftNone | DriftNewObject | DriftSingleSide | DriftIdenticalChange | DriftDeleted
  | DriftStaleBaseline | DriftConflict | DriftPseudo

datatype object_kind = Table | View | Function | Sequence | Rule | Permission

fun kind_as_str :: "object_kind \<Rightarrow> string" where
  "kind_as_str Table = ''table''"
| "kind_as_str View = ''view''"
| "kind_as_str Function = ''function''"
| "kind_as_str Sequence = ''sequence''"
| "kind_as_str Rule = ''rule''"
| "kind_as_str Permission = ''permission''"

record object_definition =
  od_kind :: object_kind
  od_name :: string
  od_schema :: "string option"
  od_definition :: string

definition object_key :: "object_definition \<Rightarrow> string" where
  "object_key obj =
     (case od_schema obj of
        Some schema \<Rightarrow> kind_as_str (od_kind obj) @ ''.'' @ schema @ ''.'' @ od_name obj
      | None \<Rightarrow> kind_as_str (od_kind obj) @ ''.'' @ od_name obj)"

section \<open>Normalisation and fingerprints\<close>

definition normalize_definition :: "string \<Rightarrow> string" where
  "normalize_definition def =
     join [CHR 0x0A] (map (\<lambda>line. join '' '' (split_whitespace line))
       (split_char (CHR 0x0A) (str_replace def [CHR 0x0D, CHR 0x0A] [CHR 0x0A])))"

definition hex :: "byte list \<Rightarrow> string" where
  "hex data = concat (map (\<lambda>b. [hex_digit (unat b div 16), hex_digit (unat b mod 16)]) data)"

definition object_fingerprint :: "(byte list \<Rightarrow> byte list) \<Rightarrow> string \<Rightarrow> string" where
  "object_fingerprint digest def = hex (digest (as_bytes (normalize_definition def)))"

record semantic_fingerprint =
  fingerprint :: string
  object_fingerprints :: "(string, string) hash_map"

definition compute_fingerprint ::
    "(byte list \<Rightarrow> byte list) \<Rightarrow> object_definition list \<Rightarrow> semantic_fingerprint" where
  "compute_fingerprint digest objects =
     (let fps = hm_collect (map (\<lambda>o'. (object_key o', object_fingerprint digest (od_definition o'))) objects);
          all_keys = sort (map fst fps);
          hashed = concat (map (\<lambda>k. as_bytes k @ as_bytes '':'' @ as_bytes (the (hm_get fps k)) @ as_bytes '';'') all_keys)
      in \<lparr>fingerprint = hex (digest hashed), object_fingerprints = fps\<rparr>)"

record state_snapshot =
  ss_id :: string
  ss_timestamp :: string
  ss_label :: string
  ss_objects :: "object_definition list"
  ss_fingerprint :: semantic_fingerprint

definition snapshot_new ::
    "(byte list \<Rightarrow> byte list) \<Rightarrow> string \<Rightarrow> string \<Rightarrow> string \<Rightarrow> object_definition list \<Rightarrow> state_snapshot" where
  "snapshot_new digest new_id now label objects =
     \<lparr>ss_id = new_id, ss_timestamp = now, ss_label = label, ss_objects = objects,
      ss_fingerprint = compute_fingerprint digest objects\<rparr>"

section \<open>Three-way reconciliation\<close>

datatype reconciliation_status =
    Synced | SourceDrifted | TargetDrifted | BothDriftedIdentical | BothDriftedConflict
  | DeletedInSource | DeletedInTarget | NewInSource | NewInTarget | NewInBoth | BaselineOnly

record object_reconciliation =
  or_object_key :: string
  or_kind :: object_kind
  or_name :: string
  or_status :: reconciliation_status
  or_baseline_fingerprint :: "string option"
  or_source_fingerprint :: "string option"
  or_target_fingerprint :: "string option"
  or_source_definition :: "string option"
  or_target_definition :: "string option"
  or_drift_score :: drift_score

record reconciliation_result =
  rr_baseline_id :: string
  rr_source_id :: string
  rr_target_id :: string
  rr_timestamp :: string
  rr_total_objects :: nat
  rr_synced_count :: nat
  rr_drifted_count :: nat
  rr_conflict_count :: nat
  rr_object_reconciliations :: "object_reconciliation list"

definition classify_reconciliation ::
    "string option \<Rightarrow> string option \<Rightarrow> string option \<Rightarrow> reconciliation_status \<times> drift_score" where
  "classify_reconciliation b_fp s_fp t_fp =
     (case (b_fp, s_fp, t_fp) of
        (Some b, Some s, Some t) \<Rightarrow>
          if b = s \<and> s = t then (Synced, DriftNone)
          else if b = s \<and> s \<noteq> t then (TargetDrifted, DriftSingleSide)
          else if b = t \<and> s \<noteq> t then (SourceDrifted, DriftSingleSide)
          else if s = t \<and> b \<noteq> s then (BothDriftedIdentical, DriftIdenticalChange)
          else (BothDriftedConflict, DriftConflict)
      | (Some _, None, Some _) \<Rightarrow> (DeletedInSource, DriftDeleted)
      | (Some _, Some _, None) \<Rightarrow> (DeletedInTarget, DriftDeleted)
      | (Some _, None, None) \<Rightarrow> (BaselineOnly, DriftStaleBaseline)
      | (None, Some s, Some t) \<Rightarrow>
          if s = t then (NewInBoth, DriftNone) else (BothDriftedConflict, DriftConflict)
      | (None, Some _, None) \<Rightarrow> (NewInSource, DriftNone)
      | (None, None, Some _) \<Rightarrow> (NewInTarget, DriftNone)
      | (None, None, None) \<Rightarrow> (Synced, DriftNone))"

definition object_map :: "object_definition list \<Rightarrow> (string, object_definition) hash_map" where
  "object_map objects = hm_collect (map (\<lambda>o'. (object_key o', o')) objects)"

definition see_key :: "string \<Rightarrow> string list \<Rightarrow> string list" where
  "see_key k keys = (if k \<notin> set keys then keys @ [k] else keys)"

definition all_keys ::
    "(string, 'a) hash_map \<Rightarrow> (string, 'b) hash_map \<Rightarrow> (string, 'c) hash_map \<Rightarrow> string list" where
  "all_keys b s t = sort (fold see_key (map fst b @ map fst s @ map fst t) [])"

definition or_else :: "'a option \<Rightarrow> 'a option \<Rightarrow> 'a option" where
  "or_else x y = (case x of Some _ \<Rightarrow> x | None \<Rightarrow> y)"

definition reconcile_key ::
    "(byte list \<Rightarrow> byte list) \<Rightarrow> (string, object_definition) hash_map \<Rightarrow> (string, object_definition) hash_map \<Rightarrow>
     (string, object_definition) hash_map \<Rightarrow> string \<Rightarrow> object_reconciliation" where
  "reconcile_key digest baseline_map source_map target_map key =
     (let b_obj = hm_get baseline_map key; s_obj = hm_get source_map key; t_obj = hm_get target_map key;
          fp = map_option (\<lambda>o'. object_fingerprint digest (od_definition o'));
          (status, score) = classify_reconciliation (fp b_obj) (fp s_obj) (fp t_obj);
          first = or_else (or_else b_obj s_obj) t_obj
      in \<lparr>or_object_key = key,
          or_kind = (case first of Some o' \<Rightarrow> od_kind o' | None \<Rightarrow> Table),
          or_name = (case first of Some o' \<Rightarrow> od_name o' | None \<Rightarrow> []),
          or_status = status, or_baseline_fingerprint = fp b_obj, or_source_fingerprint = fp s_obj,
          or_target_fingerprint = fp t_obj, or_source_definition = map_option od_definition s_obj,
          or_target_definition = map_option od_definition t_obj, or_drift_score = score\<rparr>)"

fun count_status :: "reconciliation_status \<Rightarrow> nat \<times> nat \<times> nat \<Rightarrow> nat \<times> nat \<times> nat" where
  "count_status st (synced, drifted, conflicts) =
     (case st of
        Synced \<Rightarrow> (synced + 1, drifted, conflicts)
      | NewInBoth \<Rightarrow> (synced + 1, drifted, conflicts)
      | BothDriftedConflict \<Rightarrow> (synced, drifted + 1, conflicts + 1)
      | _ \<Rightarrow> (synced, drifted + 1, conflicts))"

definition reconcile_three_way ::
    "(byte list \<Rightarrow> byte list) \<Rightarrow> string \<Rightarrow> state_snapshot \<Rightarrow> string \<Rightarrow> object_definition list \<Rightarrow> string \<Rightarrow>
     object_definition list \<Rightarrow> reconciliation_result" where
  "reconcile_three_way digest now baseline source_id source target_id target =
     (let baseline_map = object_map (ss_objects baseline); source_map = object_map source;
          target_map = object_map target;
          keys = all_keys baseline_map source_map target_map;
          recs = map (reconcile_key digest baseline_map source_map target_map) keys;
          (synced, drifted, conflicts) = fold (\<lambda>r. count_status (or_status r)) recs (0, 0, 0)
      in \<lparr>rr_baseline_id = ss_id baseline, rr_source_id = source_id, rr_target_id = target_id,
          rr_timestamp = now, rr_total_objects = length keys, rr_synced_count = synced,
          rr_drifted_count = drifted, rr_conflict_count = conflicts, rr_object_reconciliations = recs\<rparr>)"

section \<open>Drift\<close>

record drifted_object =
  do_object_key :: string
  do_baseline_fingerprint :: string
  do_current_fingerprint :: string
  do_is_pseudo_drift :: bool
  do_score :: drift_score

record 'f drift_report =
  dr_has_drift :: bool
  dr_drifted_objects :: "drifted_object list"
  dr_pseudo_drift_count :: nat
  dr_real_drift_count :: nat
  dr_overall_drift_score :: 'f

text \<open>\<open>str::lines\<close>: no last empty line, and no carriage return at the end of a line.\<close>

definition strip_cr :: "string \<Rightarrow> string" where
  "strip_cr line = (if line \<noteq> [] \<and> last line = CHR 0x0D then butlast line else line)"

definition str_lines :: "string \<Rightarrow> string list" where
  "str_lines s =
     (let ls = split_char (CHR 0x0A) s
      in (if last ls = [] then map strip_cr (butlast ls) else map strip_cr (butlast ls) @ [last ls]))"

definition strip_sql_comments :: "string \<Rightarrow> string" where
  "strip_sql_comments sql =
     join [CHR 0x0A] (filter (\<lambda>line. let trimmed = trim line in
       \<not> (starts_with trimmed ''--'' \<or> starts_with trimmed ''//'' \<or> starts_with trimmed ''#'')) (str_lines sql))"

definition filter_pseudo_drift :: "string \<Rightarrow> string option \<Rightarrow> bool" where
  "filter_pseudo_drift baseline_def current_def =
     (case current_def of
        None \<Rightarrow> False
      | Some cur_def \<Rightarrow>
          let b_norm = normalize_definition baseline_def; c_norm = normalize_definition cur_def
          in if b_norm = c_norm then True
             else strip_sql_comments b_norm = strip_sql_comments c_norm)"

definition or_empty :: "string option \<Rightarrow> string" where
  "or_empty x = (case x of Some s \<Rightarrow> s | None \<Rightarrow> [])"

definition drift_of ::
    "semantic_fingerprint \<Rightarrow> semantic_fingerprint \<Rightarrow> (string, object_definition) hash_map \<Rightarrow> object_definition \<Rightarrow>
     drifted_object option" where
  "drift_of baseline_fp current_fp current_map obj =
     (let b_fp = or_empty (hm_get (object_fingerprints baseline_fp) (object_key obj));
          c_fp = or_empty (hm_get (object_fingerprints current_fp) (object_key obj))
      in if b_fp \<noteq> c_fp
         then let is_pseudo = filter_pseudo_drift (od_definition obj)
                    (map_option od_definition (hm_get current_map (object_key obj)))
              in Some \<lparr>do_object_key = object_key obj, do_baseline_fingerprint = b_fp, do_current_fingerprint = c_fp,
                   do_is_pseudo_drift = is_pseudo,
                   do_score = (if is_pseudo then DriftPseudo else DriftIdenticalChange)\<rparr>
         else None)"

definition new_object_drift ::
    "semantic_fingerprint \<Rightarrow> semantic_fingerprint \<Rightarrow> object_definition \<Rightarrow> drifted_object option" where
  "new_object_drift baseline_fp current_fp obj =
     (if hm_get (object_fingerprints baseline_fp) (object_key obj) = None
      then Some \<lparr>do_object_key = object_key obj, do_baseline_fingerprint = [],
             do_current_fingerprint = or_empty (hm_get (object_fingerprints current_fp) (object_key obj)),
             do_is_pseudo_drift = False, do_score = DriftNewObject\<rparr>
      else None)"

definition detect_drift ::
    "(byte list \<Rightarrow> byte list) \<Rightarrow> (drift_score list \<Rightarrow> 'f) \<Rightarrow> state_snapshot \<Rightarrow> object_definition list \<Rightarrow>
     'f drift_report" where
  "detect_drift digest mean_score baseline current =
     (let current_fp = compute_fingerprint digest current;
          overall_has_drift = (fingerprint (ss_fingerprint baseline) \<noteq> fingerprint current_fp);
          current_map = object_map current;
          changed = List.map_filter (drift_of (ss_fingerprint baseline) current_fp current_map) (ss_objects baseline);
          added = List.map_filter (new_object_drift (ss_fingerprint baseline) current_fp) current;
          drifted = changed @ added
      in \<lparr>dr_has_drift = (overall_has_drift \<or> drifted \<noteq> []), dr_drifted_objects = drifted,
          dr_pseudo_drift_count = length (filter do_is_pseudo_drift changed),
          dr_real_drift_count = length (filter (\<lambda>d. \<not> do_is_pseudo_drift d) changed) + length added,
          dr_overall_drift_score = mean_score (map do_score drifted)\<rparr>)"

section \<open>New baseline\<close>

datatype rebase_resolution = AcceptSource | AcceptTarget | AcceptBaseline | ManualReview

record conflict_item =
  ci_object_key :: string
  ci_resolution :: rebase_resolution
  ci_baseline_fingerprint :: "string option"
  ci_source_fingerprint :: "string option"
  ci_target_fingerprint :: "string option"

record rebase_plan =
  rp_conflicts :: "conflict_item list"
  rp_proposed_objects :: "object_definition list"
  rp_requires_manual_review :: bool

definition conflict_of :: "object_reconciliation \<Rightarrow> rebase_resolution \<Rightarrow> conflict_item" where
  "conflict_of rec resolution =
     \<lparr>ci_object_key = or_object_key rec, ci_resolution = resolution,
      ci_baseline_fingerprint = or_baseline_fingerprint rec, ci_source_fingerprint = or_source_fingerprint rec,
      ci_target_fingerprint = or_target_fingerprint rec\<rparr>"

definition propose :: "object_definition option \<Rightarrow> rebase_plan \<Rightarrow> rebase_plan" where
  "propose obj p = (case obj of Some o' \<Rightarrow> p\<lparr>rp_proposed_objects := rp_proposed_objects p @ [o']\<rparr> | None \<Rightarrow> p)"

definition add_conflict :: "object_reconciliation \<Rightarrow> rebase_resolution \<Rightarrow> rebase_plan \<Rightarrow> rebase_plan" where
  "add_conflict rec resolution p = p\<lparr>rp_conflicts := rp_conflicts p @ [conflict_of rec resolution]\<rparr>"

definition manual_review :: "object_reconciliation \<Rightarrow> rebase_plan \<Rightarrow> rebase_plan" where
  "manual_review rec p = add_conflict rec ManualReview (p\<lparr>rp_requires_manual_review := True\<rparr>)"

definition rebase_step ::
    "bool \<Rightarrow> (string, object_definition) hash_map \<Rightarrow> (string, object_definition) hash_map \<Rightarrow>
     object_reconciliation \<Rightarrow> rebase_plan \<Rightarrow> rebase_plan" where
  "rebase_step auto_resolve source_map target_map rec p =
     (let s_obj = hm_get source_map (or_object_key rec); t_obj = hm_get target_map (or_object_key rec) in
      case or_status rec of
        Synced \<Rightarrow> propose (or_else s_obj t_obj) p
      | BothDriftedIdentical \<Rightarrow> propose (or_else s_obj t_obj) p
      | TargetDrifted \<Rightarrow>
          if auto_resolve then add_conflict rec AcceptTarget (propose t_obj p) else manual_review rec p
      | SourceDrifted \<Rightarrow>
          if auto_resolve then add_conflict rec AcceptSource (propose s_obj p) else manual_review rec p
      | BothDriftedConflict \<Rightarrow> manual_review rec p
      | NewInBoth \<Rightarrow> propose s_obj p
      | NewInSource \<Rightarrow> propose s_obj p
      | NewInTarget \<Rightarrow> propose t_obj p
      | DeletedInSource \<Rightarrow> p
      | DeletedInTarget \<Rightarrow> p
      | BaselineOnly \<Rightarrow> p)"

definition build_rebase_plan ::
    "(byte list \<Rightarrow> byte list) \<Rightarrow> string \<Rightarrow> state_snapshot \<Rightarrow> object_definition list \<Rightarrow> object_definition list \<Rightarrow>
     bool \<Rightarrow> rebase_plan" where
  "build_rebase_plan digest now baseline source target auto_resolve =
     (let result = reconcile_three_way digest now baseline [] source [] target
      in fold (rebase_step auto_resolve (object_map source) (object_map target))
           (rr_object_reconciliations result)
           \<lparr>rp_conflicts = [], rp_proposed_objects = [], rp_requires_manual_review = False\<rparr>)"

record rebase_history_entry =
  rh_id :: string
  rh_timestamp :: string
  rh_previous_baseline_id :: string
  rh_new_baseline_id :: string
  rh_object_count :: nat
  rh_conflict_count :: nat
  rh_auto_resolved :: bool
  rh_notes :: string

definition history_entry_new ::
    "string \<Rightarrow> string \<Rightarrow> string \<Rightarrow> string \<Rightarrow> nat \<Rightarrow> nat \<Rightarrow> bool \<Rightarrow> string \<Rightarrow> rebase_history_entry" where
  "history_entry_new new_id now previous_baseline_id new_baseline_id object_count conflict_count auto_resolved notes =
     \<lparr>rh_id = new_id, rh_timestamp = now, rh_previous_baseline_id = previous_baseline_id,
      rh_new_baseline_id = new_baseline_id, rh_object_count = object_count, rh_conflict_count = conflict_count,
      rh_auto_resolved = auto_resolved, rh_notes = notes\<rparr>"

section \<open>Lemmas\<close>

lemma see_key_fold:
  "distinct keys \<Longrightarrow> distinct (fold see_key ks keys) \<and> set (fold see_key ks keys) = set keys \<union> set ks"
  by (induction ks arbitrary: keys) (auto simp: see_key_def)

lemma all_keys_props:
  "distinct (all_keys b s t)" "sorted (all_keys b s t)"
  "set (all_keys b s t) = fst ` set b \<union> fst ` set s \<union> fst ` set t"
  using see_key_fold [of "[]" "map fst b @ map fst s @ map fst t"] by (auto simp: all_keys_def)

lemma object_map_get: "hm_get (object_map os) k = Some obj \<Longrightarrow> object_key obj = k \<and> obj \<in> set os"
  by (auto simp: object_map_def hm_collect_get dest!: map_of_SomeD)

lemma object_map_dom: "fst ` set (object_map os) = object_key ` set os"
proof -
  have "fst ` set (object_map os) = dom (map_of (object_map os))" by (simp add: dom_map_of_conv_image_fst)
  also have "\<dots> = object_key ` set os"
    by (simp add: object_map_def hm_collect_get dom_map_of_conv_image_fst image_image)
  finally show ?thesis .
qed

lemma count_status_fold:
  assumes "fold (\<lambda>r. count_status (f r)) recs (a, b, c) = (synced, drifted, conflicts)"
  shows "synced + drifted = a + b + length recs \<and>
    synced = a + length (filter (\<lambda>r. f r \<in> {Synced, NewInBoth}) recs) \<and>
    conflicts = c + length (filter (\<lambda>r. f r = BothDriftedConflict) recs)"
  using assms
proof (induction recs arbitrary: a b c)
  case (Cons r recs)
  then show ?case by (cases "f r") fastforce+
qed simp

definition fp_of :: "(byte list \<Rightarrow> byte list) \<Rightarrow> object_definition \<Rightarrow> string" where
  "fp_of digest obj = object_fingerprint digest (od_definition obj)"

lemma reconcile_key_simps [simp]:
  "or_object_key (reconcile_key digest b s t k) = k"
  "or_status (reconcile_key digest b s t k) =
     fst (classify_reconciliation (map_option (fp_of digest) (hm_get b k)) (map_option (fp_of digest) (hm_get s k))
       (map_option (fp_of digest) (hm_get t k)))"
  by (simp_all add: reconcile_key_def Let_def fp_of_def [abs_def] split: prod.split)

lemma reconcile_recs:
  "rr_object_reconciliations (reconcile_three_way digest now baseline i source j target) =
     map (reconcile_key digest (object_map (ss_objects baseline)) (object_map source) (object_map target))
       (all_keys (object_map (ss_objects baseline)) (object_map source) (object_map target))"
  by (simp add: reconcile_three_way_def Let_def split: prod.split)

text \<open>What one key contributes to the plan.\<close>

definition chosen ::
    "bool \<Rightarrow> reconciliation_status \<Rightarrow> object_definition option \<Rightarrow> object_definition option \<Rightarrow> object_definition option" where
  "chosen auto status s t =
     (case status of
        Synced \<Rightarrow> or_else s t | BothDriftedIdentical \<Rightarrow> or_else s t
      | TargetDrifted \<Rightarrow> if auto then t else None | SourceDrifted \<Rightarrow> if auto then s else None
      | NewInBoth \<Rightarrow> s | NewInSource \<Rightarrow> s | NewInTarget \<Rightarrow> t | _ \<Rightarrow> None)"

definition needs_review :: "bool \<Rightarrow> reconciliation_status \<Rightarrow> bool" where
  "needs_review auto status \<longleftrightarrow>
     status = BothDriftedConflict \<or> \<not> auto \<and> status \<in> {TargetDrifted, SourceDrifted}"

lemma rebase_step_eq:
  "rp_proposed_objects (rebase_step auto S T rec p) = rp_proposed_objects p @
     (case chosen auto (or_status rec) (hm_get S (or_object_key rec)) (hm_get T (or_object_key rec)) of
        None \<Rightarrow> [] | Some obj \<Rightarrow> [obj])"
  "rp_requires_manual_review (rebase_step auto S T rec p) \<longleftrightarrow>
     rp_requires_manual_review p \<or> needs_review auto (or_status rec)"
  by (cases "or_status rec"; auto simp: rebase_step_def chosen_def needs_review_def propose_def add_conflict_def
      manual_review_def Let_def split: option.split)+

lemma rebase_fold:
  "rp_proposed_objects (fold (rebase_step auto S T) recs p) = rp_proposed_objects p @
     List.map_filter (\<lambda>rec. chosen auto (or_status rec) (hm_get S (or_object_key rec)) (hm_get T (or_object_key rec))) recs"
  "rp_requires_manual_review (fold (rebase_step auto S T) recs p) \<longleftrightarrow>
     rp_requires_manual_review p \<or> list_ex (\<lambda>rec. needs_review auto (or_status rec)) recs"
  by (induction recs arbitrary: p) (auto simp: rebase_step_eq List.map_filter_def split: option.splits)

lemma map_filter_lookup:
  assumes "\<And>k x. f k = Some x \<Longrightarrow> g x = k" "distinct keys"
  shows "map_of (map (\<lambda>x. (g x, x)) (List.map_filter f keys)) k = (if k \<in> set keys then f k else None)"
    and "distinct (map g (List.map_filter f keys))"
    and "set (map g (List.map_filter f keys)) \<subseteq> set keys"
  using assms
  by (induction keys) (auto simp: List.map_filter_simps split: option.splits)

text \<open>The reference: a three-way merge of one object, by fingerprints.\<close>

definition merged_object ::
    "(object_definition \<Rightarrow> string) \<Rightarrow> bool \<Rightarrow> object_definition option \<Rightarrow> object_definition option \<Rightarrow>
     object_definition option \<Rightarrow> object_definition option" where
  "merged_object fp auto b s t =
     (case (s, t) of
        (Some s', Some t') \<Rightarrow>
          if fp s' = fp t' then Some s'
          else (case b of
              None \<Rightarrow> None
            | Some b' \<Rightarrow>
                if auto \<and> fp b' = fp s' then Some t' else if auto \<and> fp b' = fp t' then Some s' else None)
      | (Some s', None) \<Rightarrow> if b = None then Some s' else None
      | (None, Some t') \<Rightarrow> if b = None then Some t' else None
      | (None, None) \<Rightarrow> None)"

definition in_conflict ::
    "(object_definition \<Rightarrow> string) \<Rightarrow> bool \<Rightarrow> object_definition option \<Rightarrow> object_definition option \<Rightarrow>
     object_definition option \<Rightarrow> bool" where
  "in_conflict fp auto b s t \<longleftrightarrow>
     (\<exists>s' t'. s = Some s' \<and> t = Some t' \<and> fp s' \<noteq> fp t' \<and>
        \<not> (auto \<and> (\<exists>b'. b = Some b' \<and> (fp b' = fp s' \<or> fp b' = fp t'))))"

lemma chosen_merged:
  "chosen auto (fst (classify_reconciliation (map_option fp b) (map_option fp s) (map_option fp t))) s t =
     merged_object fp auto b s t"
  "needs_review auto (fst (classify_reconciliation (map_option fp b) (map_option fp s) (map_option fp t))) \<longleftrightarrow>
     in_conflict fp auto b s t"
  by (auto simp: chosen_def classify_reconciliation_def merged_object_def needs_review_def in_conflict_def or_else_def
      split: option.splits)

definition mirror :: "reconciliation_status \<Rightarrow> reconciliation_status" where
  "mirror st =
     (case st of
        SourceDrifted \<Rightarrow> TargetDrifted | TargetDrifted \<Rightarrow> SourceDrifted
      | DeletedInSource \<Rightarrow> DeletedInTarget | DeletedInTarget \<Rightarrow> DeletedInSource
      | NewInSource \<Rightarrow> NewInTarget | NewInTarget \<Rightarrow> NewInSource | _ \<Rightarrow> st)"

lemma classify_mirror:
  "fst (classify_reconciliation b t s) = mirror (fst (classify_reconciliation b s t))"
  by (auto simp: classify_reconciliation_def mirror_def split: option.splits)

lemma object_key_merged:
  assumes "merged_object fp auto b (hm_get (object_map source) k) (hm_get (object_map target) k) = Some obj"
  shows "object_key obj = k"
  using assms object_map_get [of source k] object_map_get [of target k]
  by (auto simp: merged_object_def split: option.splits if_splits)

text \<open>The counts of a drift report add up to its objects; an unchanged state has no drift.\<close>

lemma detect_drift_counts:
  "dr_pseudo_drift_count (detect_drift digest mean baseline current) +
     dr_real_drift_count (detect_drift digest mean baseline current) =
   length (dr_drifted_objects (detect_drift digest mean baseline current))"
  by (simp add: detect_drift_def Let_def sum_length_filter_compl)

lemma detect_drift_unchanged:
  "\<not> dr_has_drift (detect_drift digest mean (snapshot_new digest i now label objects) objects)"
proof -
  have changed: "List.map_filter (drift_of fp fp m) os = []" for fp m os
    by (induction os) (simp_all add: List.map_filter_simps drift_of_def)
  have keys: "hm_get (object_fingerprints (compute_fingerprint digest objects)) (object_key x) \<noteq> None"
    if "x \<in> set objects" for x
    using that by (auto simp: compute_fingerprint_def Let_def hm_collect_get map_of_eq_None_iff image_image)
  have "List.map_filter (new_object_drift (compute_fingerprint digest objects) fp) os = []"
    if "set os \<subseteq> set objects" for fp os
    using that keys by (induction os) (simp_all add: List.map_filter_simps new_object_drift_def)
  then show ?thesis by (simp add: detect_drift_def snapshot_new_def Let_def changed)
qed

section \<open>Properties\<close>

text \<open>C32: A three-way reconciliation reports every object of the baseline, the source and the target exactly
  once, in the order of the keys; its counts are those of the reported states, synced and drifted
  objects adding up to the total; and exchanging source and target exchanges their roles in every
  reported state.\<close>

theorem reconcile_exact:
  "let r = reconcile_three_way digest now baseline i source j target;
       r' = reconcile_three_way digest now baseline j target i source;
       recs = rr_object_reconciliations r in
     sorted (map or_object_key recs) \<and> distinct (map or_object_key recs) \<and>
     set (map or_object_key recs) = object_key ` (set (ss_objects baseline) \<union> set source \<union> set target) \<and>
     rr_total_objects r = length recs \<and> rr_synced_count r + rr_drifted_count r = rr_total_objects r \<and>
     rr_synced_count r = length (filter (\<lambda>x. or_status x \<in> {Synced, NewInBoth}) recs) \<and>
     rr_conflict_count r = length (filter (\<lambda>x. or_status x = BothDriftedConflict) recs) \<and>
     map or_object_key (rr_object_reconciliations r') = map or_object_key recs \<and>
     map or_status (rr_object_reconciliations r') = map (\<lambda>x. mirror (or_status x)) recs"
proof -
  define B S T where "B = object_map (ss_objects baseline)" and "S = object_map source" and "T = object_map target"
  define r where "r = reconcile_three_way digest now baseline i source j target"
  define recs where "recs = rr_object_reconciliations r"
  have recs: "recs = map (reconcile_key digest B S T) (all_keys B S T)"
    by (simp add: recs_def r_def reconcile_recs B_def S_def T_def)
  obtain synced drifted conflicts where
    c: "fold (\<lambda>r. count_status (or_status r)) recs (0, 0, 0) = (synced, drifted, conflicts)"
    by (rule prod_cases3)
  have r: "rr_total_objects r = length recs" "rr_synced_count r = synced" "rr_drifted_count r = drifted"
    "rr_conflict_count r = conflicts"
    using c unfolding recs
    by (simp_all add: r_def reconcile_three_way_def Let_def B_def [symmetric] S_def [symmetric] T_def [symmetric])
  note counts = count_status_fold [OF c]
  have keys: "map or_object_key recs = all_keys B S T" by (simp add: recs comp_def)
  have set: "set (all_keys B S T) = object_key ` (set (ss_objects baseline) \<union> set source \<union> set target)"
    unfolding all_keys_props by (simp add: B_def S_def T_def object_map_dom image_Un)
  have swap: "all_keys B T S = all_keys B S T"
    by (rule sorted_distinct_set_unique) (auto simp: all_keys_props)
  have recs': "rr_object_reconciliations (reconcile_three_way digest now baseline j target i source) =
      map (reconcile_key digest B T S) (all_keys B S T)"
    by (simp add: reconcile_recs B_def [symmetric] S_def [symmetric] T_def [symmetric] swap)
  have "or_status (reconcile_key digest B T S k) = mirror (or_status (reconcile_key digest B S T k))" for k
    unfolding reconcile_key_simps by (rule classify_mirror)
  then have mirror: "map or_status (map (reconcile_key digest B T S) (all_keys B S T)) =
      map (\<lambda>x. mirror (or_status x)) recs"
    by (simp only: recs map_map comp_def)
  show ?thesis
    unfolding Let_def r_def [symmetric] recs_def [symmetric] recs' mirror keys
    using counts by (simp add: r set all_keys_props(1,2) comp_def)
qed

text \<open>C18: The plan of a new baseline is the three-way merge of the baseline, the source and the target: it
  proposes at most one object per key, the common one where both sides agree, the changed one where
  only one side changed and changes are accepted automatically, a new one where it is new; it asks
  for review exactly when both sides have the object with different contents that are not resolved.
  An object deleted on one side is dropped without review, even when the other side changed it.\<close>

theorem rebase_is_three_way_merge:
  "let p = build_rebase_plan digest now baseline source target auto;
       b = hm_get (object_map (ss_objects baseline)); s = hm_get (object_map source); t = hm_get (object_map target);
       fp = fp_of digest in
     distinct (map object_key (rp_proposed_objects p)) \<and>
     map_of (map (\<lambda>x. (object_key x, x)) (rp_proposed_objects p)) k = merged_object fp auto (b k) (s k) (t k) \<and>
     (rp_requires_manual_review p \<longleftrightarrow> (\<exists>k. in_conflict fp auto (b k) (s k) (t k)))"
proof -
  define B S T where "B = object_map (ss_objects baseline)" and "S = object_map source" and "T = object_map target"
  define p where "p = build_rebase_plan digest now baseline source target auto"
  define f where "f k = merged_object (fp_of digest) auto (hm_get B k) (hm_get S k) (hm_get T k)" for k
  define keys where "keys = all_keys B S T"
  have proposed: "rp_proposed_objects p = List.map_filter f keys"
    by (simp add: p_def build_rebase_plan_def rebase_fold reconcile_recs B_def [symmetric] S_def [symmetric]
        T_def [symmetric] keys_def [symmetric] List.map_filter_def comp_def chosen_merged f_def [symmetric] filter_map)
  have review: "rp_requires_manual_review p \<longleftrightarrow>
      list_ex (\<lambda>k. in_conflict (fp_of digest) auto (hm_get B k) (hm_get S k) (hm_get T k)) keys"
    by (simp add: p_def build_rebase_plan_def rebase_fold reconcile_recs B_def [symmetric] S_def [symmetric]
        T_def [symmetric] keys_def [symmetric] list_ex_iff chosen_merged)
  have none: "hm_get S k = None \<and> hm_get T k = None" if "k \<notin> set keys" for k
    using that unfolding keys_def all_keys_props by (simp add: map_of_eq_None_iff)
  have key: "object_key x = k" if "f k = Some x" for k x
    using that object_key_merged unfolding f_def S_def T_def by blast
  have d: "distinct keys" by (simp add: keys_def all_keys_props)
  have lookup: "map_of (map (\<lambda>x. (object_key x, x)) (List.map_filter f keys)) k = (if k \<in> set keys then f k else None)"
      "distinct (map object_key (List.map_filter f keys))" for k
    using map_filter_lookup(1,2) [of f object_key keys, OF key d] by simp_all
  have "f k = None" if "k \<notin> set keys" for k using none [OF that] by (simp add: f_def merged_object_def)
  then have get: "map_of (map (\<lambda>x. (object_key x, x)) (rp_proposed_objects p)) k = f k"
    unfolding proposed lookup(1) by simp
  have rev: "rp_requires_manual_review p \<longleftrightarrow>
      (\<exists>k. in_conflict (fp_of digest) auto (hm_get B k) (hm_get S k) (hm_get T k))"
  proof -
    have "k \<in> set keys" if "in_conflict (fp_of digest) auto (hm_get B k) (hm_get S k) (hm_get T k)" for k
      using that none [of k] by (cases "k \<in> set keys") (auto simp: in_conflict_def)
    then show ?thesis unfolding review list_ex_iff by blast
  qed
  show ?thesis
    unfolding Let_def p_def [symmetric] B_def [symmetric] S_def [symmetric] T_def [symmetric]
    using get rev lookup(2) by (simp add: proposed [symmetric] f_def)
qed

end
