(* ===== verification/Correction.thy ===== *)
theory Correction
  imports Rust_Prelude
begin

text \<open>
  Joint correction plans (\<open>correction.rs\<close>): the steps that bring the schema and the data of a
  target in line with a source, in the order of a strategy, with their rollback steps.

  The results of the schema and data comparison have the fields that the plan reads. A slice of a
  string at a byte inside a character panics: the result is \<open>None\<close>. The em dash in three
  texts is outside the model's alphabet and written as a hyphen.
\<close>

datatype correction_step_type =
    SchemaCreate | SchemaAlter | SchemaDrop | DataInsert | DataUpdate | DataDelete | SchemaPostSync | Checkpoint

datatype correction_risk_level = Safe | Caution | Dangerous | Blocked

datatype correction_strategy = StructureFirst | DataFirst | Interleaved

record correction_step =
  cs_step_type :: correction_step_type
  cs_table_name :: "string option"
  cs_sql :: string
  cs_rollback_sql :: "string option"
  cs_description :: string
  cs_risk_level :: correction_risk_level
  cs_depends_on :: "nat list"

record joint_correction_plan =
  jp_strategy :: correction_strategy
  jp_steps :: "correction_step list"
  jp_schema_diff_count :: nat
  jp_data_diff_count :: nat
  jp_total_estimated_duration_secs :: "nat option"
  jp_rollback_steps :: "correction_step list"

record joint_correction_options =
  jo_strategy :: correction_strategy
  jo_include_checkpoints :: bool
  jo_include_rollback :: bool

definition options_default :: joint_correction_options where
  "options_default = \<lparr>jo_strategy = StructureFirst, jo_include_checkpoints = True, jo_include_rollback = True\<rparr>"

text \<open>A trigger difference is the statement of its source, where it has a source.\<close>

record table_diff =
  td_diff_type :: string
  td_name :: string
  td_triggers :: "string option option list option"
  td_target_ddl :: "string option"
  td_sync_sql :: "string option"

record schema_diff_preparation =
  sd_diffs :: "table_diff list"
  sd_sync_sql :: string

record 'row data_compare_preparation =
  dc_added :: "'row list"
  dc_removed :: "'row list"
  dc_modified :: "'row list"
  dc_sync_sql :: string
  dc_sync_statements :: "string list"

text \<open>The vectors and the counter that the functions of the code share.\<close>

record plan_state =
  ps_steps :: "correction_step list"
  ps_rollback :: "correction_step list"
  ps_index :: nat

section \<open>Operations\<close>

definition summary :: "string \<Rightarrow> nat \<Rightarrow> string option" where
  "summary s max_len =
     (let cleaned = map (\<lambda>c. if c = CHR 0x0A then CHR '' '' else c) s
      in if str_len cleaned \<le> max_len then Some cleaned
         else map_option (\<lambda>p. p @ ''...'') (slice_to cleaned (min max_len (str_len cleaned))))"

definition contains_table :: "string \<Rightarrow> string \<Rightarrow> bool" where
  "contains_table sync_sql table = contains sync_sql table"

definition char_upper :: "char \<Rightarrow> string" where
  "char_upper c = (let n = code c in
     if 97 \<le> n \<and> n \<le> 122 \<or> 224 \<le> n \<and> n \<le> 254 \<and> n \<noteq> 247 then [char_of (n - 32)]
     else if n = 223 then ''SS'' else [c])"

text \<open>
  \<open>statement.to_uppercase().starts_with(..)\<close> with an ASCII keyword: the two characters whose
  upper case is outside the alphabet, and which stay as they are, are no part of a keyword.
\<close>

definition has_keyword :: "string \<Rightarrow> string \<Rightarrow> bool" where
  "has_keyword statement keyword = starts_with (concat (map char_upper statement)) keyword"

definition checkpoint_step :: "string \<Rightarrow> correction_step" where
  "checkpoint_step description =
     \<lparr>cs_step_type = Checkpoint, cs_table_name = None, cs_sql = [], cs_rollback_sql = None,
      cs_description = description, cs_risk_level = Safe, cs_depends_on = []\<rparr>"

definition push_step :: "correction_step \<Rightarrow> plan_state \<Rightarrow> plan_state" where
  "push_step step st = st\<lparr>ps_steps := ps_steps st @ [step], ps_index := ps_index st + 1\<rparr>"

definition has_incomplete_triggers :: "table_diff \<Rightarrow> bool" where
  "has_incomplete_triggers d =
     (case td_triggers d of None \<Rightarrow> False | Some triggers \<Rightarrow> list_ex (\<lambda>t. t = Some None) triggers)"

definition newline :: string where
  "newline = [CHR 0x0A]"

definition squote :: "string \<Rightarrow> string" where
  "squote s = [CHR 0x27] @ s @ [CHR 0x27]"

definition table_rollback_sql :: "joint_correction_options \<Rightarrow> table_diff \<Rightarrow> string \<Rightarrow> string option" where
  "table_rollback_sql options d name =
     (if jo_include_rollback options
      then if td_diff_type d = ''added'' then Some (''DROP TABLE IF EXISTS '' @ name @ '';'')
        else if td_diff_type d = ''removed''
        then (case td_target_ddl d of
            Some ddl \<Rightarrow>
              Some (if has_incomplete_triggers d
                then ''-- WARNING: Rollback DDL is INCOMPLETE - trigger bodies could not be reconstructed.'' @
                  newline @ ''-- Manual review required. Original DDL:'' @ newline @ ddl
                else ddl)
          | None \<Rightarrow>
              Some (if has_incomplete_triggers d
                then ''-- WARNING: Rollback is INCOMPLETE - table '' @ squote name @
                  '' had triggers that cannot be reconstructed.'' @ newline @
                  ''-- Manual intervention required before executing.''
                else ''-- Manual rollback required: recreate table '' @ name @ '' with original DDL''))
        else if td_diff_type d = ''modified'' then map_option (\<lambda>s. ''-- Rollback: '' @ s) (td_sync_sql d)
        else None
      else None)"

definition table_step_type :: "string \<Rightarrow> correction_step_type" where
  "table_step_type t =
     (if t = ''added'' then SchemaCreate else if t = ''removed'' then SchemaDrop else SchemaAlter)"

definition rollback_step_type :: "string \<Rightarrow> correction_step_type" where
  "rollback_step_type t =
     (if t = ''added'' then SchemaDrop else if t = ''removed'' then SchemaCreate else SchemaAlter)"

definition table_risk_level :: "string \<Rightarrow> correction_risk_level" where
  "table_risk_level t =
     (if t = ''removed'' then Dangerous else if t = ''modified'' then Caution else Safe)"

definition table_schema_sql :: "table_diff \<Rightarrow> string" where
  "table_schema_sql d =
     (case td_sync_sql d of Some s \<Rightarrow> s | None \<Rightarrow> ''-- Schema change for table: '' @ td_name d)"

definition append_table_schema_step ::
    "joint_correction_options \<Rightarrow> table_diff \<Rightarrow> plan_state \<Rightarrow> plan_state" where
  "append_table_schema_step options d st =
     (let name = td_name d;
          rollback_sql = table_rollback_sql options d name;
          risk = table_risk_level (td_diff_type d);
          rollback_desc =
            (if has_incomplete_triggers d
             then ''INCOMPLETE Rollback for schema '' @ td_diff_type d @ '' on table: '' @ name @
               '' - trigger bodies cannot be reconstructed''
             else ''Rollback for schema '' @ td_diff_type d @ '' on table: '' @ name);
          st1 = push_step \<lparr>cs_step_type = table_step_type (td_diff_type d), cs_table_name = Some name,
              cs_sql = table_schema_sql d, cs_rollback_sql = rollback_sql,
              cs_description = ''Schema '' @ td_diff_type d @ '' for table: '' @ name,
              cs_risk_level = risk, cs_depends_on = []\<rparr> st
      in case rollback_sql of
           None \<Rightarrow> st1
         | Some rollback \<Rightarrow> st1\<lparr>ps_rollback := ps_rollback st1 @
             [\<lparr>cs_step_type = rollback_step_type (td_diff_type d), cs_table_name = Some name, cs_sql = rollback,
               cs_rollback_sql = None, cs_description = rollback_desc,
               cs_risk_level = (if has_incomplete_triggers d then Blocked else risk), cs_depends_on = []\<rparr>]\<rparr>)"

definition changed_tables :: "schema_diff_preparation \<Rightarrow> table_diff list" where
  "changed_tables schema = filter (\<lambda>d. td_diff_type d \<noteq> ''unchanged'') (sd_diffs schema)"

definition append_schema_steps ::
    "joint_correction_options \<Rightarrow> schema_diff_preparation option \<Rightarrow> plan_state \<Rightarrow> plan_state" where
  "append_schema_steps options schema_diff st =
     (case schema_diff of
        None \<Rightarrow> st
      | Some schema \<Rightarrow>
          if sd_sync_sql schema = [] then st
          else fold (append_table_schema_step options) (changed_tables schema)
            (if jo_include_checkpoints options
             then push_step (checkpoint_step ''Schema correction checkpoint'') st else st))"

definition data_step_head :: "string \<Rightarrow> correction_step_type \<times> string" where
  "data_step_head statement =
     (if has_keyword statement ''INSERT'' then (DataInsert, ''Insert data: '')
      else if has_keyword statement ''UPDATE'' then (DataUpdate, ''Update data: '')
      else if has_keyword statement ''DELETE'' then (DataDelete, ''Delete data: '')
      else (SchemaPostSync, ''Pre-sync: ''))"

definition data_rollback_head :: "string \<Rightarrow> string option" where
  "data_rollback_head statement =
     (if has_keyword statement ''INSERT''
      then Some ''-- Rollback: DELETE matching rows; manual review needed: ''
      else if has_keyword statement ''DELETE''
      then Some ''-- Rollback: INSERT deleted rows; manual review needed: ''
      else if has_keyword statement ''UPDATE''
      then Some ''-- Rollback: reverse UPDATE; manual review needed: ''
      else None)"

definition append_statement ::
    "joint_correction_options \<Rightarrow> string \<Rightarrow> plan_state \<Rightarrow> plan_state option" where
  "append_statement options statement st =
     (let (step_type, head) = data_step_head statement in
      Option.bind (summary statement 80) (\<lambda>short.
        Option.bind
          (case (if jo_include_rollback options then data_rollback_head statement else None) of
             None \<Rightarrow> Some None
           | Some rollback \<Rightarrow> map_option (\<lambda>short. Some (rollback @ short)) (summary statement 60))
          (\<lambda>rollback_sql.
             Some (push_step \<lparr>cs_step_type = step_type, cs_table_name = None, cs_sql = statement,
               cs_rollback_sql = rollback_sql, cs_description = head @ short, cs_risk_level = Caution,
               cs_depends_on = []\<rparr> st))))"

fun append_statements ::
    "joint_correction_options \<Rightarrow> string list \<Rightarrow> plan_state \<Rightarrow> plan_state option" where
  "append_statements options [] st = Some st"
| "append_statements options (s # ss) st =
     Option.bind (append_statement options s st) (append_statements options ss)"

definition append_data_steps ::
    "joint_correction_options \<Rightarrow> 'row data_compare_preparation option \<Rightarrow> plan_state \<Rightarrow> plan_state option" where
  "append_data_steps options data_compare st =
     (case data_compare of
        None \<Rightarrow> Some st
      | Some dc \<Rightarrow>
          if dc_added dc = [] \<and> dc_removed dc = [] \<and> dc_modified dc = [] then Some st
          else append_statements options (dc_sync_statements dc)
            (if jo_include_checkpoints options
             then push_step (checkpoint_step ''Data correction checkpoint'') st else st))"

definition data_sync_text :: "'row data_compare_preparation \<Rightarrow> string \<Rightarrow> string" where
  "data_sync_text dc table =
     ''Data sync for table: '' @ table @ '' ('' @ show_nat (length (dc_added dc)) @ '' added, '' @
     show_nat (length (dc_modified dc)) @ '' modified, '' @ show_nat (length (dc_removed dc)) @ '' removed)''"

definition append_table_data_step :: "'row data_compare_preparation \<Rightarrow> string \<Rightarrow> plan_state \<Rightarrow> plan_state" where
  "append_table_data_step dc table st =
     (if length (dc_added dc) + length (dc_modified dc) + length (dc_removed dc) = 0 then st
      else push_step \<lparr>cs_step_type = DataInsert, cs_table_name = Some table, cs_sql = ''-- '' @ data_sync_text dc table,
          cs_rollback_sql = None, cs_description = data_sync_text dc table, cs_risk_level = Caution,
          cs_depends_on = []\<rparr> st)"

definition interleave_table ::
    "joint_correction_options \<Rightarrow> 'row data_compare_preparation option \<Rightarrow> table_diff \<Rightarrow> plan_state \<Rightarrow> plan_state" where
  "interleave_table options data_compare d st =
     append_table_schema_step options d
       (case data_compare of
          Some dc \<Rightarrow> if contains_table (dc_sync_sql dc) (td_name d) then append_table_data_step dc (td_name d) st else st
        | None \<Rightarrow> st)"

definition is_schema_step :: "correction_step \<Rightarrow> bool" where
  "is_schema_step s \<longleftrightarrow> cs_step_type s \<in> {SchemaCreate, SchemaAlter, SchemaDrop, SchemaPostSync}"

definition is_data_step :: "correction_step \<Rightarrow> bool" where
  "is_data_step s \<longleftrightarrow> cs_step_type s \<in> {DataInsert, DataUpdate, DataDelete}"

definition build_joint_correction_plan ::
    "schema_diff_preparation option \<Rightarrow> 'row data_compare_preparation option \<Rightarrow> joint_correction_options \<Rightarrow>
     joint_correction_plan option" where
  "build_joint_correction_plan schema_diff data_compare options =
     (let st0 = \<lparr>ps_steps = [], ps_rollback = [], ps_index = 0\<rparr>;
          built =
            (case jo_strategy options of
               StructureFirst \<Rightarrow> append_data_steps options data_compare (append_schema_steps options schema_diff st0)
             | DataFirst \<Rightarrow>
                 map_option (append_schema_steps options schema_diff) (append_data_steps options data_compare st0)
             | Interleaved \<Rightarrow>
                 (case schema_diff of
                    Some schema \<Rightarrow> Some (fold (interleave_table options data_compare) (changed_tables schema) st0)
                  | None \<Rightarrow> append_data_steps options data_compare st0))
      in map_option (\<lambda>st.
           \<lparr>jp_strategy = jo_strategy options, jp_steps = ps_steps st,
            jp_schema_diff_count = length (filter is_schema_step (ps_steps st)),
            jp_data_diff_count = length (filter is_data_step (ps_steps st)),
            jp_total_estimated_duration_secs = None, jp_rollback_steps = ps_rollback st\<rparr>) built)"

section \<open>Lemmas\<close>

definition change_sql :: "correction_step list \<Rightarrow> string list" where
  "change_sql steps = map cs_sql (filter (\<lambda>s. cs_step_type s \<noteq> Checkpoint) steps)"

definition schema_sql :: "schema_diff_preparation option \<Rightarrow> string list" where
  "schema_sql schema_diff =
     (case schema_diff of
        None \<Rightarrow> []
      | Some schema \<Rightarrow> if sd_sync_sql schema = [] then [] else map table_schema_sql (changed_tables schema))"

definition data_sql :: "'row data_compare_preparation option \<Rightarrow> string list" where
  "data_sql data_compare =
     (case data_compare of
        None \<Rightarrow> []
      | Some dc \<Rightarrow>
          if dc_added dc = [] \<and> dc_removed dc = [] \<and> dc_modified dc = [] then [] else dc_sync_statements dc)"

text \<open>A statement whose summary is cut inside a character.\<close>

definition cut_inside :: "joint_correction_options \<Rightarrow> string \<Rightarrow> bool" where
  "cut_inside options s \<longleftrightarrow> summary s 80 = None \<or>
     jo_include_rollback options \<and> data_rollback_head s \<noteq> None \<and> summary s 60 = None"

lemma change_sql_simps [simp]:
  "change_sql [] = []" "change_sql (xs @ ys) = change_sql xs @ change_sql ys"
  "change_sql [s] = (if cs_step_type s = Checkpoint then [] else [cs_sql s])"
  by (simp_all add: change_sql_def)

lemma push_step_simps [simp]:
  "ps_steps (push_step s st) = ps_steps st @ [s]" "ps_rollback (push_step s st) = ps_rollback st"
  by (simp_all add: push_step_def)

lemma checkpoint_type [simp]: "cs_step_type (checkpoint_step d) = Checkpoint"
  by (simp add: checkpoint_step_def)

lemma table_step_type_change [simp]: "table_step_type t \<noteq> Checkpoint"
  by (simp add: table_step_type_def)

lemma data_step_head_change: "data_step_head s = (ty, h) \<Longrightarrow> ty \<noteq> Checkpoint"
  by (auto simp: data_step_head_def split: if_splits)

lemma append_table_schema_sql:
  "change_sql (ps_steps (append_table_schema_step options d st)) = change_sql (ps_steps st) @ [table_schema_sql d]"
  by (simp add: append_table_schema_step_def Let_def split: option.split)

lemma append_schema_sql:
  "change_sql (ps_steps (append_schema_steps options schema_diff st)) =
     change_sql (ps_steps st) @ schema_sql schema_diff"
proof -
  have "change_sql (ps_steps (fold (append_table_schema_step options) ds st)) =
      change_sql (ps_steps st) @ map table_schema_sql ds" for ds st
    by (induction ds arbitrary: st) (simp_all add: append_table_schema_sql)
  then show ?thesis by (simp add: append_schema_steps_def schema_sql_def split: option.split)
qed

lemma append_statement_cases:
  "append_statement options s st = None \<longleftrightarrow> cut_inside options s"
  "append_statement options s st = Some st' \<Longrightarrow> change_sql (ps_steps st') = change_sql (ps_steps st) @ [s]"
  by (cases "summary s 80"; cases "summary s 60";
      auto simp: append_statement_def cut_inside_def split: prod.splits option.splits if_splits
        dest: data_step_head_change)+

lemma append_statements_cases:
  "append_statements options ss st = None \<longleftrightarrow> list_ex (cut_inside options) ss"
  "append_statements options ss st = Some st' \<Longrightarrow> change_sql (ps_steps st') = change_sql (ps_steps st) @ ss"
proof (induction ss arbitrary: st)
  case (Cons s ss)
  {
    case 1
    show ?case
      using Cons.IH(1) append_statement_cases(1) [of options s st]
      by (cases "append_statement options s st") auto
  next
    case 2
    then obtain st1 where "append_statement options s st = Some st1" "append_statements options ss st1 = Some st'"
      by (auto simp: bind_eq_Some_conv)
    then show ?case using Cons.IH(2) append_statement_cases(2) [of options s st st1] by simp
  }
qed simp_all

lemma append_data_cases:
  "append_data_steps options dc st = None \<longleftrightarrow> list_ex (cut_inside options) (data_sql dc)"
  "append_data_steps options dc st = Some st' \<Longrightarrow> change_sql (ps_steps st') = change_sql (ps_steps st) @ data_sql dc"
  by (auto simp: append_data_steps_def data_sql_def append_statements_cases split: option.splits if_splits
      dest!: append_statements_cases(2))

lemma append_data_Some:
  assumes "append_data_steps options dc st = Some st'"
  shows "\<not> list_ex (cut_inside options) (data_sql dc) \<and>
    change_sql (ps_steps st') = change_sql (ps_steps st) @ data_sql dc"
  using assms append_data_cases(1) [of options dc st] append_data_cases(2) [OF assms] by simp

lemma interleave_sql:
  assumes "list_all P (map cs_sql (ps_steps st))" "P (table_schema_sql d)" "\<And>x. P (''-- '' @ x)"
  shows "list_all P (map cs_sql (ps_steps (interleave_table options dc d st)))"
  using assms
  by (simp add: interleave_table_def append_table_schema_step_def append_table_data_step_def Let_def
      split: option.split)

section \<open>Properties\<close>

text \<open>With the strategies that order structure and data, building a plan panics exactly when there are
  data differences and the summary of some synchronisation statement is cut inside a character;
  otherwise the statements of the plan are those of the changed tables and the data statements,
  each once and in its order, the schema before the data or after it as the strategy says.\<close>

lemma plan_orders_statements:
  assumes "jo_strategy options \<noteq> Interleaved"
  shows "case build_joint_correction_plan schema_diff dc options of
      None \<Rightarrow> list_ex (cut_inside options) (data_sql dc)
    | Some plan \<Rightarrow> \<not> list_ex (cut_inside options) (data_sql dc) \<and>
        change_sql (jp_steps plan) =
          (if jo_strategy options = StructureFirst then schema_sql schema_diff @ data_sql dc
           else data_sql dc @ schema_sql schema_diff)"
proof (cases "jo_strategy options")
  case StructureFirst
  then show ?thesis
    by (auto simp: build_joint_correction_plan_def append_schema_sql append_data_cases(1)
        dest!: append_data_Some split: option.splits)
next
  case DataFirst
  then show ?thesis
    by (auto simp: build_joint_correction_plan_def append_schema_sql append_data_cases(1)
        dest!: append_data_Some split: option.splits)
qed (use assms in simp)

definition sample_schema :: schema_diff_preparation where
  "sample_schema =
     \<lparr>sd_diffs = [\<lparr>td_diff_type = ''added'', td_name = ''t'', td_triggers = None, td_target_ddl = None,
          td_sync_sql = Some ''CREATE TABLE t''\<rparr>],
      sd_sync_sql = ''CREATE TABLE t''\<rparr>"

definition sample_data :: "nat data_compare_preparation" where
  "sample_data =
     \<lparr>dc_added = [1], dc_removed = [], dc_modified = [], dc_sync_sql = ''INSERT INTO u'',
      dc_sync_statements = [''INSERT INTO u'']\<rparr>"

lemma sample_cut: "\<not> list_ex (cut_inside options_default) (data_sql (Some sample_data))"
  by code_simp

text \<open>With the interleaved strategy and a schema comparison, no plan runs a data statement: whatever
  the data comparison found, every step is the schema change of a changed table or a comment.\<close>

lemma interleaved_runs_no_data:
  assumes "jo_strategy options = Interleaved"
  shows "\<exists>plan. build_joint_correction_plan (Some schema) dc options = Some plan \<and>
    list_all (\<lambda>sql. starts_with sql ''-- '' \<or> sql \<in> set (map table_schema_sql (changed_tables schema)))
      (map cs_sql (jp_steps plan))"
proof -
  let ?P = "\<lambda>sql. starts_with sql ''-- '' \<or> sql \<in> set (map table_schema_sql (changed_tables schema))"
  have "list_all ?P (map cs_sql (ps_steps (fold (interleave_table options dc) ds st)))"
    if "list_all ?P (map cs_sql (ps_steps st))" "set ds \<subseteq> set (changed_tables schema)" for ds st
    using that by (induction ds arbitrary: st) (simp_all add: interleave_sql)
  then show ?thesis by (simp add: build_joint_correction_plan_def assms Let_def)
qed

lemma sample_not_comment: "\<not> starts_with ''INSERT INTO u'' ''-- ''" "''INSERT INTO u'' \<noteq> ''CREATE TABLE t''"
  by simp_all

end
