(* ===== verification/Sql_Dialect.thy ===== *)
theory Sql_Dialect
  imports Database_Type
begin

text \<open>
  The names and pages of a query per database product (\<open>sql_dialect/identifiers.rs\<close>,
  \<open>sql_dialect/capabilities.rs\<close>): the quoting of identifiers, qualified table names and the
  choice of a pagination clause.

  The decoding of percent escapes in the parts of a linked server name is the argument \<open>decode\<close>
  (the \<open>percent_encoding\<close> crate).
\<close>

section \<open>Capabilities\<close>

datatype table_pagination_strategy =
    LimitOffset | FetchFirst | Db2FetchFirst | SqlServerTop | IrisTop | InformixFirst | FirebirdRows
  | Rownum | QuestDbLimit | Unbounded | AgentMaxRows

datatype pagination_context = TablePreview | BoundedRead | UserQuery

definition is_schema_aware :: "database_type \<Rightarrow> bool" where
  "is_schema_aware d \<longleftrightarrow> d \<in> set
     [Postgres, SqlServer, Oracle, Redshift, Dameng, Gaussdb, Kwdb, Kingbase, Highgo, Uxdb, Vastbase,
      Yashandb, Oscar, Databricks, SapHana, Teradata, Vertica, Exasol, OpenGauss, OceanbaseOracle, Gbase,
      Databend, Jdbc, H2, Snowflake, Trino, PrestoSql, Hive, Kyuubi, Impala, Argo, Spark, Db2, Informix,
      Tdengine, Xugu, Sqlite, DuckDb, Iris, Spanner]"

definition pagination_strategy :: "database_type option \<Rightarrow> pagination_context \<Rightarrow> table_pagination_strategy" where
  "pagination_strategy d ctx =
     (if d = Some Jdbc then AgentMaxRows
      else if d = Some Oracle \<and> ctx = TablePreview then Rownum
      else if d = Some Oracle \<and> ctx = BoundedRead then Rownum
      else if d = Some Oracle then Unbounded
      else if d = Some Oscar \<and> (ctx = TablePreview \<or> ctx = BoundedRead) then Rownum
      else if d = Some Oscar then Unbounded
      else if d = Some Dameng then FetchFirst
      else if d = Some Db2 then Db2FetchFirst
      else if d = Some SqlServer then SqlServerTop
      else if d = Some Iris then IrisTop
      else if d = Some Informix then InformixFirst
      else if d = Some Firebird then FirebirdRows
      else if d = Some OceanbaseOracle then Rownum
      else if d = Some Questdb then QuestDbLimit
      else LimitOffset)"

definition is_simple_informix_identifier :: "string \<Rightarrow> bool" where
  "is_simple_informix_identifier name =
     (case name of [] \<Rightarrow> False
      | c # cs \<Rightarrow> (is_ascii_alphabetic c \<or> c = CHR ''_'') \<and>
          list_all (\<lambda>c. is_ascii_alphabetic c \<or> is_ascii_digit c \<or> c = CHR ''_'' \<or> c = CHR ''$'') cs)"

definition firebird_rows_clause :: "nat \<Rightarrow> nat \<Rightarrow> string" where
  "firebird_rows_clause limit off =
     (if 0 < off then ''ROWS '' @ show_nat (off + 1) @ '' TO '' @ show_nat (off + limit)
      else ''ROWS '' @ show_nat limit)"

section \<open>Identifiers\<close>

definition is_explicitly_quoted_identifier :: "string \<Rightarrow> bool" where
  "is_explicitly_quoted_identifier name \<longleftrightarrow>
     2 \<le> str_len name \<and>
     (starts_with name [CHR 34] \<and> ends_with name [CHR 34] \<or>
      starts_with name ''`'' \<and> ends_with name ''`'' \<or>
      starts_with name ''['' \<and> ends_with name '']'')"

definition backtick_databases :: "database_type list" where
  "backtick_databases =
     [Mysql, ClickHouse, Doris, Goldendb, StarRocks, ManticoreSearch, Hive, Kyuubi, Impala, Argo, Spark,
      Databricks, Databend, Tdengine, Access, Bigquery, Spanner, Questdb]"

definition quote_table_identifier :: "database_type option \<Rightarrow> string \<Rightarrow> string" where
  "quote_table_identifier d name =
     (if (d = Some Gaussdb \<or> d = Some OpenGauss) \<and> is_explicitly_quoted_identifier name then name
      else if d = Some Iotdb then name
      else if d = Some Jdbc then name
      else if \<exists>b\<in>set backtick_databases. d = Some b then ''`'' @ replace_char name (CHR ''`'') ''``'' @ ''`''
      else if d = Some Informix \<and> is_simple_informix_identifier name then name
      else if d = Some Neo4j then ''`'' @ replace_char name (CHR ''`'') ''``'' @ ''`''
      else if d = Some SqlServer then ''['' @ replace_char name (CHR '']'') '']]'' @ '']''
      else [CHR 34] @ replace_char name (CHR 34) [CHR 34, CHR 34] @ [CHR 34])"

record linked_schema_ref =
  lk_server :: string
  lk_catalog :: string
  lk_schema :: string

definition SQLSERVER_LINKED_SCHEMA_PREFIX :: string where
  "SQLSERVER_LINKED_SCHEMA_PREFIX = ''__dbx_sqlserver_linked__:''"

definition parse_sqlserver_linked_schema_ref ::
    "(string \<Rightarrow> string option) \<Rightarrow> string \<Rightarrow> linked_schema_ref option" where
  "parse_sqlserver_linked_schema_ref decode schema =
     (if \<not> starts_with schema SQLSERVER_LINKED_SCHEMA_PREFIX then None
      else case split_char (CHR ''|'') (drop (length SQLSERVER_LINKED_SCHEMA_PREFIX) schema) of
        [a, b, c] \<Rightarrow>
          (case (decode a, decode b, decode c) of
             (Some server, Some catalog, Some sch) \<Rightarrow>
               if trim server = [] \<or> trim catalog = [] \<or> trim sch = [] then None
               else Some \<lparr>lk_server = server, lk_catalog = catalog, lk_schema = sch\<rparr>
           | _ \<Rightarrow> None)
      | _ \<Rightarrow> None)"

definition sqlserver_linked_table_name :: "linked_schema_ref \<Rightarrow> string \<Rightarrow> string" where
  "sqlserver_linked_table_name linked table_name =
     join ''.'' (map (quote_table_identifier (Some SqlServer))
       [lk_server linked, lk_catalog linked, lk_schema linked, table_name])"

definition qualified_table_name ::
    "(string \<Rightarrow> string option) \<Rightarrow> database_type option \<Rightarrow> string option \<Rightarrow> string \<Rightarrow> string" where
  "qualified_table_name decode d schema table_name =
     (if d = Some Iotdb then
        (let t = quote_table_identifier d table_name in
         case schema of None \<Rightarrow> t
         | Some s \<Rightarrow>
             if trim s = [] then t
             else if t = trim s \<or> starts_with t (trim s @ ''.'') then t
             else quote_table_identifier d (trim s) @ ''.'' @ t)
      else
        (let supports = (case d of None \<Rightarrow> False | Some x \<Rightarrow> is_schema_aware x) \<or>
               d \<in> {Some Mysql, Some Goldendb, Some StarRocks, Some Doris} in
         case schema of
           Some s \<Rightarrow>
             if supports \<and> d \<noteq> Some Jdbc \<and> trim s \<noteq> [] then
               (case if d = Some SqlServer then parse_sqlserver_linked_schema_ref decode s else None of
                  Some linked \<Rightarrow> sqlserver_linked_table_name linked table_name
                | None \<Rightarrow> quote_table_identifier d s @ ''.'' @ quote_table_identifier d table_name)
             else quote_table_identifier d table_name
         | None \<Rightarrow> quote_table_identifier d table_name))"

section \<open>Reading identifiers back\<close>

definition read_identifier :: "char \<times> char \<Rightarrow> string \<Rightarrow> (string \<times> string) option" where
  "read_identifier ds s =
     (case s of [] \<Rightarrow> None | c # cs \<Rightarrow> if c = fst ds then read_delimited (snd ds) cs else None)"

text \<open>Reads \<open>n\<close> identifiers with dots in between.\<close>

fun read_parts :: "char \<times> char \<Rightarrow> nat \<Rightarrow> string \<Rightarrow> (string list \<times> string) option" where
  "read_parts ds 0 s = Some ([], s)"
| "read_parts ds (Suc n) s =
     (case read_identifier ds s of
        None \<Rightarrow> None
      | Some (name, cs) \<Rightarrow>
          if n = 0 then Some ([name], cs)
          else (case cs of
                  CHR ''.'' # ds' \<Rightarrow> map_option (\<lambda>(names, rest). (name # names, rest)) (read_parts ds n ds')
                | _ \<Rightarrow> None))"

definition delimiters :: "database_type option \<Rightarrow> char \<times> char" where
  "delimiters d =
     (if d = Some Neo4j \<or> (\<exists>b\<in>set backtick_databases. d = Some b) then (CHR ''`'', CHR ''`'')
      else if d = Some SqlServer then (CHR ''['', CHR '']'')
      else (CHR 34, CHR 34))"

definition passed_through :: "database_type option \<Rightarrow> string \<Rightarrow> bool" where
  "passed_through d name \<longleftrightarrow>
     d = Some Iotdb \<or> d = Some Jdbc \<or>
     (d = Some Gaussdb \<or> d = Some OpenGauss) \<and> is_explicitly_quoted_identifier name \<or>
     d = Some Informix \<and> is_simple_informix_identifier name"

lemma quoted_form:
  assumes "\<not> passed_through d name"
  shows "quote_table_identifier d name =
    fst (delimiters d) # replace_char name (snd (delimiters d)) [snd (delimiters d), snd (delimiters d)] @
    [snd (delimiters d)]"
  using assms unfolding passed_through_def quote_table_identifier_def delimiters_def
  by (auto simp: backtick_databases_def)

lemma read_quoted:
  assumes "\<not> passed_through d name" "rest = [] \<or> hd rest \<noteq> snd (delimiters d)"
  shows "read_identifier (delimiters d) (quote_table_identifier d name @ rest) = Some (name, rest)"
  by (simp add: quoted_form [OF assms(1)] read_identifier_def read_delimited_replace [OF assms(2)])

lemma delimiters_not_dot: "snd (delimiters d) \<noteq> CHR ''.''"
  by (simp add: delimiters_def)

lemma explicit_quotes_not_checked:
  "quote_table_identifier (Some Gaussdb) (CHR 34 # ''a'' @ CHR 34 # ''; DROP TABLE b; --'' @ [CHR 34]) =
     CHR 34 # ''a'' @ CHR 34 # ''; DROP TABLE b; --'' @ [CHR 34]"
  by (simp add: quote_table_identifier_def is_explicitly_quoted_identifier_def ends_with_def str_len_def
      len_utf8_def)

lemma read_joined:
  assumes "xs \<noteq> []" "\<forall>x\<in>set xs. \<not> passed_through d x" "rest = [] \<or> hd rest \<noteq> snd (delimiters d)"
  shows "read_parts (delimiters d) (length xs) (join ''.'' (map (quote_table_identifier d) xs) @ rest) = Some (xs, rest)"
  using assms
proof (induction xs)
  case (Cons x xs)
  show ?case
  proof (cases xs)
    case Nil
    then show ?thesis using read_quoted [of d x rest] Cons.prems by simp
  next
    case (Cons y ys)
    let ?more = "join ''.'' (map (quote_table_identifier d) xs) @ rest"
    have "read_identifier (delimiters d) (quote_table_identifier d x @ CHR ''.'' # ?more) = Some (x, CHR ''.'' # ?more)"
      using Cons.prems by (intro read_quoted) (simp_all add: delimiters_not_dot [symmetric])
    then show ?thesis using Cons.IH Cons.prems Cons by simp
  qed
qed simp

text \<open>
  The names a qualified name is made of: the table alone where there is no schema or the product does
  not qualify; server, catalog, schema and table for a linked server; schema and table otherwise.
\<close>

definition qualified_parts ::
  "(string \<Rightarrow> string option) \<Rightarrow> database_type option \<Rightarrow> string option \<Rightarrow> string \<Rightarrow> string list" where
  "qualified_parts decode d schema table =
     (let qualifies = (case d of None \<Rightarrow> False | Some x \<Rightarrow> is_schema_aware x \<or> x \<in> {Mysql, Goldendb, StarRocks, Doris}) in
      case schema of
        None \<Rightarrow> [table]
      | Some s \<Rightarrow>
          if \<not> qualifies \<or> trim s = [] then [table]
          else (case if d = Some SqlServer then parse_sqlserver_linked_schema_ref decode s else None of
                  Some linked \<Rightarrow> [lk_server linked, lk_catalog linked, lk_schema linked, table]
                | None \<Rightarrow> [s, table]))"

section \<open>Properties\<close>

lemma qualified_name_joined:
  assumes "\<not> passed_through d table"
  shows "qualified_table_name decode d schema table = join ''.'' (map (quote_table_identifier d) (qualified_parts decode d schema table))"
proof -
  have "d \<noteq> Some Iotdb" "d \<noteq> Some Jdbc" using assms by (auto simp: passed_through_def)
  then show ?thesis
    by (auto simp: qualified_table_name_def qualified_parts_def sqlserver_linked_table_name_def Let_def split: option.splits)
qed

text \<open>C21: For every product, with or without a schema, the qualified name of a table reads back as exactly the
  names it was built from, whatever characters they contain, and the text that follows is left alone:
  no name that is quoted can end its quoting early. The names are the table alone where there is no
  schema, or a blank one, or the product does not qualify; the decoded server, catalog and schema and
  the table for a linked SQL Server; the schema and the table otherwise. Excepted are the names that
  are not quoted at all: those of IoTDB and JDBC, simple Informix names, and names of GaussDB and
  openGauss that come in quotes, which are trusted as they are.\<close>

theorem qualified_name_reads_back:
  assumes "\<forall>name\<in>set (qualified_parts decode d schema table). \<not> passed_through d name"
    and "rest = [] \<or> hd rest \<noteq> snd (delimiters d)"
  shows "read_parts (delimiters d) (length (qualified_parts decode d schema table))
      (qualified_table_name decode d schema table @ rest) = Some (qualified_parts decode d schema table, rest)"
proof -
  have "table \<in> set (qualified_parts decode d schema table)"
    by (auto simp: qualified_parts_def Let_def split: option.splits)
  then have "\<not> passed_through d table" "qualified_parts decode d schema table \<noteq> []" using assms(1) by auto
  then show ?thesis using read_joined [OF _ assms] by (simp add: qualified_name_joined)
qed

theorem qualified_name_reads_back_witness:
  "read_parts (CHR ''['', CHR '']'') 4
     (qualified_table_name Some (Some SqlServer) (Some ''__dbx_sqlserver_linked__:s].x|c|dbo'') ''a] ; drop'' @ '' WHERE 1'') =
   Some ([''s].x'', ''c'', ''dbo'', ''a] ; drop''], '' WHERE 1'')"
proof -
  have "qualified_parts Some (Some SqlServer) (Some ''__dbx_sqlserver_linked__:s].x|c|dbo'') ''a] ; drop'' =
      [''s].x'', ''c'', ''dbo'', ''a] ; drop'']" by code_simp
  then show ?thesis
    using qualified_name_reads_back [of Some "Some SqlServer" "Some ''__dbx_sqlserver_linked__:s].x|c|dbo''"
        "''a] ; drop''" "'' WHERE 1''"]
    by (simp add: passed_through_def delimiters_def backtick_databases_def numeral_eq_Suc del: read_parts.simps)
qed

end
