(* ===== verification/Data_Compare.thy ===== *)
theory Data_Compare
  imports Json Sql_Dialect
begin

text \<open>
  The comparison of the rows of two tables (\<open>data_compare.rs\<close>): rows are matched by the text
  of their key, the result lists added, removed and changed rows, and the rows come from paged
  queries.

  The printer of JSON values (\<open>serde_json::to_string\<close>) is the argument \<open>ts\<close>. \<open>texts_ok\<close>
  states what the keys rely on, for the values at hand: printing succeeds, two values with the
  same text are the same, key order included, and no text contains the control character U+001F, which JSON escapes. A
  panic is \<open>None\<close>. \<open>exec\<close> runs a query on a connection, with a limit of rows;
  \<open>fetch_compare_rows\<close> is a loop that may not end, \<open>None\<close> there is a run that never returns.
\<close>

section \<open>Comparison of rows\<close>

type_synonym json_row = "json list"

record compare_data_rows_options =
  co_columns :: "string list"
  co_key_columns :: "string list"
  co_source_rows :: "json_row list"
  co_target_rows :: "json_row list"

record data_compare_changed_cell =
  cc_column :: string
  cc_source :: json
  cc_target :: json

record data_compare_row =
  cr_key :: string
  cr_key_values :: "(string, json) hash_map"
  cr_values :: "(string, json) hash_map"

record data_compare_modified_row =
  cm_key :: string
  cm_key_values :: "(string, json) hash_map"
  cm_source_values :: "(string, json) hash_map"
  cm_target_values :: "(string, json) hash_map"
  cm_changes :: "data_compare_changed_cell list"

record data_compare_result =
  res_added :: "data_compare_row list"
  res_removed :: "data_compare_row list"
  res_modified :: "data_compare_modified_row list"

definition json_stringify :: "(json \<Rightarrow> string result) \<Rightarrow> json \<Rightarrow> string" where
  "json_stringify ts v = (case ts v of Err _ \<Rightarrow> ''null'' | Ok s \<Rightarrow> s)"

definition row_value :: "json_row \<Rightarrow> nat \<Rightarrow> json" where
  "row_value row i = (if i < length row then row ! i else JNull)"

definition normalize_row_len :: "json_row \<Rightarrow> nat \<Rightarrow> json_row" where
  "normalize_row_len row n = row @ replicate (n - length row) JNull"

definition column_index_map :: "string list \<Rightarrow> (string, nat) hash_map" where
  "column_index_map columns = hm_collect (map (\<lambda>(i, c). (c, i)) (List.enumerate 0 columns))"

definition row_object :: "string list \<Rightarrow> json_row \<Rightarrow> (string, json) hash_map" where
  "row_object columns row = hm_collect (map (\<lambda>(i, c). (c, row_value row i)) (List.enumerate 0 columns))"

fun insert_cells :: "string list \<Rightarrow> json_row \<Rightarrow> (string, json) hash_map \<Rightarrow> (string, json) hash_map" where
  "insert_cells [] row m = m"
| "insert_cells (c # cs) [] m = insert_cells cs [] (hm_insert c JNull m)"
| "insert_cells (c # cs) (v # vs) m = insert_cells cs vs (hm_insert c v m)"

definition row_object_owned :: "string list \<Rightarrow> json_row \<Rightarrow> (string, json) hash_map" where
  "row_object_owned columns row = insert_cells columns row []"

definition value_for :: "(string, json) hash_map \<Rightarrow> string \<Rightarrow> json" where
  "value_for row column = (case hm_get row column of None \<Rightarrow> JNull | Some v \<Rightarrow> v)"

definition unit_separator :: char where
  "unit_separator = CHR 0x1F"

definition key_for :: "(json \<Rightarrow> string result) \<Rightarrow> (string, json) hash_map \<Rightarrow> string list \<Rightarrow> string" where
  "key_for ts row key_columns = join [unit_separator] (map (\<lambda>c. json_stringify ts (value_for row c)) key_columns)"

definition key_for_row ::
    "(json \<Rightarrow> string result) \<Rightarrow> json_row \<Rightarrow> string list \<Rightarrow> (string, nat) hash_map \<Rightarrow> string" where
  "key_for_row ts row key_columns idx =
     join [unit_separator]
       (map (\<lambda>c. case hm_get idx c of Some i \<Rightarrow> json_stringify ts (row_value row i) | None \<Rightarrow> json_stringify ts JNull)
         key_columns)"

definition key_values :: "(string, json) hash_map \<Rightarrow> string list \<Rightarrow> (string, json) hash_map" where
  "key_values row key_columns = hm_collect (map (\<lambda>c. (c, value_for row c)) key_columns)"

definition key_values_for_row :: "json_row \<Rightarrow> string list \<Rightarrow> (string, nat) hash_map \<Rightarrow> (string, json) hash_map" where
  "key_values_for_row row key_columns idx =
     hm_collect (map (\<lambda>c. (c, case hm_get idx c of Some i \<Rightarrow> row_value row i | None \<Rightarrow> JNull)) key_columns)"

definition duplicate_key_error :: "string \<Rightarrow> string list \<Rightarrow> string \<Rightarrow> string" where
  "duplicate_key_error label key_columns key =
     ''Duplicate '' @ label @ '' key for column(s) ['' @ join '', '' key_columns @ '']: '' @
     (if 1 < length key_columns then ''['' @ join '', '' (split_char unit_separator key) @ '']'' else key)"

fun collect_compare_rows ::
    "(json \<Rightarrow> string result) \<Rightarrow> string list \<Rightarrow> string list \<Rightarrow> (string, nat) hash_map \<Rightarrow> string \<Rightarrow> json_row list \<Rightarrow>
     (string, json_row) hash_map \<Rightarrow> string list \<Rightarrow> ((string, json_row) hash_map \<times> string list) result" where
  "collect_compare_rows ts columns key_columns idx label [] items order = Ok (items, order)"
| "collect_compare_rows ts columns key_columns idx label (row # rows) items order =
     (let key = key_for_row ts row key_columns idx in
      if hm_get items key \<noteq> None then Err (duplicate_key_error label key_columns key)
      else collect_compare_rows ts columns key_columns idx label rows
             (hm_insert key (normalize_row_len row (length columns)) items) (order @ [key]))"

definition changed_cells :: "string list \<Rightarrow> string list \<Rightarrow> (string, nat) hash_map \<Rightarrow> json_row \<Rightarrow> json_row \<Rightarrow>
    data_compare_changed_cell list" where
  "changed_cells columns key_columns idx source target =
     List.map_filter (\<lambda>c. case hm_get idx c of None \<Rightarrow> None
       | Some i \<Rightarrow> if \<not> json_eq (row_value source i) (row_value target i)
                  then Some \<lparr>cc_column = c, cc_source = row_value source i, cc_target = row_value target i\<rparr>
                  else None)
       (filter (\<lambda>c. c \<notin> set key_columns) columns)"

definition compare_row :: "string list \<Rightarrow> string list \<Rightarrow> (string, nat) hash_map \<Rightarrow> string \<Rightarrow> json_row \<Rightarrow> data_compare_row" where
  "compare_row columns key_columns idx key row =
     \<lparr>cr_key = key, cr_key_values = key_values_for_row row key_columns idx, cr_values = row_object columns row\<rparr>"

definition modified_row :: "string list \<Rightarrow> string list \<Rightarrow> (string, nat) hash_map \<Rightarrow> string \<Rightarrow> json_row \<Rightarrow> json_row \<Rightarrow>
    data_compare_modified_row" where
  "modified_row columns key_columns idx key source target =
     \<lparr>cm_key = key, cm_key_values = key_values_for_row source key_columns idx,
      cm_source_values = row_object columns source, cm_target_values = row_object columns target,
      cm_changes = changed_cells columns key_columns idx source target\<rparr>"

fun compare_source ::
    "string list \<Rightarrow> string list \<Rightarrow> (string, nat) hash_map \<Rightarrow> (string, json_row) hash_map \<Rightarrow>
     (string, json_row) hash_map \<Rightarrow> string list \<Rightarrow> data_compare_row list \<Rightarrow> data_compare_modified_row list \<Rightarrow>
     (data_compare_row list \<times> data_compare_modified_row list) option" where
  "compare_source columns keys idx source target [] added modified = Some (added, modified)"
| "compare_source columns keys idx source target (key # order) added modified =
     (case hm_get source key of None \<Rightarrow> None
      | Some sv \<Rightarrow>
          (case hm_get target key of
             None \<Rightarrow> compare_source columns keys idx source target order
                       (added @ [compare_row columns keys idx key sv]) modified
           | Some tv \<Rightarrow>
               let m = modified_row columns keys idx key sv tv in
               compare_source columns keys idx source target order added
                 (if cm_changes m = [] then modified else modified @ [m])))"

definition compare_target ::
    "string list \<Rightarrow> string list \<Rightarrow> (string, nat) hash_map \<Rightarrow> (string, json_row) hash_map \<Rightarrow>
     (string, json_row) hash_map \<Rightarrow> string list \<Rightarrow> data_compare_row list" where
  "compare_target columns keys idx source target order =
     List.map_filter (\<lambda>key. case hm_get target key of None \<Rightarrow> None
       | Some tv \<Rightarrow> if hm_get source key = None then Some (compare_row columns keys idx key tv) else None) order"

definition compare_data_rows ::
    "(json \<Rightarrow> string result) \<Rightarrow> compare_data_rows_options \<Rightarrow> data_compare_result result option" where
  "compare_data_rows ts opts =
     (let columns = co_columns opts; keys = co_key_columns opts; idx = column_index_map columns in
      if keys = [] then Some (Err ''At least one key column is required for data comparison'')
      else case collect_compare_rows ts columns keys idx ''source'' (co_source_rows opts) [] [] of
        Err e \<Rightarrow> Some (Err e)
      | Ok (source, source_order) \<Rightarrow>
          (case collect_compare_rows ts columns keys idx ''target'' (co_target_rows opts) [] [] of
             Err e \<Rightarrow> Some (Err e)
           | Ok (target, target_order) \<Rightarrow>
               (case compare_source columns keys idx source target source_order [] [] of
                  None \<Rightarrow> None
                | Some (added, modified) \<Rightarrow>
                    Some (Ok \<lparr>res_added = added,
                      res_removed = compare_target columns keys idx source target target_order,
                      res_modified = modified\<rparr>))))"

definition missing_target_diff ::
    "(json \<Rightarrow> string result) \<Rightarrow> string list \<Rightarrow> string list \<Rightarrow> json_row list \<Rightarrow> data_compare_result" where
  "missing_target_diff ts columns key_columns source_rows =
     \<lparr>res_added = map (\<lambda>(i, row).
        let values = row_object_owned columns row in
        \<lparr>cr_key = (if key_columns = [] then show_nat i else key_for ts values key_columns),
         cr_key_values = key_values values key_columns, cr_values = values\<rparr>) (List.enumerate 0 source_rows),
      res_removed = [], res_modified = []\<rparr>"

section \<open>Specification\<close>

text \<open>A table as its key texts with the rows under them, and a result as a patch of such a table.\<close>

definition row_keys :: "(json \<Rightarrow> string result) \<Rightarrow> string list \<Rightarrow> string list \<Rightarrow> json_row list \<Rightarrow> string list" where
  "row_keys ts columns keys rows = map (\<lambda>row. key_for_row ts row keys (column_index_map columns)) rows"

definition table_view :: "(json \<Rightarrow> string result) \<Rightarrow> string list \<Rightarrow> string list \<Rightarrow> json_row list \<Rightarrow>
    string \<Rightarrow> (string \<Rightarrow> json option) option" where
  "table_view ts columns keys rows key =
     map_option (\<lambda>row. hm_get (row_object columns row)) (map_of (zip (row_keys ts columns keys rows) rows) key)"

definition apply_changes :: "data_compare_changed_cell list \<Rightarrow> (string \<Rightarrow> json option) \<Rightarrow> string \<Rightarrow> json option" where
  "apply_changes cs row = fold (\<lambda>c row. row(cc_column c \<mapsto> cc_source c)) cs row"

definition patch :: "data_compare_result \<Rightarrow> (string \<Rightarrow> (string \<Rightarrow> json option) option) \<Rightarrow>
    string \<Rightarrow> (string \<Rightarrow> json option) option" where
  "patch r t key =
     (case find (\<lambda>x. cr_key x = key) (res_added r) of Some x \<Rightarrow> Some (hm_get (cr_values x))
      | None \<Rightarrow>
          if key \<in> cr_key ` set (res_removed r) then None
          else case find (\<lambda>m. cm_key m = key) (res_modified r) of
            Some m \<Rightarrow> map_option (apply_changes (cm_changes m)) (t key)
          | None \<Rightarrow> t key)"

text \<open>Two rows agree when the same columns have equal values, two tables when the same keys have such rows.\<close>

definition same_row :: "(string \<Rightarrow> json option) \<Rightarrow> (string \<Rightarrow> json option) \<Rightarrow> bool" where
  "same_row r r' \<longleftrightarrow> (\<forall>c. rel_option json_eq (r c) (r' c))"

definition same_table :: "(string \<Rightarrow> (string \<Rightarrow> json option) option) \<Rightarrow> (string \<Rightarrow> (string \<Rightarrow> json option) option) \<Rightarrow> bool" where
  "same_table t t' \<longleftrightarrow> (\<forall>k. rel_option same_row (t k) (t' k))"

definition texts_ok :: "(json \<Rightarrow> string result) \<Rightarrow> json set \<Rightarrow> bool" where
  "texts_ok ts vs \<longleftrightarrow>
     (\<forall>v\<in>vs. case ts v of Err _ \<Rightarrow> False | Ok s \<Rightarrow> unit_separator \<notin> set s) \<and> inj_on ts vs"

definition cells :: "json_row list \<Rightarrow> json set" where
  "cells rows = insert JNull (\<Union> (set ` set rows))"

section \<open>Rows and keys\<close>

lemma row_value_normalize [simp]: "row_value (normalize_row_len row n) i = row_value row i"
  by (auto simp: row_value_def normalize_row_len_def nth_append)

lemma row_object_normalize [simp]: "row_object columns (normalize_row_len row n) = row_object columns row"
  by (simp add: row_object_def)

lemma key_values_normalize [simp]:
  "key_values_for_row (normalize_row_len row n) keys idx = key_values_for_row row keys idx"
  unfolding key_values_for_row_def row_value_normalize ..

lemma changed_cells_normalize [simp]:
  "changed_cells columns keys idx (normalize_row_len s n) (normalize_row_len t m) = changed_cells columns keys idx s t"
  unfolding changed_cells_def row_value_normalize ..

lemma row_value_in_cells: "row \<in> set rows \<Longrightarrow> row_value row i \<in> cells rows"
  by (auto simp: row_value_def cells_def intro: bexI [of _ row])

lemma row_object_get:
  "hm_get (row_object columns row) c = map_option (row_value row) (hm_get (column_index_map columns) c)"
proof -
  have "map (\<lambda>(i, c). (c, row_value row i)) ics = map (\<lambda>(c, i). (c, row_value row i)) (map (\<lambda>(i, c). (c, i)) ics)"
    for ics :: "(nat \<times> string) list"
    by (induction ics) auto
  then show ?thesis
    by (simp only: row_object_def column_index_map_def hm_collect_get rev_map map_of_map comp_apply)
qed

lemma insert_cells_fold:
  "insert_cells cs row m =
     fold (\<lambda>(k, v) m. hm_insert k v m) (map (\<lambda>(i, c). (c, row_value (replicate n JNull @ row) i)) (List.enumerate n cs)) m"
proof (induction cs row m arbitrary: n rule: insert_cells.induct)
  case (1 row m)
  show ?case by simp
next
  case (2 c cs m)
  have "row_value (replicate k JNull) i = JNull" for k i by (simp add: row_value_def)
  then show ?case using 2 [of "Suc n"] by (simp del: replicate_Suc)
next
  case (3 c cs v vs m)
  have "row_value (replicate (Suc n) JNull @ vs) i = row_value (replicate n JNull @ v # vs) i" if "Suc n \<le> i" for i
  proof -
    have "i - n = Suc (i - Suc n)" using that by simp
    then show ?thesis using that by (auto simp: row_value_def nth_append)
  qed
  then have "map (\<lambda>(i, c). (c, row_value (replicate (Suc n) JNull @ vs) i)) (List.enumerate (Suc n) cs) =
      map (\<lambda>(i, c). (c, row_value (replicate n JNull @ v # vs) i)) (List.enumerate (Suc n) cs)"
    by (auto simp: in_set_enumerate_eq)
  moreover have "row_value (replicate n JNull @ v # vs) n = v" by (simp add: row_value_def nth_append)
  ultimately show ?case using 3 [of "Suc n"] by (simp del: replicate_Suc map_eq_conv)
qed

lemma row_object_owned_eq: "row_object_owned columns row = row_object columns row"
  using insert_cells_fold [of columns row "[]" 0] by (simp add: row_object_owned_def row_object_def hm_collect_def)

lemma value_for_object:
  "value_for (row_object columns row) c =
     (case hm_get (column_index_map columns) c of Some i \<Rightarrow> row_value row i | None \<Rightarrow> JNull)"
  by (simp add: value_for_def row_object_get split: option.splits)

lemma key_for_object: "key_for ts (row_object columns row) keys = key_for_row ts row keys (column_index_map columns)"
  unfolding key_for_def key_for_row_def value_for_object
  by (rule arg_cong [where f = "join _"]) (auto split: option.splits)

lemma key_values_object:
  "key_values (row_object columns row) keys = key_values_for_row row keys (column_index_map columns)"
  by (simp add: key_values_def key_values_for_row_def value_for_object)

text \<open>Equal key texts mean equal key cells.\<close>

lemma json_stringify_ok:
  assumes "texts_ok ts vs" "v \<in> vs"
  shows "ts v = Ok (json_stringify ts v)" "unit_separator \<notin> set (json_stringify ts v)"
  using assms by (auto simp: texts_ok_def json_stringify_def split: sum.splits)

lemma json_stringify_inj:
  assumes "texts_ok ts vs" "v \<in> vs" "w \<in> vs" "json_stringify ts v = json_stringify ts w"
  shows "v = w"
proof (rule inj_onD [OF _ _ assms(2,3)])
  show "inj_on ts vs" using assms(1) by (simp add: texts_ok_def)
  show "ts v = ts w" using json_stringify_ok(1) [OF assms(1,2)] json_stringify_ok(1) [OF assms(1,3)] assms(4) by simp
qed

lemma key_texts_equal:
  assumes "texts_ok ts vs" "JNull \<in> vs" "\<And>i. row_value s i \<in> vs" "\<And>i. row_value t i \<in> vs"
    and "key_for_row ts s keys idx = key_for_row ts t keys idx"
    and "c \<in> set keys" "hm_get idx c = Some i"
  shows "row_value s i = row_value t i"
proof -
  let ?f = "\<lambda>row c. case hm_get idx c of Some i \<Rightarrow> json_stringify ts (row_value row i) | None \<Rightarrow> json_stringify ts JNull"
  have "unit_separator \<notin> set (?f s c)" "unit_separator \<notin> set (?f t c)" for c
    using json_stringify_ok(2) [OF assms(1)] assms(2-4) by (auto split: option.splits)
  then have "map (?f row) keys = split_char unit_separator (key_for_row ts row keys idx)" if "row \<in> {s, t}" for row
    unfolding key_for_row_def using that assms(6) by (subst split_char_join) auto
  then have "map (?f s) keys = map (?f t) keys" using assms(5) by simp
  then have "json_stringify ts (row_value s i) = json_stringify ts (row_value t i)"
    using assms(6,7) by (auto simp: map_eq_conv)
  then show ?thesis using json_stringify_inj [OF assms(1)] assms(3,4) by blast
qed

section \<open>What a comparison returns\<close>

lemma collect_rows_ok:
  assumes "distinct (row_keys ts columns keys rows)"
    and "set (row_keys ts columns keys rows) \<inter> dom (hm_get items) = {}"
  shows "\<exists>items'. collect_compare_rows ts columns keys (column_index_map columns) label rows items order =
      Ok (items', order @ row_keys ts columns keys rows) \<and>
    hm_get items' = hm_get items ++
      map_of (zip (row_keys ts columns keys rows) (map (\<lambda>row. normalize_row_len row (length columns)) rows))"
  using assms
proof (induction rows arbitrary: items order)
  case Nil
  then show ?case by (simp add: row_keys_def)
next
  case (Cons row rows)
  let ?k = "key_for_row ts row keys (column_index_map columns)"
  let ?items = "hm_insert ?k (normalize_row_len row (length columns)) items"
  have keys: "row_keys ts columns keys (row # rows) = ?k # row_keys ts columns keys rows"
    by (simp add: row_keys_def)
  have dom: "dom (hm_get ?items) = insert ?k (dom (hm_get items))"
    unfolding hm_get_insert by (simp only: dom_fun_upd option.distinct if_False)
  have "distinct (row_keys ts columns keys rows)"
    "set (row_keys ts columns keys rows) \<inter> dom (hm_get ?items) = {}"
    using Cons.prems unfolding keys dom by auto
  from Cons.IH [OF this, of "order @ [?k]"] obtain items' where
    ih: "collect_compare_rows ts columns keys (column_index_map columns) label rows ?items (order @ [?k]) =
        Ok (items', (order @ [?k]) @ row_keys ts columns keys rows)"
      "hm_get items' = hm_get ?items ++
        map_of (zip (row_keys ts columns keys rows) (map (\<lambda>row. normalize_row_len row (length columns)) rows))"
    by blast
  have "hm_get items ?k = None" using Cons.prems(2) unfolding keys by (auto simp: dom_def)
  moreover have "?k \<notin> set (row_keys ts columns keys rows)" using Cons.prems(1) unfolding keys by simp
  then have "map_of (zip (row_keys ts columns keys rows)
      (map (\<lambda>row. normalize_row_len row (length columns)) rows)) ?k = None"
    by (auto simp: map_of_eq_None_iff dest: set_zip_leftD)
  ultimately show ?case
    using ih unfolding keys by (auto simp: fun_eq_iff map_add_def split: option.splits)
qed

lemma collect_rows_duplicate:
  assumes "\<not> (distinct (row_keys ts columns keys rows) \<and>
      set (row_keys ts columns keys rows) \<inter> dom (hm_get items) = {})"
  shows "\<exists>k. collect_compare_rows ts columns keys (column_index_map columns) label rows items order =
    Err (duplicate_key_error label keys k)"
  using assms
proof (induction rows arbitrary: items order)
  case Nil
  then show ?case by (simp add: row_keys_def)
next
  case (Cons row rows)
  let ?k = "key_for_row ts row keys (column_index_map columns)"
  have keys: "row_keys ts columns keys (row # rows) = ?k # row_keys ts columns keys rows"
    by (simp add: row_keys_def)
  show ?case
  proof (cases "hm_get items ?k = None")
    case True
    then have "?k \<notin> dom (hm_get items)" by (simp add: domIff)
    moreover have dom: "dom (hm_get (hm_insert ?k (normalize_row_len row (length columns)) items)) =
        insert ?k (dom (hm_get items))"
    unfolding hm_get_insert by (simp only: dom_fun_upd option.distinct if_False)
    ultimately have "\<not> (distinct (row_keys ts columns keys rows) \<and> set (row_keys ts columns keys rows) \<inter>
        dom (hm_get (hm_insert ?k (normalize_row_len row (length columns)) items)) = {})"
      using Cons.prems unfolding keys dom by auto
    from Cons.IH [OF this] show ?thesis using True by (simp add: Let_def)
  next
    case False
    then show ?thesis by (auto simp: Let_def)
  qed
qed

lemma find_keyed:
  assumes "\<And>k. key (f k) = k"
  shows "find (\<lambda>x. key x = k) (map f ks) = (if k \<in> set ks then Some (f k) else None)"
  using assms by (induction ks) auto

lemma compare_source_result:
  assumes "set order \<subseteq> dom (hm_get source)"
  shows "compare_source columns keys idx source target order added modified =
    Some (added @ map (\<lambda>k. compare_row columns keys idx k (the (hm_get source k)))
            (filter (\<lambda>k. hm_get target k = None) order),
          modified @ filter (\<lambda>m. cm_changes m \<noteq> [])
            (map (\<lambda>k. modified_row columns keys idx k (the (hm_get source k)) (the (hm_get target k)))
              (filter (\<lambda>k. hm_get target k \<noteq> None) order)))"
  using assms
  by (induction order arbitrary: added modified) (auto simp: Let_def split: option.splits)

lemma compare_target_result:
  assumes "set order \<subseteq> dom (hm_get target)"
  shows "compare_target columns keys idx source target order =
    map (\<lambda>k. compare_row columns keys idx k (the (hm_get target k))) (filter (\<lambda>k. hm_get source k = None) order)"
  using assms
  by (induction order) (auto simp: compare_target_def List.map_filter_simps split: option.splits)

lemma apply_changes_get:
  "apply_changes cs row c =
     (case find (\<lambda>x. cc_column x = c) (rev cs) of Some x \<Rightarrow> Some (cc_source x) | None \<Rightarrow> row c)"
  by (induction cs rule: rev_induct) (auto simp: apply_changes_def)

lemma changed_cells_mem:
  "x \<in> set (changed_cells columns keys idx s t) \<longleftrightarrow>
     (\<exists>i. cc_column x \<in> set columns \<and> cc_column x \<notin> set keys \<and> hm_get idx (cc_column x) = Some i \<and>
       \<not> json_eq (row_value s i) (row_value t i) \<and>
       x = \<lparr>cc_column = cc_column x, cc_source = row_value s i, cc_target = row_value t i\<rparr>)"
  unfolding changed_cells_def List.map_filter_def by (force split: option.splits if_splits)

text \<open>Two rows with equal key cells: the changes turn one into the other, and there are none exactly
  when the rows agree on the columns.\<close>

lemma column_known: "c \<in> set columns \<longleftrightarrow> hm_get (column_index_map columns) c \<noteq> None"
proof -
  have "fst \<circ> (\<lambda>(i, c). (c, i)) = (snd :: nat \<times> string \<Rightarrow> string)" by auto
  then have "map fst (map (\<lambda>(i, c). (c, i)) (List.enumerate 0 columns)) = columns" by simp
  then have "fst ` set (map (\<lambda>(i, c). (c, i)) (List.enumerate 0 columns)) = set columns"
    by (metis set_map)
  then show ?thesis
    unfolding column_index_map_def hm_collect_get map_of_eq_None_iff set_rev by simp
qed

lemma row_object_same:
  "same_row (hm_get (row_object columns s)) (hm_get (row_object columns t)) \<longleftrightarrow>
     (\<forall>c i. hm_get (column_index_map columns) c = Some i \<longrightarrow> json_eq (row_value s i) (row_value t i))"
proof -
  have "rel_option (\<lambda>x y. json_eq (row_value s x) (row_value t y)) o1 o1 \<longleftrightarrow>
      (\<forall>i. o1 = Some i \<longrightarrow> json_eq (row_value s i) (row_value t i))" for o1
    by (cases o1) auto
  then show ?thesis unfolding same_row_def row_object_get option.rel_map by simp
qed

lemma row_patched:
  assumes "\<And>c i. c \<in> set keys \<Longrightarrow> hm_get (column_index_map columns) c = Some i \<Longrightarrow> row_value s i = row_value t i"
    and wf: "\<And>i. json_wf (row_value s i)"
  defines "cs \<equiv> changed_cells columns keys (column_index_map columns) s t"
  shows "same_row (hm_get (row_object columns s)) (apply_changes cs (hm_get (row_object columns t)))"
    and "cs = [] \<longleftrightarrow> same_row (hm_get (row_object columns s)) (hm_get (row_object columns t))"
proof -
  note mem = changed_cells_mem [where columns = columns and keys = keys and idx = "column_index_map columns"
      and s = s and t = t, folded cs_def]
  have unchanged: "json_eq (row_value s i) (row_value t i)"
    if i: "hm_get (column_index_map columns) c = Some i" and none: "\<not> (\<exists>x\<in>set cs. cc_column x = c)" for c i
  proof (rule ccontr)
    assume differ: "\<not> json_eq (row_value s i) (row_value t i)"
    then have "c \<notin> set keys" using assms(1) [OF _ i] json_eq_refl [OF wf, of i] by auto
    moreover have "c \<in> set columns" using i by (simp add: column_known)
    ultimately have "\<lparr>cc_column = c, cc_source = row_value s i, cc_target = row_value t i\<rparr> \<in> set cs"
      unfolding mem using i differ by simp
    then show False using none by force
  qed
  show "same_row (hm_get (row_object columns s)) (apply_changes cs (hm_get (row_object columns t)))"
    unfolding same_row_def
  proof
    fix c
    show "rel_option json_eq (hm_get (row_object columns s) c) (apply_changes cs (hm_get (row_object columns t)) c)"
    proof (cases "find (\<lambda>x. cc_column x = c) (rev cs)")
      case (Some x)
      then have "x \<in> set (rev cs)" "cc_column x = c" by (auto simp: find_Some_iff simp del: set_rev)
      then have "x \<in> set cs" by simp
      then obtain i where "hm_get (column_index_map columns) c = Some i" "cc_source x = row_value s i"
        unfolding mem \<open>cc_column x = c\<close> by (metis data_compare_changed_cell.select_convs(2))
      then show ?thesis using Some json_eq_refl [OF wf, of i] by (simp add: apply_changes_get row_object_get)
    next
      case None
      then have none: "\<not> (\<exists>x\<in>set cs. cc_column x = c)" by (simp add: find_None_iff)
      then show ?thesis
        using None unchanged [OF _ none]
        by (cases "hm_get (column_index_map columns) c") (auto simp: apply_changes_get row_object_get)
    qed
  qed
  show "cs = [] \<longleftrightarrow> same_row (hm_get (row_object columns s)) (hm_get (row_object columns t))"
  proof
    assume "cs = []"
    then show "same_row (hm_get (row_object columns s)) (hm_get (row_object columns t))"
      unfolding row_object_same using unchanged by simp
  next
    assume same: "same_row (hm_get (row_object columns s)) (hm_get (row_object columns t))"
    have False if x: "x \<in> set cs" for x
      using x same unfolding mem row_object_same by blast
    then show "cs = []" by (cases cs) auto
  qed
qed

definition lookup_row :: "(json \<Rightarrow> string result) \<Rightarrow> string list \<Rightarrow> string list \<Rightarrow> json_row list \<Rightarrow> string \<Rightarrow> json_row option" where
  "lookup_row ts columns keys rows = map_of (zip (row_keys ts columns keys rows) rows)"

lemma lookup_row_None: "lookup_row ts columns keys rows k = None \<longleftrightarrow> k \<notin> set (row_keys ts columns keys rows)"
  by (simp add: lookup_row_def map_of_zip_is_None row_keys_def)

lemma lookup_row_Some:
  assumes "lookup_row ts columns keys rows k = Some row"
  shows "row \<in> set rows" "key_for_row ts row keys (column_index_map columns) = k"
  using assms map_of_SomeD [OF assms [unfolded lookup_row_def]]
  by (auto simp: row_keys_def in_set_zip)

lemma lookup_normalized:
  "map_of (zip (row_keys ts columns keys rows) (map (\<lambda>row. normalize_row_len row n) rows)) =
     map_option (\<lambda>row. normalize_row_len row n) \<circ> lookup_row ts columns keys rows"
  unfolding lookup_row_def zip_map2 map_of_map [symmetric] by (simp add: case_prod_unfold apsnd_def map_prod_def)

lemma compare_row_normalize [simp]:
  "compare_row columns keys idx k (normalize_row_len row n) = compare_row columns keys idx k row"
  "modified_row columns keys idx k (normalize_row_len s n) (normalize_row_len t n) = modified_row columns keys idx k s t"
  by (simp_all add: compare_row_def modified_row_def)

text \<open>The result in terms of the rows under each key.\<close>

definition exact_diff :: "(json \<Rightarrow> string result) \<Rightarrow> string list \<Rightarrow> string list \<Rightarrow> json_row list \<Rightarrow> json_row list \<Rightarrow>
    data_compare_result" where
  "exact_diff ts columns keys rs rt =
     (let idx = column_index_map columns;
          find_s = lookup_row ts columns keys rs; find_t = lookup_row ts columns keys rt;
          sk = row_keys ts columns keys rs; tk = row_keys ts columns keys rt
      in \<lparr>res_added = map (\<lambda>k. compare_row columns keys idx k (the (find_s k))) (filter (\<lambda>k. k \<notin> set tk) sk),
          res_removed = map (\<lambda>k. compare_row columns keys idx k (the (find_t k))) (filter (\<lambda>k. k \<notin> set sk) tk),
          res_modified = filter (\<lambda>m. cm_changes m \<noteq> [])
            (map (\<lambda>k. modified_row columns keys idx k (the (find_s k)) (the (find_t k))) (filter (\<lambda>k. k \<in> set tk) sk))\<rparr>)"

lemma compare_result:
  fixes opts :: compare_data_rows_options and ts :: "json \<Rightarrow> string result"
  defines "columns \<equiv> co_columns opts" and "keys \<equiv> co_key_columns opts"
  defines "idx \<equiv> column_index_map columns"
  defines "find_s \<equiv> lookup_row ts columns keys (co_source_rows opts)"
    and "find_t \<equiv> lookup_row ts columns keys (co_target_rows opts)"
    and "sk \<equiv> row_keys ts columns keys (co_source_rows opts)"
    and "tk \<equiv> row_keys ts columns keys (co_target_rows opts)"
  assumes "keys \<noteq> []" "distinct sk" "distinct tk"
  shows "compare_data_rows ts opts = Some (Ok (exact_diff ts columns keys (co_source_rows opts) (co_target_rows opts)))"
proof -
  let ?norm = "\<lambda>row. normalize_row_len row (length columns)"
  obtain source where source:
    "collect_compare_rows ts columns keys idx ''source'' (co_source_rows opts) [] [] = Ok (source, sk)"
    "hm_get source = map_option ?norm \<circ> find_s"
    using collect_rows_ok [of ts columns keys "co_source_rows opts" "[]" "''source''" "[]"] assms(8,9)
    by (auto simp: idx_def sk_def find_s_def lookup_normalized)
  obtain target where target:
    "collect_compare_rows ts columns keys idx ''target'' (co_target_rows opts) [] [] = Ok (target, tk)"
    "hm_get target = map_option ?norm \<circ> find_t"
    using collect_rows_ok [of ts columns keys "co_target_rows opts" "[]" "''target''" "[]"] assms(8,10)
    by (auto simp: idx_def tk_def find_t_def lookup_normalized)
  have none: "find_s k = None \<longleftrightarrow> k \<notin> set sk" "find_t k = None \<longleftrightarrow> k \<notin> set tk" for k
    by (simp_all add: find_s_def find_t_def sk_def tk_def lookup_row_None)
  have norm: "the (hm_get source k) = ?norm (the (find_s k))" if "k \<in> set sk" for k
    using that none(1) [of k] by (auto simp: source(2))
  have norm': "the (hm_get target k) = ?norm (the (find_t k))" if "k \<in> set tk" for k
    using that none(2) [of k] by (auto simp: target(2))
  have dom: "dom (hm_get source) = set sk" "dom (hm_get target) = set tk"
    using none by (auto simp: source(2) target(2) dom_def)
  have get: "hm_get source k = None \<longleftrightarrow> k \<notin> set sk" "hm_get target k = None \<longleftrightarrow> k \<notin> set tk" for k
    by (simp_all add: source(2) target(2) none)
  have "compare_source columns keys idx source target sk [] [] =
      Some (map (\<lambda>k. compare_row columns keys idx k (the (find_s k))) (filter (\<lambda>k. k \<notin> set tk) sk),
        filter (\<lambda>m. cm_changes m \<noteq> [])
          (map (\<lambda>k. modified_row columns keys idx k (the (find_s k)) (the (find_t k))) (filter (\<lambda>k. k \<in> set tk) sk)))"
  proof -
    have "map (\<lambda>k. modified_row columns keys idx k (the (hm_get source k)) (the (hm_get target k))) (filter (\<lambda>k. k \<in> set tk) sk) =
        map (\<lambda>k. modified_row columns keys idx k (the (find_s k)) (the (find_t k))) (filter (\<lambda>k. k \<in> set tk) sk)"
      by (rule map_cong) (auto simp: norm norm')
    moreover have "map (\<lambda>k. compare_row columns keys idx k (the (hm_get source k))) (filter (\<lambda>k. k \<notin> set tk) sk) =
        map (\<lambda>k. compare_row columns keys idx k (the (find_s k))) (filter (\<lambda>k. k \<notin> set tk) sk)"
      by (rule map_cong) (auto simp: norm)
    ultimately show ?thesis by (simp only: compare_source_result dom get order_refl append_Nil not_not)
  qed
  moreover have "compare_target columns keys idx source target tk =
      map (\<lambda>k. compare_row columns keys idx k (the (find_t k))) (filter (\<lambda>k. k \<notin> set sk) tk)"
  proof -
    have "map (\<lambda>k. compare_row columns keys idx k (the (hm_get target k))) (filter (\<lambda>k. k \<notin> set sk) tk) =
        map (\<lambda>k. compare_row columns keys idx k (the (find_t k))) (filter (\<lambda>k. k \<notin> set sk) tk)"
      by (rule map_cong) (auto simp: norm')
    then show ?thesis by (simp only: compare_target_result dom get order_refl)
  qed
  ultimately show ?thesis
    using source(1) target(1) assms(8)
    unfolding exact_diff_def Let_def find_s_def [symmetric] find_t_def [symmetric] sk_def [symmetric] tk_def [symmetric]
    by (simp add: compare_data_rows_def columns_def [symmetric] keys_def [symmetric] idx_def [symmetric] Let_def)
qed

lemma table_view_lookup:
  "table_view ts columns keys rows k = map_option (\<lambda>row. hm_get (row_object columns row)) (lookup_row ts columns keys rows k)"
  by (simp add: table_view_def lookup_row_def)

lemma same_key_patched:
  assumes "texts_ok ts (cells (rs @ rt))" "\<forall>v\<in>cells (rs @ rt). json_wf v"
    and "lookup_row ts columns keys rs k = Some s" "lookup_row ts columns keys rt k = Some t"
  defines "cs \<equiv> changed_cells columns keys (column_index_map columns) s t"
  shows "same_row (hm_get (row_object columns s)) (apply_changes cs (hm_get (row_object columns t)))"
    and "cs = [] \<longleftrightarrow> same_row (hm_get (row_object columns s)) (hm_get (row_object columns t))"
proof -
  have rows: "s \<in> set (rs @ rt)" "t \<in> set (rs @ rt)"
    "key_for_row ts s keys (column_index_map columns) = key_for_row ts t keys (column_index_map columns)"
    using lookup_row_Some [OF assms(3)] lookup_row_Some [OF assms(4)] by auto
  have key: "row_value s i = row_value t i" if "c \<in> set keys" "hm_get (column_index_map columns) c = Some i" for c i
    using key_texts_equal [OF assms(1) _ _ _ rows(3) that] row_value_in_cells [OF rows(1)]
      row_value_in_cells [OF rows(2)] by (auto simp: cells_def)
  have wf: "json_wf (row_value s i)" for i using assms(2) row_value_in_cells [OF rows(1)] by blast
  show "same_row (hm_get (row_object columns s)) (apply_changes cs (hm_get (row_object columns t)))"
    and "cs = [] \<longleftrightarrow> same_row (hm_get (row_object columns s)) (hm_get (row_object columns t))"
    unfolding cs_def using row_patched [of keys columns s t] key wf by blast+
qed

lemma row_object_refl:
  assumes "\<forall>v\<in>cells rows. json_wf v" "row \<in> set rows"
  shows "same_row (hm_get (row_object columns row)) (hm_get (row_object columns row))"
  unfolding row_object_same using assms row_value_in_cells json_eq_refl by blast

lemma exact_diff_find:
  fixes ts columns keys rs rt
  defines "sk \<equiv> row_keys ts columns keys rs" and "tk \<equiv> row_keys ts columns keys rt"
  defines "find_s \<equiv> lookup_row ts columns keys rs" and "find_t \<equiv> lookup_row ts columns keys rt"
  defines "idx \<equiv> column_index_map columns"
  defines "cs \<equiv> \<lambda>k. changed_cells columns keys idx (the (find_s k)) (the (find_t k))"
  defines "r \<equiv> exact_diff ts columns keys rs rt"
  shows "find (\<lambda>x. cr_key x = k) (res_added r) =
      (if k \<in> set sk \<and> k \<notin> set tk then Some (compare_row columns keys idx k (the (find_s k))) else None)"
    and "k \<in> cr_key ` set (res_removed r) \<longleftrightarrow> k \<in> set tk \<and> k \<notin> set sk"
    and "find (\<lambda>m. cm_key m = k) (res_modified r) =
      (if k \<in> set sk \<and> k \<in> set tk \<and> cs k \<noteq> []
       then Some (modified_row columns keys idx k (the (find_s k)) (the (find_t k))) else None)"
    and "res_added r = [] \<longleftrightarrow> set sk \<subseteq> set tk" and "res_removed r = [] \<longleftrightarrow> set tk \<subseteq> set sk"
    and "res_modified r = [] \<longleftrightarrow> (\<forall>k\<in>set sk \<inter> set tk. cs k = [])"
proof -
  have key: "cr_key (compare_row columns keys idx k row) = k" "cm_key (modified_row columns keys idx k row row') = k"
    "cm_changes (modified_row columns keys idx k row row') = changed_cells columns keys idx row row'" for k row row'
    by (simp_all add: compare_row_def modified_row_def)
  have r: "res_added r = map (\<lambda>k. compare_row columns keys idx k (the (find_s k))) (filter (\<lambda>k. k \<notin> set tk) sk)"
    "res_removed r = map (\<lambda>k. compare_row columns keys idx k (the (find_t k))) (filter (\<lambda>k. k \<notin> set sk) tk)"
    "res_modified r = map (\<lambda>k. modified_row columns keys idx k (the (find_s k)) (the (find_t k)))
       (filter (\<lambda>k. cs k \<noteq> []) (filter (\<lambda>k. k \<in> set tk) sk))"
    by (simp_all only: r_def exact_diff_def Let_def data_compare_result.select_convs filter_map comp_def key [unfolded idx_def]
        sk_def tk_def find_s_def find_t_def idx_def cs_def)
  show "find (\<lambda>x. cr_key x = k) (res_added r) =
      (if k \<in> set sk \<and> k \<notin> set tk then Some (compare_row columns keys idx k (the (find_s k))) else None)"
    unfolding r by (subst find_keyed) (auto simp: key)
  show "find (\<lambda>m. cm_key m = k) (res_modified r) =
      (if k \<in> set sk \<and> k \<in> set tk \<and> cs k \<noteq> []
       then Some (modified_row columns keys idx k (the (find_s k)) (the (find_t k))) else None)"
    unfolding r by (subst find_keyed) (auto simp: key)
  show "k \<in> cr_key ` set (res_removed r) \<longleftrightarrow> k \<in> set tk \<and> k \<notin> set sk"
    unfolding r by (auto simp: key image_image)
  show "res_added r = [] \<longleftrightarrow> set sk \<subseteq> set tk" "res_removed r = [] \<longleftrightarrow> set tk \<subseteq> set sk"
    "res_modified r = [] \<longleftrightarrow> (\<forall>k\<in>set sk \<inter> set tk. cs k = [])"
    unfolding r by (auto simp: filter_empty_conv)
qed

lemma lookup_row_mem: "k \<in> set (row_keys ts columns keys rows) \<longleftrightarrow> (\<exists>row. lookup_row ts columns keys rows k = Some row)"
  using lookup_row_None [of ts columns keys rows k] by auto

lemma exact_diff_patches:
  assumes texts: "texts_ok ts (cells (rs @ rt))" and wf: "\<forall>v\<in>cells (rs @ rt). json_wf v"
  shows "same_table (table_view ts columns keys rs)
    (patch (exact_diff ts columns keys rs rt) (table_view ts columns keys rt))"
  unfolding same_table_def
proof
  fix k
  show "rel_option same_row (table_view ts columns keys rs k)
      (patch (exact_diff ts columns keys rs rt) (table_view ts columns keys rt) k)"
  proof (cases "k \<in> set (row_keys ts columns keys rs)")
    case True
    then obtain s where s: "lookup_row ts columns keys rs k = Some s" using lookup_row_mem by blast
    show ?thesis
    proof (cases "k \<in> set (row_keys ts columns keys rt)")
      case both: True
      then obtain t where t: "lookup_row ts columns keys rt k = Some t" using lookup_row_mem by blast
      show ?thesis
        using same_key_patched [OF texts wf s t] True both
        by (simp add: patch_def exact_diff_find table_view_lookup s t modified_row_def)
    next
      case False
      then have t: "lookup_row ts columns keys rt k = None" by (simp add: lookup_row_None)
      have "same_row (hm_get (row_object columns s)) (hm_get (row_object columns s))"
        using row_object_refl [OF wf] lookup_row_Some(1) [OF s] by simp
      then show ?thesis using True False by (simp add: patch_def exact_diff_find table_view_lookup s t compare_row_def)
    qed
  next
    case False
    then have s: "lookup_row ts columns keys rs k = None" by (simp add: lookup_row_None)
    show ?thesis
      using False lookup_row_None [of ts columns keys rt k]
      by (cases "k \<in> set (row_keys ts columns keys rt)") (auto simp: patch_def exact_diff_find table_view_lookup s)
  qed
qed

lemma exact_diff_empty:
  fixes columns keys :: "string list"
  assumes texts: "texts_ok ts (cells (rs @ rt))" and wf: "\<forall>v\<in>cells (rs @ rt). json_wf v"
  defines "r \<equiv> exact_diff ts columns keys rs rt"
  shows "res_added r = [] \<and> res_removed r = [] \<and> res_modified r = [] \<longleftrightarrow>
    same_table (table_view ts columns keys rs) (table_view ts columns keys rt)"
proof
  assume "res_added r = [] \<and> res_removed r = [] \<and> res_modified r = []"
  then have "patch r v = v" for v by (auto simp: patch_def fun_eq_iff)
  then show "same_table (table_view ts columns keys rs) (table_view ts columns keys rt)"
    using exact_diff_patches [OF texts wf, of columns keys] unfolding r_def by simp
next
  assume "same_table (table_view ts columns keys rs) (table_view ts columns keys rt)"
  then have same: "rel_option (\<lambda>s t. same_row (hm_get (row_object columns s)) (hm_get (row_object columns t)))
      (lookup_row ts columns keys rs k) (lookup_row ts columns keys rt k)" for k
    by (simp add: same_table_def table_view_lookup option.rel_map)
  then have "lookup_row ts columns keys rs k = None \<longleftrightarrow> lookup_row ts columns keys rt k = None" for k
    by (metis option.rel_distinct(1,2) not_Some_eq)
  then have "set (row_keys ts columns keys rs) = set (row_keys ts columns keys rt)"
    unfolding lookup_row_None by blast
  moreover have "changed_cells columns keys (column_index_map columns) (the (lookup_row ts columns keys rs k))
      (the (lookup_row ts columns keys rt k)) = []"
    if mem: "k \<in> set (row_keys ts columns keys rs)" "k \<in> set (row_keys ts columns keys rt)" for k
  proof -
    obtain s t where st: "lookup_row ts columns keys rs k = Some s" "lookup_row ts columns keys rt k = Some t"
      using lookup_row_mem mem by blast
    then show ?thesis using same_key_patched(2) [OF texts wf st] same [of k] by simp
  qed
  ultimately show "res_added r = [] \<and> res_removed r = [] \<and> res_modified r = []"
    by (simp add: r_def exact_diff_find)
qed

section \<open>Fetching the rows\<close>

definition build_rownum_data_compare_select_sql ::
    "database_type \<Rightarrow> string \<Rightarrow> string \<Rightarrow> string \<Rightarrow> string list \<Rightarrow> nat \<Rightarrow> nat \<Rightarrow> string" where
  "build_rownum_data_compare_select_sql d table select_columns order_by columns row_limit off =
     (let base = ''SELECT '' @ select_columns @ '' FROM '' @ table @ order_by in
      if off = 0 then ''SELECT '' @ select_columns @ '' FROM ('' @ base @ '') WHERE ROWNUM <= '' @ show_nat row_limit
      else
        (let row_number_alias = quote_table_identifier (Some d) ''__dbx_row_num'';
             end = off + row_limit;
             outer_columns = (if columns = [] then ''*''
               else join '', '' (map (quote_table_identifier (Some d)) columns))
         in ''SELECT '' @ outer_columns @ '' FROM (SELECT dbx_inner.*, ROWNUM AS '' @ row_number_alias @ '' FROM ('' @
            base @ '') dbx_inner WHERE ROWNUM <= '' @ show_nat end @ '') WHERE '' @ row_number_alias @ '' > '' @ show_nat off))"

definition build_data_compare_select_sql ::
    "(string \<Rightarrow> string option) \<Rightarrow> database_type \<Rightarrow> string \<Rightarrow> string \<Rightarrow> string list \<Rightarrow> string list \<Rightarrow> nat \<Rightarrow> nat \<Rightarrow> string"
  where
  "build_data_compare_select_sql decode d schema table_name columns key_columns row_limit off =
     (let table = qualified_table_name decode (Some d) (Some schema) table_name;
          select_columns = (if columns = [] then ''*'' else join '', '' (map (quote_table_identifier (Some d)) columns));
          keys_asc = join '', '' (map (\<lambda>c. quote_table_identifier (Some d) c @ '' ASC'') key_columns);
          order_by = (if key_columns = [] then [] else '' ORDER BY '' @ keys_asc);
          order_expression = (if key_columns = [] then ''(SELECT NULL)'' else keys_asc);
          base = ''SELECT '' @ select_columns @ '' FROM '' @ table @ order_by
      in case pagination_strategy (Some d) BoundedRead of
        Db2FetchFirst \<Rightarrow> base @ (if 0 < off then '' OFFSET '' @ show_nat off @ '' ROWS'' else []) @
          '' FETCH FIRST '' @ show_nat row_limit @ '' ROWS ONLY''
      | FetchFirst \<Rightarrow> base @ (if 0 < off then '' OFFSET '' @ show_nat off @ '' ROWS'' else []) @
          '' FETCH FIRST '' @ show_nat row_limit @ '' ROWS ONLY''
      | Rownum \<Rightarrow> build_rownum_data_compare_select_sql d table select_columns order_by columns row_limit off
      | SqlServerTop \<Rightarrow>
          if off = 0 then ''SELECT TOP ('' @ show_nat row_limit @ '') '' @ select_columns @ '' FROM '' @ table @ order_by
          else
            (let page_alias = quote_table_identifier (Some SqlServer) ''dbx_page'';
                 row_number_alias = quote_table_identifier (Some SqlServer) ''__dbx_row_num'';
                 end = off + row_limit
             in ''WITH '' @ page_alias @ '' AS (SELECT '' @ select_columns @ '', ROW_NUMBER() OVER (ORDER BY '' @
                order_expression @ '') AS '' @ row_number_alias @ '' FROM '' @ table @ '') SELECT '' @ select_columns @
                '' FROM '' @ page_alias @ '' WHERE '' @ row_number_alias @ '' > '' @ show_nat off @ '' AND '' @
                row_number_alias @ '' <= '' @ show_nat end @ '' ORDER BY '' @ row_number_alias)
      | IrisTop \<Rightarrow> ''SELECT TOP '' @ show_nat row_limit @ '' '' @ select_columns @ '' FROM '' @ table @ order_by
      | InformixFirst \<Rightarrow>
          ''SELECT '' @ (if 0 < off then ''SKIP '' @ show_nat off @ '' FIRST '' @ show_nat row_limit
            else ''FIRST '' @ show_nat row_limit) @ '' '' @ select_columns @ '' FROM '' @ table @ order_by
      | FirebirdRows \<Rightarrow> base @ '' '' @ firebird_rows_clause row_limit off
      | AgentMaxRows \<Rightarrow> base @ '';''
      | Unbounded \<Rightarrow> base
      | QuestDbLimit \<Rightarrow>
          if 0 < off then base @ '' LIMIT '' @ show_nat off @ '', '' @ show_nat (off + row_limit)
          else base @ '' LIMIT '' @ show_nat row_limit
      | LimitOffset \<Rightarrow> base @ '' LIMIT '' @ show_nat row_limit @
          (if 0 < off then '' OFFSET '' @ show_nat off else []) @ '';'')"

partial_function (option) fetch_pages ::
    "(string \<Rightarrow> nat \<Rightarrow> ('s, json_row list) io) \<Rightarrow> (nat \<Rightarrow> string) \<Rightarrow> nat \<Rightarrow> json_row list \<Rightarrow> nat \<Rightarrow> 's \<Rightarrow>
     (json_row list result \<times> 's) option" where
  "fetch_pages exec page_sql batch rows off s =
     (case exec (page_sql off) batch s of
        (Err e, t) \<Rightarrow> Some (Err e, t)
      | (Ok page, t) \<Rightarrow>
          if page = [] then Some (Ok rows, t)
          else if length page < batch then Some (Ok (rows @ page), t)
          else fetch_pages exec page_sql batch (rows @ page) (off + length page) t)"

definition fetch_compare_rows ::
    "(string \<Rightarrow> nat \<Rightarrow> ('s, json_row list) io) \<Rightarrow> (string \<Rightarrow> string option) \<Rightarrow> database_type \<Rightarrow> string \<Rightarrow> string \<Rightarrow>
     string list \<Rightarrow> string list \<Rightarrow> nat \<Rightarrow> 's \<Rightarrow> (json_row list result \<times> 's) option" where
  "fetch_compare_rows exec decode d schema table_name columns key_columns batch s =
     fetch_pages exec (\<lambda>off. build_data_compare_select_sql decode d schema table_name columns key_columns batch off)
       batch [] 0 s"

datatype degradation_level = Full | Sample | SkipWithRisk

record degradation_threshold =
  full_compare_max_rows :: nat
  sample_max_rows :: nat
  sample_size :: nat
  extreme_sample_count :: nat

definition degradation_threshold_default :: degradation_threshold where
  "degradation_threshold_default =
     \<lparr>full_compare_max_rows = 100000, sample_max_rows = 10000000, sample_size = 10000, extreme_sample_count = 500\<rparr>"

fun degradation_level_to_string :: "degradation_level \<Rightarrow> string" where
  "degradation_level_to_string Full = ''full''"
| "degradation_level_to_string Sample = ''sample''"
| "degradation_level_to_string SkipWithRisk = ''skip_with_risk''"

definition degradation_level_try_from :: "string \<Rightarrow> degradation_level result" where
  "degradation_level_try_from s =
     (if s = ''full'' then Ok Full else if s = ''sample'' then Ok Sample
      else if s = ''skip_with_risk'' then Ok SkipWithRisk else Err (''Unknown degradation level: '' @ s))"

definition should_degrade :: "nat \<Rightarrow> nat \<Rightarrow> degradation_threshold \<Rightarrow> degradation_level" where
  "should_degrade source_row_count target_row_count threshold =
     (let max_count = max source_row_count target_row_count in
      if max_count \<le> full_compare_max_rows threshold then Full
      else if max_count \<le> sample_max_rows threshold then Sample
      else SkipWithRisk)"

lemma degradation_level_round_trip: "degradation_level_try_from (degradation_level_to_string l) = Ok l"
  by (cases l) (simp_all add: degradation_level_try_from_def)

text \<open>A database answers the page queries of a table when the query for an offset returns the rows of
  the table from there on, as many as the limit allows.\<close>

definition answers_pages :: "(string \<Rightarrow> nat \<Rightarrow> ('s, json_row list) io) \<Rightarrow> (nat \<Rightarrow> string) \<Rightarrow> nat \<Rightarrow> json_row list \<Rightarrow> 's \<Rightarrow> bool" where
  "answers_pages exec page_sql batch table s \<longleftrightarrow>
     (\<forall>n. n * batch \<le> length table \<longrightarrow>
       exec (page_sql (n * batch)) batch s = (Ok (take batch (drop (n * batch) table)), s))"

lemma fetch_pages_all:
  assumes "0 < batch" "answers_pages exec page_sql batch table s" "n * batch \<le> length table"
  shows "fetch_pages exec page_sql batch (take (n * batch) table) (n * batch) s = Some (Ok table, s)"
  using assms(3)
proof (induction "length table - n * batch" arbitrary: n rule: less_induct)
  case less
  let ?page = "take batch (drop (n * batch) table)"
  have page: "exec (page_sql (n * batch)) batch s = (Ok ?page, s)"
    using assms(2) less.prems by (simp add: answers_pages_def)
  have rows: "take (n * batch) table @ ?page = take (Suc n * batch) table"
    using take_add [of "n * batch" batch table] by (simp add: add.commute)
  show ?case
  proof (cases "length ?page < batch")
    case True
    then have "length table < Suc n * batch" by auto
    then show ?thesis
      using True rows by (subst fetch_pages.simps) (auto simp: page)
  next
    case False
    then have more: "Suc n * batch \<le> length table" using less.prems by auto
    then have "fetch_pages exec page_sql batch (take (Suc n * batch) table) (Suc n * batch) s = Some (Ok table, s)"
      using assms(1) less.prems by (intro less.hyps) auto
    moreover have "n * batch + length ?page = Suc n * batch" using more by simp
    moreover have "?page \<noteq> []" using assms(1) more by auto
    ultimately show ?thesis
      using False by (subst fetch_pages.simps) (simp only: page rows prod.case sum.case if_False)
  qed
qed

lemma fetch_pages_stuck:
  assumes "0 < batch" "length page = batch" "\<And>off. exec (page_sql off) batch s = (Ok page, s)"
  shows "fetch_pages exec page_sql batch rows off s = None"
proof -
  have "\<not> (0 < batch \<and> length page = batch \<and> (\<forall>off. exec (page_sql off) batch s = (Ok page, s)))"
    if "fetch_pages exec page_sql batch rows off s = Some r" for r
    by (rule fetch_pages.raw_induct [where P = "\<lambda>exec page_sql batch rows off s r.
          \<not> (0 < batch \<and> length page = batch \<and> (\<forall>off. exec (page_sql off) batch s = (Ok page, s)))", OF _ that])
      (auto split: if_splits, metis length_0_conv)
  then show ?thesis using assms by (cases "fetch_pages exec page_sql batch rows off s") blast+
qed

section \<open>Properties\<close>

text \<open>C4: The result of a comparison is exact: applied to the target table it gives a table that agrees with
  the source, key by key and column by column, and it is empty exactly for tables that agree. Values
  are compared as the code compares them, objects without regard to the order of their keys. The
  comparison returns, without a panic, whenever the key columns tell the rows of each side apart.
  Columns may repeat, rows may be shorter or longer than the list of columns, and key columns need
  not exist.\<close>

theorem diff_patches_target:
  assumes "co_key_columns opts \<noteq> []"
    and "distinct (row_keys ts (co_columns opts) (co_key_columns opts) (co_source_rows opts))"
    and "distinct (row_keys ts (co_columns opts) (co_key_columns opts) (co_target_rows opts))"
    and "texts_ok ts (cells (co_source_rows opts @ co_target_rows opts))"
    and "\<forall>v\<in>cells (co_source_rows opts @ co_target_rows opts). json_wf v"
  shows "\<exists>r. compare_data_rows ts opts = Some (Ok r) \<and>
    same_table (table_view ts (co_columns opts) (co_key_columns opts) (co_source_rows opts))
      (patch r (table_view ts (co_columns opts) (co_key_columns opts) (co_target_rows opts))) \<and>
    (res_added r = [] \<and> res_removed r = [] \<and> res_modified r = [] \<longleftrightarrow>
      same_table (table_view ts (co_columns opts) (co_key_columns opts) (co_source_rows opts))
        (table_view ts (co_columns opts) (co_key_columns opts) (co_target_rows opts)))"
  using compare_result [OF assms(1-3)] exact_diff_patches [OF assms(4,5)] exact_diff_empty [OF assms(4,5)]
  by blast

text \<open>C36: A comparison is refused exactly when it has no key column or when the key columns do not tell
  the rows of one side apart.\<close>

theorem compare_refused_exactly:
  "(\<exists>e. compare_data_rows ts opts = Some (Err e)) \<longleftrightarrow>
   co_key_columns opts = [] \<or>
   \<not> distinct (row_keys ts (co_columns opts) (co_key_columns opts) (co_source_rows opts)) \<or>
   \<not> distinct (row_keys ts (co_columns opts) (co_key_columns opts) (co_target_rows opts))"
  (is "?err \<longleftrightarrow> ?keys \<or> ?src \<or> ?tgt")
proof
  assume err: ?err
  show "?keys \<or> ?src \<or> ?tgt"
  proof (rule ccontr)
    assume "\<not> (?keys \<or> ?src \<or> ?tgt)"
    then show False using compare_result [of opts ts] err by auto
  qed
next
  let ?collect = "\<lambda>label rows. collect_compare_rows ts (co_columns opts) (co_key_columns opts)
      (column_index_map (co_columns opts)) label rows [] []"
  have dup: "\<exists>e. ?collect label rows = Err e"
    if "\<not> distinct (row_keys ts (co_columns opts) (co_key_columns opts) rows)" for label rows
    using collect_rows_duplicate [of ts "co_columns opts" "co_key_columns opts" rows "[]" label "[]"] that by auto
  assume "?keys \<or> ?src \<or> ?tgt"
  then show ?err
    using dup [of "co_source_rows opts" "''source''"] dup [of "co_target_rows opts" "''target''"]
    by (auto simp: compare_data_rows_def Let_def split: sum.splits)
qed

text \<open>The shortcut for a target that does not exist gives the same result as a comparison with an empty
  target.\<close>

lemma missing_target_is_empty_target:
  assumes "keys \<noteq> []" "distinct (row_keys ts columns keys rows)"
  shows "compare_data_rows ts
      \<lparr>co_columns = columns, co_key_columns = keys, co_source_rows = rows, co_target_rows = []\<rparr> =
    Some (Ok (missing_target_diff ts columns keys rows))"
proof -
  have "lookup_row ts columns keys rows (key_for_row ts row keys (column_index_map columns)) = Some row"
    if "row \<in> set rows" for row
  proof -
    have "key_for_row ts row keys (column_index_map columns) \<in> set (row_keys ts columns keys rows)"
      using that by (simp add: row_keys_def)
    then obtain row' where
      found: "lookup_row ts columns keys rows (key_for_row ts row keys (column_index_map columns)) = Some row'"
      using lookup_row_mem by blast
    have "row' = row"
      using inj_onD [OF conjunct2 [OF assms(2) [unfolded row_keys_def distinct_map]]] lookup_row_Some [OF found] that
      by blast
    then show ?thesis using found by simp
  qed
  then have "map (\<lambda>k. compare_row columns keys (column_index_map columns) k (the (lookup_row ts columns keys rows k)))
      (row_keys ts columns keys rows) =
    map (\<lambda>row. compare_row columns keys (column_index_map columns) (key_for_row ts row keys (column_index_map columns)) row) rows"
    by (simp add: row_keys_def)
  moreover have "missing_target_diff ts columns keys rows = \<lparr>res_added =
      map (\<lambda>row. compare_row columns keys (column_index_map columns) (key_for_row ts row keys (column_index_map columns)) row) rows,
      res_removed = [], res_modified = []\<rparr>"
  proof -
    have "map (\<lambda>(i, row). f row) (List.enumerate n rows) = map f rows" for f :: "json_row \<Rightarrow> data_compare_row" and n
      by (induction rows arbitrary: n) simp_all
    then show ?thesis
      using assms(1) by (simp add: missing_target_diff_def Let_def row_object_owned_eq key_for_object key_values_object
          compare_row_def)
  qed
  ultimately show ?thesis
    using compare_result [of "\<lparr>co_columns = columns, co_key_columns = keys, co_source_rows = rows, co_target_rows = []\<rparr>" ts]
      assms by (simp add: exact_diff_def Let_def row_keys_def [of _ _ _ "[]"])
qed

text \<open>C22: Fetching a table page by page returns, with every row once and in order, on every database that
  answers the page queries, with any size of the pages but 0.\<close>

theorem fetch_returns_table:
  assumes "0 < batch"
    and "answers_pages exec (build_data_compare_select_sql decode d schema table_name columns keys batch) batch table s"
  shows "fetch_compare_rows exec decode d schema table_name columns keys batch s = Some (Ok table, s)"
  using fetch_pages_all [OF assms, of 0] by (simp add: fetch_compare_rows_def)

text \<open>On InterSystems IRIS and on JDBC connections the page query does not mention the offset: a table
  with at least one full batch of rows is fetched forever.\<close>

lemma fetch_never_returns:
  assumes "d = Iris \<or> d = Jdbc" "0 < batch"
    and "exec (build_data_compare_select_sql decode d schema table_name columns keys batch 0) batch s = (Ok page, s)"
    and "length page = batch"
  shows "fetch_compare_rows exec decode d schema table_name columns keys batch s = None"
proof -
  have same: "build_data_compare_select_sql decode d schema table_name columns keys batch off =
      build_data_compare_select_sql decode d schema table_name columns keys batch 0" for off
    using assms(1) by (auto simp: build_data_compare_select_sql_def pagination_strategy_def Let_def)
  show ?thesis
    unfolding fetch_compare_rows_def
  proof (rule fetch_pages_stuck [OF assms(2,4)])
    fix off
    show "exec (build_data_compare_select_sql decode d schema table_name columns keys batch off) batch s = (Ok page, s)"
      unfolding same [of off] by (rule assms(3))
  qed
qed

text \<open>A printer of the values in the example tables, and the tables.\<close>

fun sample_text :: "json \<Rightarrow> string result" where
  "sample_text JNull = Ok ''null''"
| "sample_text (JNumber n) = Ok n"
| "sample_text (JString s) = Ok ([CHR 34] @ s @ [CHR 34])"
| "sample_text v = Err ''unsupported''"

definition sample_compare :: compare_data_rows_options where
  "sample_compare = \<lparr>co_columns = [''id'', ''v''], co_key_columns = [''id''],
     co_source_rows = [[JNumber ''1'', JString ''a''], [JNumber ''2'', JString ''b'']],
     co_target_rows = [[JNumber ''2'', JString ''c''], [JNumber ''3'']]\<rparr>"

lemma sample_keys:
  "row_keys sample_text [''id'', ''v''] [''id''] [[JNumber ''1'', JString ''a''], [JNumber ''2'', JString ''b'']] = [''1'', ''2'']"
  "row_keys sample_text [''id'', ''v''] [''id''] [[JNumber ''2'', JString ''c''], [JNumber ''3'']] = [''2'', ''3'']"
  by (simp_all add: row_keys_def key_for_row_def column_index_map_def hm_collect_def json_stringify_def row_value_def)

theorem diff_patches_target_witness:
  "\<exists>r. compare_data_rows sample_text sample_compare = Some (Ok r) \<and>
    same_table (table_view sample_text [''id'', ''v''] [''id''] (co_source_rows sample_compare))
      (patch r (table_view sample_text [''id'', ''v''] [''id''] (co_target_rows sample_compare)))"
proof -
  have "texts_ok sample_text (cells (co_source_rows sample_compare @ co_target_rows sample_compare))"
    "\<forall>v\<in>cells (co_source_rows sample_compare @ co_target_rows sample_compare). json_wf v"
    by (auto simp: texts_ok_def cells_def sample_compare_def unit_separator_def inj_on_def)
  then show ?thesis
    using diff_patches_target [of sample_compare sample_text] sample_keys by (auto simp: sample_compare_def)
qed

text \<open>Objects that differ in the order of their keys are no change, although they are printed differently.\<close>

lemma key_order_is_no_change:
  "changed_cells [''id'', ''v''] [''id''] (column_index_map [''id'', ''v''])
     [JNumber ''1'', JObject [(''a'', JNull), (''b'', JNull)]] [JNumber ''1'', JObject [(''b'', JNull), (''a'', JNull)]] = []"
  by (simp add: changed_cells_def column_index_map_def hm_collect_def row_value_def List.map_filter_def)

theorem compare_refused_exactly_witness:
  "(\<exists>e. compare_data_rows sample_text
      (sample_compare\<lparr>co_target_rows := [[JNumber ''1''], [JNumber ''1'', JString ''a'']]\<rparr>) = Some (Err e)) \<and>
   (\<nexists>e. compare_data_rows sample_text sample_compare = Some (Err e))"
proof -
  have "row_keys sample_text [''id'', ''v''] [''id''] [[JNumber ''1''], [JNumber ''1'', JString ''a'']] = [''1'', ''1'']"
    by (simp add: row_keys_def key_for_row_def column_index_map_def hm_collect_def json_stringify_def row_value_def)
  then show ?thesis
    using compare_refused_exactly [of sample_text] sample_keys by (auto simp: sample_compare_def)
qed

text \<open>A database of three rows that serves pages of two.\<close>

definition sample_pages :: "json_row list" where
  "sample_pages = [[JNumber ''1''], [JNumber ''2''], [JNumber ''3'']]"

definition sample_exec :: "string \<Rightarrow> nat \<Rightarrow> (unit, json_row list) io" where
  "sample_exec sql n s =
     (Ok (if contains sql ''OFFSET'' then drop n sample_pages else take n sample_pages), s)"

theorem fetch_returns_table_witness:
  "fetch_compare_rows sample_exec Some Postgres ''s'' ''t'' [''id''] [''id''] 2 () = Some (Ok sample_pages, ())"
proof (rule fetch_returns_table)
  show "answers_pages sample_exec (build_data_compare_select_sql Some Postgres ''s'' ''t'' [''id''] [''id''] 2) 2
      sample_pages ()"
    unfolding answers_pages_def
  proof (intro allI impI)
    fix n :: nat
    assume "n * 2 \<le> length sample_pages"
    then have "n = 0 \<or> n = 1" by (auto simp: sample_pages_def)
    then show "sample_exec (build_data_compare_select_sql Some Postgres ''s'' ''t'' [''id''] [''id''] 2 (n * 2)) 2 () =
        (Ok (take 2 (drop (n * 2) sample_pages)), ())"
      by (auto simp: sample_exec_def sample_pages_def build_data_compare_select_sql_def pagination_strategy_def
          qualified_table_name_def quote_table_identifier_def is_schema_aware_def backtick_databases_def
          replace_char_def show_nat.simps trim_def trim_start_def is_whitespace_def code_def Let_def)
  qed
qed simp

end
