(* ===== verification/Text_Export.thy ===== *)
theory Text_Export
  imports Json
begin

text \<open>
  The export of query results as CSV, TSV and Markdown (\<open>csv_export.rs\<close>, \<open>text_export.rs\<close>).

  The printer of JSON values (\<open>impl Display for serde_json::Value\<close>) is the argument \<open>display\<close>: the
  pieces it writes, in order. A cell is written into the end of a buffer, as in the code. The
  reading side, \<open>read_table\<close>, is the format of RFC 4180 with a choice of separator; it tells a
  quoted cell from one that is not quoted.
\<close>

section \<open>Comma and tab separated values\<close>

abbreviation quote_char :: char where
  "quote_char \<equiv> CHR 34"

abbreviation newline :: char where
  "newline \<equiv> CHR 10"

function push_csv_escaped_content :: "string \<Rightarrow> string \<Rightarrow> string" where
  "push_csv_escaped_content out rest =
     (case dropWhile (\<lambda>c. c \<noteq> quote_char) rest of
        [] \<Rightarrow> out @ rest
      | _ # rest' \<Rightarrow>
          push_csv_escaped_content (out @ takeWhile (\<lambda>c. c \<noteq> quote_char) rest @ [quote_char] @ [quote_char]) rest')"
  by pat_completeness auto
termination
  by (relation "measure (length \<circ> snd)") (auto, metis Suc_le_lessD length_Cons length_dropWhile_le)

declare push_csv_escaped_content.simps [simp del]

definition push_csv_escaped :: "string \<Rightarrow> string \<Rightarrow> string" where
  "push_csv_escaped out v = push_csv_escaped_content (out @ [quote_char]) v @ [quote_char]"

definition csv_escaped_writer :: "string \<Rightarrow> string list \<Rightarrow> string" where
  "csv_escaped_writer out pieces = fold (\<lambda>piece out. push_csv_escaped_content out piece) pieces out"

fun push_csv_text_value :: "(json \<Rightarrow> string list) \<Rightarrow> string \<Rightarrow> json \<Rightarrow> string" where
  "push_csv_text_value display out JNull = out @ [quote_char] @ [quote_char]"
| "push_csv_text_value display out (JString s) = push_csv_escaped_content (out @ [quote_char]) s @ [quote_char]"
| "push_csv_text_value display out (JBool b) =
     out @ [quote_char] @ (if b then ''true'' else ''false'') @ [quote_char]"
| "push_csv_text_value display out (JNumber n) = out @ [quote_char] @ n @ [quote_char]"
| "push_csv_text_value display out v = csv_escaped_writer (out @ [quote_char]) (display v) @ [quote_char]"

definition push_csv_value :: "(json \<Rightarrow> string list) \<Rightarrow> string \<Rightarrow> json \<Rightarrow> string" where
  "push_csv_value display out v = (if v = JNull then out else push_csv_text_value display out v)"

definition push_tsv_escaped :: "string \<Rightarrow> string \<Rightarrow> string" where
  "push_tsv_escaped out v =
     (if CHR 9 \<in> set v \<or> newline \<in> set v \<or> CHR 13 \<in> set v \<or> quote_char \<in> set v then push_csv_escaped out v
      else out @ v)"

fun push_tsv_value :: "(json \<Rightarrow> string list) \<Rightarrow> string \<Rightarrow> json \<Rightarrow> string" where
  "push_tsv_value display out JNull = out"
| "push_tsv_value display out (JString s) = push_tsv_escaped out s"
| "push_tsv_value display out (JBool b) = out @ (if b then ''true'' else ''false'')"
| "push_tsv_value display out (JNumber n) = out @ n"
| "push_tsv_value display out v = push_tsv_escaped out (concat (display v))"

definition push_tsv_row :: "(json \<Rightarrow> string list) \<Rightarrow> string \<Rightarrow> json list \<Rightarrow> string" where
  "push_tsv_row display out row =
     fold (\<lambda>(i, cell) out. push_tsv_value display (if 0 < i then out @ [CHR 9] else out) cell) (List.enumerate 0 row) out"

definition ROWS_CAPACITY_ESTIMATE_MAX :: nat where
  "ROWS_CAPACITY_ESTIMATE_MAX = 16 * 1024 * 1024"

definition usize_max :: nat where
  "usize_max = 2 ^ 64 - 1"

definition saturating_add :: "nat \<Rightarrow> nat \<Rightarrow> nat" where
  "saturating_add a b = min (a + b) usize_max"

definition saturating_mul :: "nat \<Rightarrow> nat \<Rightarrow> nat" where
  "saturating_mul a b = min (a * b) usize_max"

definition estimated_rows_capacity :: "json list list \<Rightarrow> nat" where
  "estimated_rows_capacity rows =
     min (saturating_mul (fold (\<lambda>n acc. saturating_add acc n) (map length rows) 0) 12) ROWS_CAPACITY_ESTIMATE_MAX"

definition escape_csv :: "string \<Rightarrow> string" where
  "escape_csv v = push_csv_escaped [] v"

definition format_csv_value :: "(json \<Rightarrow> string list) \<Rightarrow> json \<Rightarrow> string" where
  "format_csv_value display v = push_csv_value display [] v"

definition escape_tsv :: "string \<Rightarrow> string" where
  "escape_tsv v = push_tsv_escaped [] v"

definition push_tsv_rows :: "(json \<Rightarrow> string list) \<Rightarrow> string \<Rightarrow> json list list \<Rightarrow> string" where
  "push_tsv_rows display out rows =
     fold (\<lambda>(i, row) out. push_tsv_row display (if 0 < i then out @ [newline] else out) row) (List.enumerate 0 rows) out"

definition format_tsv_rows :: "(json \<Rightarrow> string list) \<Rightarrow> json list list \<Rightarrow> string" where
  "format_tsv_rows display rows = push_tsv_rows display [] rows"

definition format_tsv :: "(json \<Rightarrow> string list) \<Rightarrow> string list \<Rightarrow> json list list \<Rightarrow> string" where
  "format_tsv display columns rows =
     (let out = fold (\<lambda>(i, c) out. push_tsv_escaped (if 0 < i then out @ [CHR 9] else out) c) (List.enumerate 0 columns) []
      in push_tsv_rows display (out @ [newline]) rows)"

definition push_query_result_csv_row :: "(json \<Rightarrow> string list) \<Rightarrow> string \<Rightarrow> json list \<Rightarrow> string" where
  "push_query_result_csv_row display out row =
     fold (\<lambda>(i, cell) out. push_csv_value display (if 0 < i then out @ '','' else out) cell) (List.enumerate 0 row) out"

definition push_table_csv_row :: "(json \<Rightarrow> string list) \<Rightarrow> string \<Rightarrow> json list \<Rightarrow> string" where
  "push_table_csv_row display out row =
     fold (\<lambda>(i, cell) out. push_csv_text_value display (if 0 < i then out @ '','' else out) cell) (List.enumerate 0 row) out"

definition push_query_result_csv_rows :: "(json \<Rightarrow> string list) \<Rightarrow> string \<Rightarrow> json list list \<Rightarrow> string" where
  "push_query_result_csv_rows display out rows =
     fold (\<lambda>(i, row) out. push_query_result_csv_row display (if 0 < i then out @ [newline] else out) row)
       (List.enumerate 0 rows) out"

definition format_query_result_csv_rows :: "(json \<Rightarrow> string list) \<Rightarrow> json list list \<Rightarrow> string" where
  "format_query_result_csv_rows display rows = push_query_result_csv_rows display [] rows"

definition format_csv :: "(json \<Rightarrow> string list) \<Rightarrow> string list \<Rightarrow> json list list \<Rightarrow> string" where
  "format_csv display columns rows =
     (let out = fold (\<lambda>(i, c) out. push_csv_escaped (if 0 < i then out @ '','' else out) c) (List.enumerate 0 columns) []
      in push_query_result_csv_rows display (out @ [newline]) rows)"

text \<open>The streaming export (\<open>query_result_export.rs\<close>) writes a header and then batches of rows; a write
  is the text appended to the file.\<close>

definition strip_newline :: "string \<Rightarrow> string" where
  "strip_newline s = (if s \<noteq> [] \<and> last s = newline then butlast s else s)"

definition format_text_export_header :: "(json \<Rightarrow> string list) \<Rightarrow> string \<Rightarrow> string list \<Rightarrow> string" where
  "format_text_export_header display format columns =
     strip_newline (if format = ''csv'' then format_csv display columns [] else format_tsv display columns [])"

definition write_text_export_rows :: "(json \<Rightarrow> string list) \<Rightarrow> string \<Rightarrow> string \<Rightarrow> json list list \<Rightarrow> string" where
  "write_text_export_rows display file format rows =
     file @ fold (\<lambda>row buffer.
       if format = ''csv'' then push_query_result_csv_row display (buffer @ [newline]) row
       else push_tsv_row display (buffer @ [newline]) row) rows []"

section \<open>Markdown and JSON rows\<close>

fun display_cell :: "(json \<Rightarrow> string list) \<Rightarrow> json \<Rightarrow> string" where
  "display_cell display JNull = ''NULL''"
| "display_cell display (JBool b) = (if b then ''true'' else ''false'')"
| "display_cell display (JNumber n) = n"
| "display_cell display (JString s) = s"
| "display_cell display v = concat (display v)"

definition markdown_cell :: "string \<Rightarrow> string" where
  "markdown_cell v =
     replace_char (str_replace (replace_char v (CHR ''|'') [CHR 92, CHR ''|'']) [CHR 13, CHR 10] ''<br>'') newline ''<br>''"

definition pad :: "string \<Rightarrow> nat \<Rightarrow> string" where
  "pad v width = (if width \<le> length v then v else v @ replicate (width - length v) (CHR '' ''))"

definition markdown_widths :: "string list \<Rightarrow> string list list \<Rightarrow> nat list" where
  "markdown_widths columns rows =
     map (\<lambda>(i, column).
       let row_width = fold max (map (\<lambda>row. if i < length row then length (row ! i) else 0) rows) 0
       in max (max (length column) row_width) 3) (List.enumerate 0 columns)"

definition format_markdown :: "(json \<Rightarrow> string list) \<Rightarrow> string list \<Rightarrow> json list list \<Rightarrow> string" where
  "format_markdown display columns rows =
     (let cols = map markdown_cell columns;
          body_rows = map (map (\<lambda>cell. markdown_cell (display_cell display cell))) rows;
          widths = markdown_widths cols body_rows;
          header = ''| '' @ join '' | '' (map (\<lambda>(i, c). pad c (widths ! i)) (List.enumerate 0 cols)) @ '' |'';
          separator = ''| '' @ join '' | '' (map (\<lambda>w. replicate w (CHR ''-'')) widths) @ '' |'';
          body = join [newline] (map (\<lambda>row. ''| '' @
              join '' | '' (map (\<lambda>(i, c). pad c (if i < length widths then widths ! i else 3)) (List.enumerate 0 row)) @
              '' |'') body_rows)
      in join [newline] (filter (\<lambda>part. part \<noteq> []) [header, separator, body]) @ [newline])"

definition json_rows :: "string list \<Rightarrow> json list list \<Rightarrow> json list" where
  "json_rows columns rows =
     map (\<lambda>row. JObject (fold (\<lambda>(i, c) m. if i < length row then hm_insert c (row ! i) m else m)
       (List.enumerate 0 columns) [])) rows"

section \<open>The reading side\<close>

type_synonym text_cell = "bool \<times> string"

definition read_cell :: "char \<Rightarrow> string \<Rightarrow> (text_cell \<times> string) option" where
  "read_cell sep s =
     (if s \<noteq> [] \<and> hd s = quote_char then map_option (apfst (Pair True)) (read_delimited quote_char (tl s))
      else Some ((False, takeWhile (\<lambda>c. c \<noteq> sep \<and> c \<noteq> newline) s), dropWhile (\<lambda>c. c \<noteq> sep \<and> c \<noteq> newline) s))"

lemma read_cell_length: "read_cell sep s = Some (cell, rest) \<Longrightarrow> length rest \<le> length s"
  by (cases s) (auto simp: read_cell_def length_dropWhile_le split: if_splits dest!: read_delimited_shorter
      intro: le_SucI order_trans [OF length_dropWhile_le])

text \<open>\<open>read_rows\<close> reads the rest of a row and all rows after it; the first argument holds the cells of
  the current row in reverse.\<close>

function read_rows :: "char \<Rightarrow> text_cell list \<Rightarrow> string \<Rightarrow> text_cell list list option" where
  "read_rows sep row s =
     (case read_cell sep s of None \<Rightarrow> None
      | Some (cell, []) \<Rightarrow> Some [rev (cell # row)]
      | Some (cell, c # rest) \<Rightarrow>
          if c = sep then read_rows sep (cell # row) rest
          else if c = newline then map_option (Cons (rev (cell # row))) (read_rows sep [] rest)
          else None)"
  by pat_completeness auto
termination
  by (relation "measure (\<lambda>(sep, row, s). length s)") (auto dest!: read_cell_length)

declare read_rows.simps [simp del]

definition read_table :: "char \<Rightarrow> string \<Rightarrow> text_cell list list option" where
  "read_table sep s = read_rows sep [] s"

text \<open>What a format promises: a cell reads back as itself wherever a separator, a line end or the end
  of the text follows.\<close>

definition readable :: "char \<Rightarrow> string \<Rightarrow> text_cell \<Rightarrow> bool" where
  "readable sep t cell \<longleftrightarrow>
     (\<forall>rest. rest = [] \<or> hd rest = sep \<or> hd rest = newline \<longrightarrow> read_cell sep (t @ rest) = Some (cell, rest))"

locale cell_format =
  fixes sep :: char
    and cell_text :: "'v \<Rightarrow> string"
    and cell_of :: "'v \<Rightarrow> text_cell"
    and writable :: "'v \<Rightarrow> bool"
  assumes separator: "sep \<noteq> newline"
    and reads: "writable v \<Longrightarrow> readable sep (cell_text v) (cell_of v)"
begin

lemma read_row:
  assumes "row \<noteq> []" "list_all writable row" "rest = [] \<or> hd rest = newline"
  shows "read_rows sep acc (join [sep] (map cell_text row) @ rest) =
    (let cells = rev acc @ map cell_of row in
     case rest of [] \<Rightarrow> Some [cells] | _ # r \<Rightarrow> map_option (Cons cells) (read_rows sep [] r))"
  using assms(1,2)
proof (induction row arbitrary: acc)
  case (Cons v row)
  show ?case
  proof (cases "row = []")
    case True
    have "read_cell sep (cell_text v @ rest) = Some (cell_of v, rest)"
      using reads [of v] Cons.prems(2) assms(3) by (auto simp: readable_def)
    then show ?thesis
      using True assms(3) separator by (subst read_rows.simps) (auto split: list.splits)
  next
    case False
    then have line: "join [sep] (map cell_text (v # row)) @ rest = cell_text v @ sep # join [sep] (map cell_text row) @ rest"
      by (simp add: join_Cons)
    have "read_cell sep (cell_text v @ sep # join [sep] (map cell_text row) @ rest) =
        Some (cell_of v, sep # join [sep] (map cell_text row) @ rest)"
      using reads [of v] Cons.prems(2) by (auto simp: readable_def)
    then show ?thesis
      unfolding line using Cons.IH [OF False, of "cell_of v # acc"] Cons.prems(2)
      by (subst read_rows.simps) (simp add: Let_def)
  qed
qed simp

lemma read_written_table:
  assumes "rows \<noteq> []" "\<forall>row\<in>set rows. row \<noteq> [] \<and> list_all writable row"
  shows "read_rows sep [] (join [newline] (map (\<lambda>row. join [sep] (map cell_text row)) rows)) = Some (map (map cell_of) rows)"
  using assms
proof (induction rows)
  case (Cons row rows)
  show ?case
  proof (cases "rows = []")
    case True
    then show ?thesis using read_row [of row "[]" "[]"] Cons.prems(2) by simp
  next
    case False
    then show ?thesis
      using read_row [of row "newline # join [newline] (map (\<lambda>row. join [sep] (map cell_text row)) rows)" "[]"]
        Cons.IH [OF False] Cons.prems(2) by (simp add: join_Cons)
  qed
qed simp

end

section \<open>Cells of the two formats\<close>

lemma replace_char_append [simp]: "replace_char (s @ t) p r = replace_char s p r @ replace_char t p r"
  by (simp add: replace_char_def)

lemma replace_char_absent: "p \<notin> set s \<Longrightarrow> replace_char s p r = s"
  by (induction s) auto

lemma push_content_eq: "push_csv_escaped_content out v = out @ replace_char v quote_char [quote_char, quote_char]"
proof (induction out v rule: push_csv_escaped_content.induct)
  case (1 out rest)
  let ?pre = "takeWhile (\<lambda>c. c \<noteq> quote_char) rest"
  have pre: "replace_char ?pre quote_char [quote_char, quote_char] = ?pre"
    by (rule replace_char_absent) (auto dest: set_takeWhileD)
  show ?case
  proof (cases "dropWhile (\<lambda>c. c \<noteq> quote_char) rest")
    case Nil
    then have "replace_char rest quote_char [quote_char, quote_char] = rest"
      by (intro replace_char_absent) (auto simp: dropWhile_eq_Nil_conv)
    moreover have "push_csv_escaped_content out rest = out @ rest"
      by (subst push_csv_escaped_content.simps) (simp only: Nil list.case)
    ultimately show ?thesis by simp
  next
    case (Cons q rest')
    then have q: "q = quote_char" using hd_dropWhile [of "\<lambda>c. c \<noteq> quote_char" rest] by auto
    have "rest = ?pre @ quote_char # rest'" using Cons q takeWhile_dropWhile_id [of "\<lambda>c. c \<noteq> quote_char" rest] by simp
    then have "replace_char rest quote_char [quote_char, quote_char] =
        ?pre @ [quote_char, quote_char] @ replace_char rest' quote_char [quote_char, quote_char]"
      using pre replace_char_append [of ?pre "quote_char # rest'" quote_char "[quote_char, quote_char]"]
      by (simp only: replace_char_simps if_True simp_thms)
    moreover have "push_csv_escaped_content out rest =
        push_csv_escaped_content (out @ ?pre @ [quote_char] @ [quote_char]) rest'"
      by (subst push_csv_escaped_content.simps) (simp only: Cons list.case)
    ultimately show ?thesis using 1 [OF Cons] by simp
  qed
qed

lemma writer_eq: "csv_escaped_writer out pieces = push_csv_escaped_content out (concat pieces)"
  unfolding csv_escaped_writer_def by (induction pieces arbitrary: out) (simp_all add: push_content_eq)

definition cell_text :: "(json \<Rightarrow> string list) \<Rightarrow> json \<Rightarrow> string" where
  "cell_text display v = (if v = JNull then [] else display_cell display v)"

definition quoted :: "string \<Rightarrow> string" where
  "quoted t = quote_char # replace_char t quote_char [quote_char, quote_char] @ [quote_char]"

definition csv_writable :: "json \<Rightarrow> bool" where
  "csv_writable v = (case v of JNumber n \<Rightarrow> quote_char \<notin> set n | _ \<Rightarrow> True)"

definition tsv_special :: "string \<Rightarrow> bool" where
  "tsv_special t \<longleftrightarrow> CHR 9 \<in> set t \<or> newline \<in> set t \<or> CHR 13 \<in> set t \<or> quote_char \<in> set t"

definition tsv_writable :: "json \<Rightarrow> bool" where
  "tsv_writable v = (case v of JNumber n \<Rightarrow> \<not> tsv_special n | _ \<Rightarrow> True)"

lemma push_csv_value_eq:
  assumes "csv_writable v"
  shows "push_csv_value display out v = out @ (if v = JNull then [] else quoted (cell_text display v))"
  using assms
  by (cases v) (auto simp: push_csv_value_def push_content_eq writer_eq cell_text_def quoted_def csv_writable_def
      replace_char_absent)

lemma push_tsv_escaped_eq: "push_tsv_escaped out t = out @ (if tsv_special t then quoted t else t)"
  unfolding push_tsv_escaped_def tsv_special_def [symmetric]
  by (simp add: push_csv_escaped_def push_content_eq quoted_def)

lemma tsv_plain_words: "\<not> tsv_special ''true''" "\<not> tsv_special ''false''" "\<not> tsv_special []"
  by (simp_all add: tsv_special_def)

lemma push_tsv_value_eq:
  assumes "tsv_writable v"
  shows "push_tsv_value display out v =
    out @ (if tsv_special (cell_text display v) then quoted (cell_text display v) else cell_text display v)"
  using assms
  by (cases v) (simp_all add: push_tsv_escaped_eq cell_text_def tsv_writable_def tsv_plain_words)

lemma quoted_readable:
  assumes "sep \<noteq> quote_char"
  shows "readable sep (quoted t) (True, t)"
  using assms read_delimited_replace [of _ quote_char t] by (auto simp: readable_def quoted_def read_cell_def)

lemma plain_readable:
  assumes "sep \<notin> set t" "newline \<notin> set t" "quote_char \<notin> set t" "sep \<noteq> quote_char"
  shows "readable sep t (False, t)"
  unfolding readable_def
proof (intro allI impI)
  fix rest
  assume rest: "rest = [] \<or> hd rest = sep \<or> hd rest = newline"
  let ?P = "\<lambda>c. c \<noteq> sep \<and> c \<noteq> newline"
  have stop: "takeWhile ?P rest = []" "dropWhile ?P rest = rest"
    using rest by (simp_all add: takeWhile_eq_Nil_iff dropWhile_eq_self_iff)
  have all: "?P c" if "c \<in> set t" for c using that assms(1,2) by blast
  have "takeWhile ?P (t @ rest) = t" "dropWhile ?P (t @ rest) = rest"
    using takeWhile_append2 [of t ?P rest, OF all] dropWhile_append2 [of t ?P rest, OF all] stop by simp_all
  moreover have "\<not> (t @ rest \<noteq> [] \<and> hd (t @ rest) = quote_char)"
    using rest assms(3,4) by (cases t) auto
  ultimately show "read_cell sep (t @ rest) = Some ((False, t), rest)"
    unfolding read_cell_def by (simp only: if_False)
qed

interpretation csv: cell_format "CHR '',''" "push_csv_value display []"
  "\<lambda>v. (v \<noteq> JNull, cell_text display v)" csv_writable for display
  by unfold_locales
    (auto simp: push_csv_value_eq cell_text_def intro: quoted_readable plain_readable)

interpretation tsv: cell_format "CHR 9" "push_tsv_value display []"
  "\<lambda>v. (tsv_special (cell_text display v), cell_text display v)" tsv_writable for display
  by unfold_locales
    (auto simp: push_tsv_value_eq tsv_special_def intro!: quoted_readable plain_readable)

section \<open>Rows and files\<close>

lemma push_csv_value_append: "push_csv_value display out v = out @ push_csv_value display [] v"
  by (cases v) (simp_all add: push_csv_value_def push_content_eq writer_eq)

lemma push_tsv_value_append: "push_tsv_value display out v = out @ push_tsv_value display [] v"
  by (cases v) (simp_all add: push_tsv_escaped_eq)

lemma csv_row_eq: "push_query_result_csv_row display out row = out @ join '','' (map (push_csv_value display []) row)"
  unfolding push_query_result_csv_row_def by (rule fold_separated) (rule push_csv_value_append)

lemma tsv_row_eq: "push_tsv_row display out row = out @ join [CHR 9] (map (push_tsv_value display []) row)"
  unfolding push_tsv_row_def by (rule fold_separated) (rule push_tsv_value_append)

lemma csv_rows_eq:
  "push_query_result_csv_rows display out rows =
     out @ join [newline] (map (\<lambda>row. join '','' (map (push_csv_value display []) row)) rows)"
  unfolding push_query_result_csv_rows_def by (rule fold_separated) (rule csv_row_eq)

lemma tsv_rows_eq:
  "push_tsv_rows display out rows =
     out @ join [newline] (map (\<lambda>row. join [CHR 9] (map (push_tsv_value display []) row)) rows)"
  unfolding push_tsv_rows_def by (rule fold_separated) (rule tsv_row_eq)

lemma csv_header_eq:
  "fold (\<lambda>(i, c) out. push_csv_escaped (if 0 < i then out @ '','' else out) c) (List.enumerate 0 columns) [] =
     join '','' (map (push_csv_value display []) (map JString columns))"
proof -
  have "push_csv_escaped out c = out @ push_csv_value display [] (JString c)" for out c
    by (simp add: push_csv_escaped_def push_csv_value_def push_content_eq)
  then show ?thesis using fold_separated [of push_csv_escaped "\<lambda>c. push_csv_value display [] (JString c)" "'',''" columns "[]"]
    by (simp add: comp_def)
qed

lemma tsv_header_eq:
  "fold (\<lambda>(i, c) out. push_tsv_escaped (if 0 < i then out @ [CHR 9] else out) c) (List.enumerate 0 columns) [] =
     join [CHR 9] (map (push_tsv_value display []) (map JString columns))"
  using fold_separated [of push_tsv_escaped "\<lambda>c. push_tsv_value display [] (JString c)" "[CHR 9]" columns "[]"]
  by (simp add: push_tsv_escaped_eq comp_def)

lemma format_csv_eq:
  "rows \<noteq> [] \<Longrightarrow> format_csv display columns rows =
     join [newline] (map (\<lambda>row. join '','' (map (push_csv_value display []) row)) (map JString columns # rows))"
  by (simp add: format_csv_def Let_def csv_header_eq [of _ display] csv_rows_eq join_Cons)

lemma format_tsv_eq:
  "rows \<noteq> [] \<Longrightarrow> format_tsv display columns rows =
     join [newline] (map (\<lambda>row. join [CHR 9] (map (push_tsv_value display []) row)) (map JString columns # rows))"
  by (simp add: format_tsv_def Let_def tsv_header_eq [of _ display] tsv_rows_eq join_Cons)

lemma estimated_rows_capacity_bound: "estimated_rows_capacity rows \<le> 16 * 1024 * 1024"
  by (simp add: estimated_rows_capacity_def ROWS_CAPACITY_ESTIMATE_MAX_def)

lemma single_null_row_lost: "format_csv display [c] [[JNull]] = format_csv display [c] []"
  by (simp add: format_csv_def Let_def csv_rows_eq push_csv_value_def)

text \<open>A Markdown table has a header, a separator and one line per row: no cell breaks a line.\<close>

lemma set_join: "set (join sep xs) \<subseteq> set sep \<union> \<Union> (set ` set xs)"
  by (cases xs) (auto simp: join_concat)

lemma markdown_cell_no_newline: "newline \<notin> set (markdown_cell v)"
  by (auto simp: markdown_cell_def replace_char_def split: if_splits)

lemma pad_newline [simp]: "newline \<in> set (pad v w) \<longleftrightarrow> newline \<in> set v"
  by (auto simp: pad_def)

lemma joined_no_newline:
  assumes "newline \<notin> set sep" "\<And>x. x \<in> set xs \<Longrightarrow> newline \<notin> set x"
  shows "newline \<notin> set (join sep xs)"
  using set_join [of sep xs] assms by blast

lemma markdown_one_line_per_row:
  "\<exists>header separator lines. split_char newline (format_markdown display columns rows) = header # separator # lines @ [[]] \<and>
     length lines = length rows"
proof -
  define cols body_rows where "cols = map markdown_cell columns"
    and "body_rows = map (map (\<lambda>cell. markdown_cell (display_cell display cell))) rows"
  define widths where "widths = markdown_widths cols body_rows"
  define header where "header = ''| '' @ join '' | '' (map (\<lambda>(i, c). pad c (widths ! i)) (List.enumerate 0 cols)) @ '' |''"
  define separator where "separator = ''| '' @ join '' | '' (map (\<lambda>w. replicate w (CHR ''-'')) widths) @ '' |''"
  define lines where "lines = map (\<lambda>row. ''| '' @
      join '' | '' (map (\<lambda>(i, c). pad c (if i < length widths then widths ! i else 3)) (List.enumerate 0 row)) @ '' |'') body_rows"
  have cols: "newline \<notin> set c" if "c \<in> set cols" for c using that markdown_cell_no_newline by (auto simp: cols_def)
  have "newline \<notin> set (join '' | '' (map (\<lambda>(i, c). pad c (widths ! i)) (List.enumerate 0 cols)))"
    by (rule joined_no_newline) (auto simp: in_set_enumerate_eq cols)
  then have "newline \<notin> set header" by (simp add: header_def)
  moreover have "newline \<notin> set (join '' | '' (map (\<lambda>w. replicate w (CHR ''-'')) widths))"
    by (rule joined_no_newline) auto
  then have "newline \<notin> set separator" by (simp add: separator_def)
  moreover have body: "newline \<notin> set c" if "c \<in> set row" "row \<in> set body_rows" for c row
    using that markdown_cell_no_newline by (auto simp: body_rows_def)
  have "newline \<notin> set (join '' | '' (map (\<lambda>(i, c). pad c (if i < length widths then widths ! i else 3)) (List.enumerate 0 row)))"
    if "row \<in> set body_rows" for row
    using that by (intro joined_no_newline) (auto simp: in_set_enumerate_eq dest: body [OF nth_mem])
  then have "newline \<notin> set l" if "l \<in> set lines" for l
    using that by (auto simp: lines_def)
  ultimately have "split_char newline (join [newline] (header # separator # lines @ [[]])) = header # separator # lines @ [[]]"
    by (intro split_char_join) auto
  moreover have "format_markdown display columns rows = join [newline] (header # separator # lines @ [[]])"
  proof -
    have "format_markdown display columns rows =
        join [newline] (filter (\<lambda>part. part \<noteq> []) [header, separator, join [newline] lines]) @ [newline]"
      by (simp only: format_markdown_def Let_def header_def separator_def lines_def widths_def cols_def body_rows_def)
    moreover have "header \<noteq> []" "separator \<noteq> []" by (simp_all add: header_def separator_def)
    moreover have "join [newline] lines \<noteq> []" if "lines \<noteq> []"
      using that by (auto simp: lines_def join_concat neq_Nil_conv)
    ultimately show ?thesis by (cases lines) (simp_all add: join_concat)
  qed
  moreover have "length lines = length rows" by (simp add: lines_def body_rows_def)
  ultimately show ?thesis by metis
qed

section \<open>Properties\<close>

text \<open>C17: A CSV export reads back as the exported table: the column names, and in every row each value's
  text, whatever quotes, separators and line breaks it contains, with NULL (an empty cell that is
  not quoted) told apart from the empty string. A number must print without a quote; there are columns, and at
  least one row.\<close>

theorem csv_round_trip:
  assumes "columns \<noteq> []" "rows \<noteq> []" "\<forall>row\<in>set rows. row \<noteq> [] \<and> list_all csv_writable row"
  shows "read_table (CHR '','') (format_csv display columns rows) =
    Some (map (\<lambda>c. (True, c)) columns # map (map (\<lambda>v. (v \<noteq> JNull, cell_text display v))) rows)"
proof -
  have "\<forall>row\<in>set (map JString columns # rows). row \<noteq> [] \<and> list_all csv_writable row"
    using assms(1,3) by (auto simp: list_all_iff csv_writable_def)
  from csv.read_written_table [OF _ this, of display] show ?thesis
    by (simp add: read_table_def format_csv_eq [OF assms(2)] cell_text_def comp_def)
qed

text \<open>A TSV export reads back as the text of every cell; a cell is quoted only where its text needs it,
  so NULL and the empty string coincide.\<close>

lemma tsv_round_trip:
  assumes "columns \<noteq> []" "rows \<noteq> []" "\<forall>row\<in>set rows. row \<noteq> [] \<and> list_all tsv_writable row"
  shows "map_option (map (map snd)) (read_table (CHR 9) (format_tsv display columns rows)) =
    Some (columns # map (map (cell_text display)) rows)"
proof -
  have "\<forall>row\<in>set (map JString columns # rows). row \<noteq> [] \<and> list_all tsv_writable row"
    using assms(1,3) by (auto simp: list_all_iff tsv_writable_def)
  from tsv.read_written_table [OF _ this, of display] show ?thesis
    by (simp add: read_table_def format_tsv_eq [OF assms(2)] cell_text_def comp_def)
qed

text \<open>C37: Streaming a result in batches writes the same file as formatting it at once, in both formats and
  for every way to cut at least one row into batches.\<close>

theorem streamed_export_equals_formatted:
  assumes "concat batches \<noteq> []"
  shows "fold (\<lambda>rows file. write_text_export_rows display file format rows) batches
      (format_text_export_header display format columns) =
    (if format = ''csv'' then format_csv display columns (concat batches) else format_tsv display columns (concat batches))"
proof -
  let ?line = "\<lambda>row. if format = ''csv'' then join '','' (map (push_csv_value display []) row)
      else join [CHR 9] (map (push_tsv_value display []) row)"
  have row: "write_text_export_rows display out format rows = out @ concat (map (\<lambda>row. [newline] @ ?line row) rows)" for out rows
  proof -
    have "fold (\<lambda>row buffer. if format = ''csv'' then push_query_result_csv_row display (buffer @ [newline]) row
        else push_tsv_row display (buffer @ [newline]) row) rows buffer =
      buffer @ concat (map (\<lambda>row. [newline] @ ?line row) rows)" for buffer
      by (induction rows arbitrary: buffer) (simp_all add: csv_row_eq tsv_row_eq)
    then show ?thesis by (simp add: write_text_export_rows_def)
  qed
  have "fold (\<lambda>rows out. write_text_export_rows display out format rows) batches out =
      out @ concat (map (\<lambda>row. [newline] @ ?line row) (concat batches))" for out
    by (induction batches arbitrary: out) (simp_all add: row)
  moreover have "format_text_export_header display format columns = ?line (map JString columns)"
    by (simp add: format_text_export_header_def format_csv_def format_tsv_def Let_def csv_rows_eq tsv_rows_eq
        csv_header_eq [of _ display] tsv_header_eq [of _ display] strip_newline_def)
  ultimately show ?thesis
    by (simp add: format_csv_eq [OF assms] format_tsv_eq [OF assms] join_concat comp_def)
qed

theorem csv_round_trip_witness:
  "read_table (CHR '','') (format_csv (\<lambda>v. []) [''a'', ''b''] [[JNull, JString (CHR 34 # '','' @ [newline])], [JString [], JBool True]]) =
   Some [[(True, ''a''), (True, ''b'')], [(False, []), (True, CHR 34 # '','' @ [newline])], [(True, []), (True, ''true'')]]"
  using csv_round_trip [of "[''a'', ''b'']" "[[JNull, JString (CHR 34 # '','' @ [newline])], [JString [], JBool True]]" "\<lambda>v. []"]
  by (simp add: csv_writable_def cell_text_def)

theorem streamed_export_equals_formatted_witness:
  "fold (\<lambda>rows file. write_text_export_rows (\<lambda>v. []) file ''tsv'' rows) [[[JString ''x'']], [], [[JNull], [JBool False]]]
      (format_text_export_header (\<lambda>v. []) ''tsv'' [''a'']) =
   format_tsv (\<lambda>v. []) [''a''] [[JString ''x''], [JNull], [JBool False]]"
  using streamed_export_equals_formatted [of "[[[JString ''x'']], [], [[JNull], [JBool False]]]" "\<lambda>v. []" "''tsv''" "[''a'']"]
  by simp

end
