(* ===== verification/Task_Supervisor.thy ===== *)
theory Task_Supervisor
  imports Rust_Prelude
begin

text \<open>
  The supervisor of background tasks (\<open>task_supervisor.rs\<close>) as a transition system.

  A spawned task is an index into the list of statuses; its join handle is that index. The map of
  handles is behind a mutex: \<open>lock\<close> holds the spawn that is inside its critical section, between
  its read of \<open>accepting\<close> and its insertion. \<open>shutdown\<close> stores the flag without the mutex, so its
  first two steps interleave with a critical section; the removal of all handles needs the mutex.
  Aborting a task is modelled as taking effect at once; the runtime stops an aborted task where it next
  waits, so that \<open>Aborted\<close> stands for a task that does no more than reach that point. A one-shot task whose body has ended only has
  the removal of its key left, without a point to wait at, so it goes on even when aborted.

  The runtime (\<open>tokio\<close>) runs tasks in any order: every interleaving of the steps is a run. The
  deadline of \<open>shutdown\<close> may pass at any moment.
\<close>

section \<open>State\<close>

text \<open>\<open>Blocked\<close> is a one-shot task before its start signal, \<open>RunningOnce\<close> one in its body and
  \<open>Cleaning\<close> one before the removal of its key.\<close>

datatype task_status =
  Running | Blocked string | RunningOnce string | Cleaning string | Finished | Aborted

datatype pending_spawn = PendingReplace string | PendingOnce string

datatype shutdown_progress = NotStarted | FlagStored | TokenCancelled | Awaiting "nat list" "nat list" | ShutDown "nat list"

record task_supervisor =
  accepting :: bool
  cancelled :: bool
  tasks :: "(string, nat) hash_map"
  lock :: "pending_spawn option"
  statuses :: "task_status list"
  progress :: shutdown_progress

definition new_supervisor :: task_supervisor where
  "new_supervisor = \<lparr>accepting = True, cancelled = False, tasks = [], lock = None, statuses = [], progress = NotStarted\<rparr>"

section \<open>Operations\<close>

fun aborted :: "task_status \<Rightarrow> task_status" where
  "aborted Running = Aborted"
| "aborted (Blocked k) = Aborted"
| "aborted (RunningOnce k) = Aborted"
| "aborted st = st"

definition abort :: "nat \<Rightarrow> task_supervisor \<Rightarrow> task_supervisor" where
  "abort h s = (if h < length (statuses s) then s\<lparr>statuses := (statuses s)[h := aborted (statuses s ! h)]\<rparr> else s)"

text \<open>A spawn takes the mutex and reads \<open>accepting\<close>; it returns false, without a change, unless it may go on.\<close>

definition spawn_replace_enter :: "string \<Rightarrow> task_supervisor \<Rightarrow> bool \<times> task_supervisor" where
  "spawn_replace_enter key s =
     (if \<not> accepting s then (False, s) else (True, s\<lparr>lock := Some (PendingReplace key)\<rparr>))"

definition spawn_replace_insert :: "string \<Rightarrow> task_supervisor \<Rightarrow> task_supervisor" where
  "spawn_replace_insert key s =
     (let h = length (statuses s);
          s1 = s\<lparr>statuses := statuses s @ [Running], tasks := hm_insert key h (tasks s), lock := None\<rparr>
      in case hm_get (tasks s) key of Some previous \<Rightarrow> abort previous s1 | None \<Rightarrow> s1)"

definition spawn_once_enter :: "string \<Rightarrow> task_supervisor \<Rightarrow> bool \<times> task_supervisor" where
  "spawn_once_enter key s =
     (if \<not> accepting s \<or> hm_get (tasks s) key \<noteq> None then (False, s)
      else (True, s\<lparr>lock := Some (PendingOnce key)\<rparr>))"

definition spawn_once_insert :: "string \<Rightarrow> task_supervisor \<Rightarrow> task_supervisor" where
  "spawn_once_insert key s =
     s\<lparr>statuses := statuses s @ [Blocked key], tasks := hm_insert key (length (statuses s)) (tasks s), lock := None\<rparr>"

definition stop_task :: "string \<Rightarrow> task_supervisor \<Rightarrow> task_supervisor" where
  "stop_task key s =
     (case hm_get (tasks s) key of
        None \<Rightarrow> s
      | Some h \<Rightarrow> abort h (s\<lparr>tasks := hm_remove key (tasks s)\<rparr>))"

definition stop_many :: "string list \<Rightarrow> task_supervisor \<Rightarrow> task_supervisor" where
  "stop_many keys s = fold stop_task keys s"

definition active_count :: "task_supervisor \<Rightarrow> nat" where
  "active_count s = length (tasks s)"

definition remove_completed :: "string \<Rightarrow> task_supervisor \<Rightarrow> task_supervisor" where
  "remove_completed key s = s\<lparr>tasks := hm_remove key (tasks s)\<rparr>"

definition shutdown_store :: "task_supervisor \<Rightarrow> task_supervisor" where
  "shutdown_store s = s\<lparr>accepting := False, progress := FlagStored\<rparr>"

definition shutdown_cancel :: "task_supervisor \<Rightarrow> task_supervisor" where
  "shutdown_cancel s = s\<lparr>cancelled := True, progress := TokenCancelled\<rparr>"

definition shutdown_drain :: "task_supervisor \<Rightarrow> task_supervisor" where
  "shutdown_drain s = (let hs = map snd (tasks s) in s\<lparr>tasks := [], progress := Awaiting hs hs\<rparr>)"

definition shutdown_deadline :: "nat list \<Rightarrow> task_supervisor \<Rightarrow> task_supervisor" where
  "shutdown_deadline handles s = fold abort handles (s\<lparr>progress := ShutDown handles\<rparr>)"

definition set_status :: "nat \<Rightarrow> task_status \<Rightarrow> task_supervisor \<Rightarrow> task_supervisor" where
  "set_status h st s = s\<lparr>statuses := (statuses s)[h := st]\<rparr>"

definition terminated :: "task_supervisor \<Rightarrow> nat \<Rightarrow> bool" where
  "terminated s h \<longleftrightarrow> h < length (statuses s) \<and> (statuses s ! h = Finished \<or> statuses s ! h = Aborted)"

section \<open>Transitions\<close>

text \<open>The steps of shutdown.\<close>

inductive shutdown_step :: "task_supervisor \<Rightarrow> task_supervisor \<Rightarrow> bool" where
  store: "progress s = NotStarted \<Longrightarrow> shutdown_step s (shutdown_store s)"
| cancel: "progress s = FlagStored \<Longrightarrow> shutdown_step s (shutdown_cancel s)"
| drain: "progress s = TokenCancelled \<Longrightarrow> lock s = None \<Longrightarrow> shutdown_step s (shutdown_drain s)"
| awaited: "progress s = Awaiting hs (h # rest) \<Longrightarrow> terminated s h \<Longrightarrow>
    shutdown_step s (s\<lparr>progress := Awaiting hs rest\<rparr>)"
| all_awaited: "progress s = Awaiting hs [] \<Longrightarrow> shutdown_step s (s\<lparr>progress := ShutDown hs\<rparr>)"
| deadline: "progress s = Awaiting hs rest \<Longrightarrow> shutdown_step s (shutdown_deadline hs s)"

text \<open>The end of a critical section.\<close>

inductive holder_step :: "task_supervisor \<Rightarrow> task_supervisor \<Rightarrow> bool" where
  replace_insert: "lock s = Some (PendingReplace key) \<Longrightarrow> holder_step s (spawn_replace_insert key s)"
| once_insert: "lock s = Some (PendingOnce key) \<Longrightarrow> holder_step s (spawn_once_insert key s)"

inductive supervisor_step :: "task_supervisor \<Rightarrow> task_supervisor \<Rightarrow> bool" where
  replace_enter: "lock s = None \<Longrightarrow> supervisor_step s (snd (spawn_replace_enter key s))"
| once_enter: "lock s = None \<Longrightarrow> supervisor_step s (snd (spawn_once_enter key s))"
| holder: "holder_step s t \<Longrightarrow> supervisor_step s t"
| start: "h < length (statuses s) \<Longrightarrow> statuses s ! h = Blocked key \<Longrightarrow>
    supervisor_step s (set_status h (RunningOnce key) s)"
| finish: "h < length (statuses s) \<Longrightarrow> statuses s ! h = Running \<Longrightarrow> supervisor_step s (set_status h Finished s)"
| finish_once: "h < length (statuses s) \<Longrightarrow> statuses s ! h = RunningOnce key \<Longrightarrow>
    supervisor_step s (set_status h (Cleaning key) s)"
| clean: "h < length (statuses s) \<Longrightarrow> statuses s ! h = Cleaning key \<Longrightarrow> lock s = None \<Longrightarrow>
    supervisor_step s (set_status h Finished (remove_completed key s))"
| stop: "lock s = None \<Longrightarrow> supervisor_step s (stop_task key s)"
| shutdown: "shutdown_step s t \<Longrightarrow> supervisor_step s t"

abbreviation reachable :: "task_supervisor \<Rightarrow> bool" where
  "reachable s \<equiv> supervisor_step\<^sup>*\<^sup>* new_supervisor s"

inductive_cases shutdown_stepE: "shutdown_step s t"
inductive_cases holder_stepE: "holder_step s t"
inductive_cases supervisor_stepE: "supervisor_step s t"

section \<open>Invariant\<close>

definition stopped :: "task_status \<Rightarrow> bool" where
  "stopped st \<longleftrightarrow> (case st of Finished \<Rightarrow> True | Aborted \<Rightarrow> True | Cleaning k \<Rightarrow> True | _ \<Rightarrow> False)"

text \<open>Statuses only move forward: a task that has stopped stays stopped, one that has ended stays ended.\<close>

definition status_order :: "task_status list \<Rightarrow> task_status list \<Rightarrow> bool" where
  "status_order xs ys \<longleftrightarrow> length xs \<le> length ys \<and>
     (\<forall>h<length xs. (stopped (xs ! h) \<longrightarrow> stopped (ys ! h)) \<and>
        (xs ! h = Finished \<or> xs ! h = Aborted \<longrightarrow> ys ! h = xs ! h))"

fun drained_ok :: "task_supervisor \<Rightarrow> shutdown_progress \<Rightarrow> bool" where
  "drained_ok s NotStarted = True"
| "drained_ok s FlagStored = (\<not> accepting s)"
| "drained_ok s TokenCancelled = (\<not> accepting s)"
| "drained_ok s (Awaiting hs rest) =
     (\<not> accepting s \<and> lock s = None \<and> tasks s = [] \<and> set hs \<subseteq> {..<length (statuses s)} \<and>
      (\<forall>h\<in>set hs - set rest. terminated s h))"
| "drained_ok s (ShutDown hs) =
     (\<not> accepting s \<and> lock s = None \<and> tasks s = [] \<and>
      (\<forall>h\<in>set hs. h < length (statuses s) \<and> stopped (statuses s ! h)))"

definition supervisor_ok :: "task_supervisor \<Rightarrow> bool" where
  "supervisor_ok s \<longleftrightarrow> drained_ok s (progress s) \<and> snd ` set (tasks s) \<subseteq> {..<length (statuses s)}"

lemma status_order_refl [simp]: "status_order xs xs"
  by (simp add: status_order_def)

lemma status_order_append [simp]: "status_order xs (xs @ ys)"
  by (auto simp: status_order_def nth_append)

lemma status_order_trans: "status_order xs ys \<Longrightarrow> status_order ys zs \<Longrightarrow> status_order xs zs"
  by (fastforce simp: status_order_def)

lemma status_order_update:
  "h < length xs \<Longrightarrow> (stopped (xs ! h) \<Longrightarrow> stopped st) \<Longrightarrow> xs ! h \<noteq> Finished \<and> xs ! h \<noteq> Aborted \<or> st = xs ! h \<Longrightarrow>
   status_order xs (xs[h := st])"
  by (auto simp: status_order_def nth_list_update)

lemma aborted_facts [simp]: "stopped (aborted st)" "aborted Finished = Finished" "aborted Aborted = Aborted"
  by (cases st; simp add: stopped_def)+

lemma abort_fields [simp]:
  "accepting (abort h s) = accepting s" "cancelled (abort h s) = cancelled s" "tasks (abort h s) = tasks s"
  "lock (abort h s) = lock s" "progress (abort h s) = progress s" "length (statuses (abort h s)) = length (statuses s)"
  by (simp_all add: abort_def)

lemma abort_order: "status_order (statuses s) (statuses (abort h s))"
  by (auto simp: abort_def intro!: status_order_update)

lemma abort_stopped: "h < length (statuses s) \<Longrightarrow> stopped (statuses (abort h s) ! h)"
  by (simp add: abort_def)

lemma abort_all_fields [simp]:
  "accepting (fold abort hs s) = accepting s" "tasks (fold abort hs s) = tasks s" "lock (fold abort hs s) = lock s"
  "progress (fold abort hs s) = progress s" "length (statuses (fold abort hs s)) = length (statuses s)"
  by (induction hs arbitrary: s) simp_all

lemma abort_all_order: "status_order (statuses s) (statuses (fold abort hs s))"
  by (induction hs arbitrary: s) (auto intro: status_order_trans [OF abort_order])

lemma abort_all_stopped:
  "h \<in> set hs \<Longrightarrow> h < length (statuses s) \<Longrightarrow> stopped (statuses (fold abort hs s) ! h)"
proof (induction hs arbitrary: s)
  case (Cons a hs)
  show ?case
  proof (cases "h = a")
    case True
    then have "stopped (statuses (abort a s) ! h)" using Cons.prems abort_stopped by blast
    then show ?thesis using abort_all_order [of "abort a s" hs] Cons.prems by (simp add: status_order_def)
  next
    case False
    then show ?thesis using Cons by simp
  qed
qed simp

text \<open>Steps of tasks, stops and completions keep what shutdown has established.\<close>

lemma terminated_mono: "terminated s h \<Longrightarrow> status_order (statuses s) (statuses t) \<Longrightarrow> terminated t h"
  by (auto simp: status_order_def terminated_def)

lemma stopped_mono:
  "h < length (statuses s) \<and> stopped (statuses s ! h) \<Longrightarrow> status_order (statuses s) (statuses t) \<Longrightarrow>
   h < length (statuses t) \<and> stopped (statuses t ! h)"
  by (auto simp: status_order_def)

lemma status_order_length: "status_order xs ys \<Longrightarrow> length xs \<le> length ys"
  by (simp add: status_order_def)

lemma drained_ok_mono:
  assumes "drained_ok s (progress s)" "status_order (statuses s) (statuses t)"
    and "accepting t = accepting s" "lock t = lock s" "set (tasks t) \<subseteq> set (tasks s)" "progress t = progress s"
  shows "drained_ok t (progress t)"
proof (cases "progress s")
  case (Awaiting hs rest)
  then have "terminated t h" if "h \<in> set hs - set rest" for h
    using assms(1) that terminated_mono [OF _ assms(2)] by simp
  moreover have "set hs \<subseteq> {..<length (statuses t)}"
    using Awaiting assms(1) status_order_length [OF assms(2)] by auto
  ultimately show ?thesis using Awaiting assms by simp
next
  case (ShutDown hs)
  then have "h < length (statuses t) \<and> stopped (statuses t ! h)" if "h \<in> set hs" for h
    using assms(1) that stopped_mono [OF _ assms(2)] by simp
  then show ?thesis using ShutDown assms by simp
qed (use assms in simp_all)

lemma supervisor_ok_mono:
  assumes "supervisor_ok s" "status_order (statuses s) (statuses t)"
    and "accepting t = accepting s" "lock t = lock s" "set (tasks t) \<subseteq> set (tasks s)" "progress t = progress s"
  shows "supervisor_ok t"
proof -
  have "snd ` set (tasks t) \<subseteq> {..<length (statuses t)}"
    using assms(1,5) status_order_length [OF assms(2)] by (force simp: supervisor_ok_def)
  moreover have "drained_ok t (progress t)"
    using assms(1) drained_ok_mono [OF _ assms(2-6)] by (simp add: supervisor_ok_def)
  ultimately show ?thesis by (simp add: supervisor_ok_def)
qed

lemma hm_remove_subset: "set (hm_remove k m) \<subseteq> set m"
  by (auto simp: AList.delete_eq)

lemma stop_task_ok: "supervisor_ok s \<Longrightarrow> supervisor_ok (stop_task key s)"
  by (erule supervisor_ok_mono)
    (auto simp: stop_task_def AList.delete_eq split: option.splits
      intro: status_order_trans [OF _ abort_order])

lemma set_status_ok:
  assumes "supervisor_ok s" "h < length (statuses s)" "stopped (statuses s ! h) \<Longrightarrow> stopped st"
    "statuses s ! h \<noteq> Finished" "statuses s ! h \<noteq> Aborted"
  shows "supervisor_ok (set_status h st s)"
  using assms by (intro supervisor_ok_mono [OF assms(1)]) (auto simp: set_status_def intro: status_order_update)

lemma remove_completed_ok: "supervisor_ok s \<Longrightarrow> supervisor_ok (remove_completed key s)"
  by (erule supervisor_ok_mono) (auto simp: remove_completed_def AList.delete_eq)

lemma hm_insert_values: "snd ` set (hm_insert k v m) \<subseteq> insert v (snd ` set m)"
  by (induction m) auto

lemma insert_task_ok:
  assumes "supervisor_ok s" "lock s = Some p"
  shows "supervisor_ok (s\<lparr>statuses := statuses s @ [st],
      tasks := hm_insert key (length (statuses s)) (tasks s), lock := None\<rparr>)"
proof -
  have "progress s \<in> {NotStarted, FlagStored, TokenCancelled}"
    using assms by (cases "progress s") (auto simp: supervisor_ok_def)
  then show ?thesis
    using assms hm_insert_values [of key "length (statuses s)" "tasks s"]
    by (fastforce simp: supervisor_ok_def)
qed

lemma abort_ok: "supervisor_ok s \<Longrightarrow> supervisor_ok (abort h s)"
  by (erule supervisor_ok_mono) (simp_all add: abort_order)

lemma holder_step_ok:
  assumes "holder_step s t" "supervisor_ok s"
  shows "supervisor_ok t"
  using assms(1)
proof cases
  case (replace_insert key)
  then show ?thesis
    using insert_task_ok [OF assms(2) replace_insert(2)]
    by (auto simp: spawn_replace_insert_def Let_def intro!: abort_ok split: option.splits)
next
  case (once_insert key)
  then show ?thesis using insert_task_ok [OF assms(2) once_insert(2)] by (simp add: spawn_once_insert_def)
qed

lemma shutdown_step_ok:
  assumes "shutdown_step s t" "supervisor_ok s"
  shows "supervisor_ok t"
  using assms(1)
proof cases
  case store
  then show ?thesis using assms(2) by (simp add: supervisor_ok_def shutdown_store_def)
next
  case cancel
  then show ?thesis using assms(2) by (simp add: supervisor_ok_def shutdown_cancel_def)
next
  case drain
  then show ?thesis using assms(2) by (auto simp: supervisor_ok_def shutdown_drain_def Let_def)
next
  case (awaited hs h rest)
  then show ?thesis using assms(2) by (auto simp: supervisor_ok_def terminated_def)
next
  case (all_awaited hs)
  then show ?thesis using assms(2) by (auto simp: supervisor_ok_def terminated_def stopped_def)
next
  case (deadline hs rest)
  then show ?thesis
    using assms(2) by (auto simp: supervisor_ok_def shutdown_deadline_def intro!: abort_all_stopped)
qed

lemma supervisor_step_ok:
  assumes "supervisor_step s t" "supervisor_ok s"
  shows "supervisor_ok t"
  using assms(1)
proof cases
  case (replace_enter key)
  then show ?thesis
    using assms(2) by (cases "progress s") (auto simp: supervisor_ok_def spawn_replace_enter_def)
next
  case (once_enter key)
  then show ?thesis
    using assms(2) by (cases "progress s") (auto simp: supervisor_ok_def spawn_once_enter_def)
next
  case (clean h key)
  then show ?thesis
    using remove_completed_ok [OF assms(2), of key] by (auto simp: remove_completed_def stopped_def intro!: set_status_ok)
qed (use assms(2) in \<open>auto simp: stopped_def intro: holder_step_ok shutdown_step_ok set_status_ok stop_task_ok\<close>)

lemma reachable_ok: "reachable s \<Longrightarrow> supervisor_ok s"
proof (induction rule: rtranclp_induct)
  case base
  show ?case by (simp add: new_supervisor_def supervisor_ok_def)
next
  case (step y z)
  then show ?case using supervisor_step_ok by blast
qed

section \<open>Shutdown makes progress\<close>

definition closing_step :: "task_supervisor \<Rightarrow> task_supervisor \<Rightarrow> bool" where
  "closing_step s t \<longleftrightarrow> shutdown_step s t \<or> holder_step s t"

definition remaining :: "task_supervisor \<Rightarrow> nat" where
  "remaining s = (let pending = (if lock s = None then 0 else 1) in
     case progress s of
       NotStarted \<Rightarrow> length (tasks s) + 2 * pending + 5
     | FlagStored \<Rightarrow> length (tasks s) + 2 * pending + 4
     | TokenCancelled \<Rightarrow> length (tasks s) + 2 * pending + 3
     | Awaiting hs rest \<Rightarrow> length rest + pending + 1
     | ShutDown hs \<Rightarrow> pending)"

lemma hm_insert_length: "length (hm_insert k v m) \<le> Suc (length m)"
  by (induction m) auto

lemma closing_step_decreases: "closing_step s t \<Longrightarrow> remaining t < remaining s"
  unfolding closing_step_def
proof (elim disjE)
  assume "shutdown_step s t"
  then show "remaining t < remaining s"
    by cases (auto simp: remaining_def shutdown_store_def shutdown_cancel_def shutdown_drain_def shutdown_deadline_def Let_def)
next
  assume "holder_step s t"
  then show "remaining t < remaining s"
    using hm_insert_length [of _ "length (statuses s)" "tasks s"]
    by cases (auto simp: remaining_def spawn_replace_insert_def spawn_once_insert_def Let_def le_imp_less_Suc
        split: option.splits shutdown_progress.splits)
qed

lemma closing_step_enabled:
  assumes "\<nexists>hs. progress s = ShutDown hs"
  shows "\<exists>t. closing_step s t"
proof (cases "lock s")
  case None
  then show ?thesis
    using assms by (cases "progress s") (auto simp: closing_step_def intro: shutdown_step.intros)
next
  case (Some p)
  then show ?thesis by (cases p) (auto simp: closing_step_def intro: holder_step.intros)
qed

lemma closing_run_reaches: "\<exists>t hs. closing_step\<^sup>*\<^sup>* s t \<and> progress t = ShutDown hs"
proof (induction "remaining s" arbitrary: s rule: less_induct)
  case less
  show ?case
  proof (cases "\<exists>hs. progress s = ShutDown hs")
    case False
    then obtain u where u: "closing_step s u" using closing_step_enabled by blast
    then show ?thesis
      using less [OF closing_step_decreases [OF u]] by (meson converse_rtranclp_into_rtranclp)
  qed blast
qed

section \<open>Properties\<close>

text \<open>C7: After shutdown nothing is left behind, in every interleaving: once shutdown has returned, no task
  is registered, every later spawn is refused without a change, and every task that was registered
  when shutdown took the handles has stopped, or was aborted and has at most the way to its next
  waiting point left. A spawn that read the flag before shutdown stored it
  still registers its task in time.\<close>

theorem shutdown_is_final:
  assumes "reachable s" "progress s = ShutDown hs"
  shows "active_count s = 0 \<and> spawn_replace_enter key s = (False, s) \<and> spawn_once_enter key s = (False, s) \<and>
    (\<forall>h\<in>set hs. stopped (statuses s ! h))"
  using reachable_ok [OF assms(1)] assms(2)
  by (simp add: supervisor_ok_def active_count_def spawn_replace_enter_def spawn_once_enter_def)

text \<open>C23: Shutdown returns: its steps and the end of a critical section cannot go on forever, one of them is
  enabled until shutdown has returned, and so it is reached from every state, whatever the tasks do.\<close>

theorem shutdown_returns:
  "(\<exists>t hs. closing_step\<^sup>*\<^sup>* s t \<and> progress t = ShutDown hs) \<and>
   (\<nexists>run. run 0 = s \<and> (\<forall>i. closing_step (run i) (run (Suc i)))) \<and>
   ((\<nexists>t. closing_step s t) \<longrightarrow> (\<exists>hs. progress s = ShutDown hs))"
proof (intro conjI)
  show "\<exists>t hs. closing_step\<^sup>*\<^sup>* s t \<and> progress t = ShutDown hs" by (rule closing_run_reaches)
  show "(\<nexists>t. closing_step s t) \<longrightarrow> (\<exists>hs. progress s = ShutDown hs)" using closing_step_enabled by blast
  show "\<nexists>run. run 0 = s \<and> (\<forall>i. closing_step (run i) (run (Suc i)))"
  proof
    assume "\<exists>run. run 0 = s \<and> (\<forall>i. closing_step (run i) (run (Suc i)))"
    then obtain run where "\<And>i. closing_step (run i) (run (Suc i))" by blast
    then have "\<forall>i. (remaining (run (Suc i)), remaining (run i)) \<in> less_than"
      using closing_step_decreases by simp
    then have "\<exists>f. \<forall>i. (f (Suc i), f i) \<in> less_than" by (intro exI [of _ "\<lambda>i. remaining (run i)"])
    then show False using wf_less_than unfolding wf_iff_no_infinite_down_chain by blast
  qed
qed

text \<open>A one-shot task removes whatever handle is registered under its key. When a task is stopped while
  it cleans up and its key is used again, the new task loses its handle: shutdown returns without
  waiting for it or aborting it, and it still runs.\<close>

lemma stale_cleanup_loses_task:
  "\<exists>s. reachable s \<and> progress s = ShutDown [] \<and> statuses s = [Finished, RunningOnce ''job'']"
proof -
  let ?s = "\<lambda>acc can tks lk sts pr. \<lparr>accepting = acc, cancelled = can, tasks = tks, lock = lk, statuses = sts, progress = pr\<rparr>"
  note ops = spawn_once_enter_def spawn_once_insert_def set_status_def stop_task_def abort_def remove_completed_def
    shutdown_store_def shutdown_cancel_def shutdown_drain_def
  have "reachable (?s True False [] None [] NotStarted)" by (simp add: new_supervisor_def)
  also have "supervisor_step (?s True False [] None [] NotStarted) (?s True False [] (Some (PendingOnce ''job'')) [] NotStarted)"
    using once_enter [of "(?s True False [] None [] NotStarted)" "''job''"] by (simp add: ops)
  also have "supervisor_step (?s True False [] (Some (PendingOnce ''job'')) [] NotStarted) (?s True False [(''job'', 0)] None [Blocked ''job''] NotStarted)"
    using holder [OF once_insert [of "(?s True False [] (Some (PendingOnce ''job'')) [] NotStarted)" "''job''"]] by (simp add: ops)
  also have "supervisor_step (?s True False [(''job'', 0)] None [Blocked ''job''] NotStarted) (?s True False [(''job'', 0)] None [RunningOnce ''job''] NotStarted)"
    using start [of 0 "(?s True False [(''job'', 0)] None [Blocked ''job''] NotStarted)" "''job''"] by (simp add: ops)
  also have "supervisor_step (?s True False [(''job'', 0)] None [RunningOnce ''job''] NotStarted) (?s True False [(''job'', 0)] None [Cleaning ''job''] NotStarted)"
    using finish_once [of 0 "(?s True False [(''job'', 0)] None [RunningOnce ''job''] NotStarted)" "''job''"] by (simp add: ops)
  also have "supervisor_step (?s True False [(''job'', 0)] None [Cleaning ''job''] NotStarted) (?s True False [] None [Cleaning ''job''] NotStarted)"
    using stop [of "(?s True False [(''job'', 0)] None [Cleaning ''job''] NotStarted)" "''job''"] by (simp add: ops)
  also have "supervisor_step (?s True False [] None [Cleaning ''job''] NotStarted) (?s True False [] (Some (PendingOnce ''job'')) [Cleaning ''job''] NotStarted)"
    using once_enter [of "(?s True False [] None [Cleaning ''job''] NotStarted)" "''job''"] by (simp add: ops)
  also have "supervisor_step (?s True False [] (Some (PendingOnce ''job'')) [Cleaning ''job''] NotStarted) (?s True False [(''job'', 1)] None [Cleaning ''job'', Blocked ''job''] NotStarted)"
    using holder [OF once_insert [of "(?s True False [] (Some (PendingOnce ''job'')) [Cleaning ''job''] NotStarted)" "''job''"]] by (simp add: ops)
  also have "supervisor_step (?s True False [(''job'', 1)] None [Cleaning ''job'', Blocked ''job''] NotStarted) (?s True False [(''job'', 1)] None [Cleaning ''job'', RunningOnce ''job''] NotStarted)"
    using start [of 1 "(?s True False [(''job'', 1)] None [Cleaning ''job'', Blocked ''job''] NotStarted)" "''job''"] by (simp add: ops)
  also have "supervisor_step (?s True False [(''job'', 1)] None [Cleaning ''job'', RunningOnce ''job''] NotStarted) (?s True False [] None [Finished, RunningOnce ''job''] NotStarted)"
    using clean [of 0 "(?s True False [(''job'', 1)] None [Cleaning ''job'', RunningOnce ''job''] NotStarted)" "''job''"] by (simp add: ops)
  also have "supervisor_step (?s True False [] None [Finished, RunningOnce ''job''] NotStarted) (?s False False [] None [Finished, RunningOnce ''job''] FlagStored)"
    using shutdown [OF store [of "(?s True False [] None [Finished, RunningOnce ''job''] NotStarted)"]] by (simp add: ops)
  also have "supervisor_step (?s False False [] None [Finished, RunningOnce ''job''] FlagStored) (?s False True [] None [Finished, RunningOnce ''job''] TokenCancelled)"
    using shutdown [OF cancel [of "(?s False False [] None [Finished, RunningOnce ''job''] FlagStored)"]] by (simp add: ops)
  also have "supervisor_step (?s False True [] None [Finished, RunningOnce ''job''] TokenCancelled) (?s False True [] None [Finished, RunningOnce ''job''] (Awaiting [] []))"
    using shutdown [OF drain [of "(?s False True [] None [Finished, RunningOnce ''job''] TokenCancelled)"]] by (simp add: ops)
  also have "supervisor_step (?s False True [] None [Finished, RunningOnce ''job''] (Awaiting [] [])) (?s False True [] None [Finished, RunningOnce ''job''] (ShutDown []))"
    using shutdown [OF all_awaited [of "(?s False True [] None [Finished, RunningOnce ''job''] (Awaiting [] []))" "[]"]] by (simp add: ops)
  finally show ?thesis by (intro exI conjI) (assumption, simp_all)
qed

text \<open>A spawn that read the flag before shutdown stored it: its task is registered, drained and aborted.\<close>

lemma late_spawn_run:
  "reachable \<lparr>accepting = False, cancelled = True, tasks = [], lock = None, statuses = [Aborted], progress = ShutDown [0]\<rparr>"
proof -
  let ?s = "\<lambda>acc can tks lk sts pr. \<lparr>accepting = acc, cancelled = can, tasks = tks, lock = lk, statuses = sts, progress = pr\<rparr>"
  note ops = spawn_replace_enter_def spawn_replace_insert_def abort_def shutdown_store_def shutdown_cancel_def
    shutdown_drain_def shutdown_deadline_def Let_def
  have "reachable (?s True False [] None [] NotStarted)" by (simp add: new_supervisor_def)
  also have "supervisor_step (?s True False [] None [] NotStarted) (?s True False [] (Some (PendingReplace ''job'')) [] NotStarted)"
    using replace_enter [of "(?s True False [] None [] NotStarted)" "''job''"] by (simp add: ops)
  also have "supervisor_step (?s True False [] (Some (PendingReplace ''job'')) [] NotStarted) (?s False False [] (Some (PendingReplace ''job'')) [] FlagStored)"
    using shutdown [OF store [of "(?s True False [] (Some (PendingReplace ''job'')) [] NotStarted)"]] by (simp add: ops)
  also have "supervisor_step (?s False False [] (Some (PendingReplace ''job'')) [] FlagStored) (?s False False [(''job'', 0)] None [Running] FlagStored)"
    using holder [OF replace_insert [of "(?s False False [] (Some (PendingReplace ''job'')) [] FlagStored)" "''job''"]] by (simp add: ops)
  also have "supervisor_step (?s False False [(''job'', 0)] None [Running] FlagStored) (?s False True [(''job'', 0)] None [Running] TokenCancelled)"
    using shutdown [OF cancel [of "(?s False False [(''job'', 0)] None [Running] FlagStored)"]] by (simp add: ops)
  also have "supervisor_step (?s False True [(''job'', 0)] None [Running] TokenCancelled) (?s False True [] None [Running] (Awaiting [0] [0]))"
    using shutdown [OF drain [of "(?s False True [(''job'', 0)] None [Running] TokenCancelled)"]] by (simp add: ops)
  also have "supervisor_step (?s False True [] None [Running] (Awaiting [0] [0])) (?s False True [] None [Aborted] (ShutDown [0]))"
    using shutdown [OF deadline [of "(?s False True [] None [Running] (Awaiting [0] [0]))" "[0]" "[0]"]] by (simp add: ops)
  finally show ?thesis .
qed

theorem shutdown_is_final_witness:
  "\<exists>s. reachable s \<and> progress s = ShutDown [0] \<and> active_count s = 0 \<and> stopped (statuses s ! 0)"
proof -
  let ?s = "\<lparr>accepting = False, cancelled = True, tasks = [], lock = None, statuses = [Aborted], progress = ShutDown [0]\<rparr>"
  have "active_count ?s = 0 \<and> (\<forall>h\<in>set [0]. stopped (statuses ?s ! h))"
    using shutdown_is_final [OF late_spawn_run, of "[0]"] by simp
  then show ?thesis using late_spawn_run by (intro exI [of _ ?s]) simp
qed

theorem shutdown_returns_witness:
  "\<exists>t hs. closing_step\<^sup>*\<^sup>* new_supervisor t \<and> progress t = ShutDown hs"
  using shutdown_returns [of new_supervisor] by blast

end
