(* ===== verification/Sql_Text.thy ===== *)
theory Sql_Text
  imports Database_Type
begin

text \<open>
  The recognition of pieces of SQL text that the statement splitter relies on (\<open>sql.rs\<close>):
  dialect profiles, comments, MySQL routine bodies, PL/SQL and SAP HANA blocks, delimiter and psql
  commands, and dollar quotes.

  The code walks over characters with an index; the model walks over the rest of the text. Where
  the code keeps one flag per kind of comment and quote, of which at most one is set, the model of
  a self-contained scanner has one mode. The tokenizer of the SQL parser is the argument \<open>tokenize\<close>,
  \<open>None\<close> where it fails.
\<close>

section \<open>Dialect profiles\<close>

record sql_dialect_profile =
  supports_hash_line_comments :: bool
  supports_oracle_plsql_blocks :: bool
  supports_slash_line_block_delimiter :: bool
  supports_custom_delimiter_commands :: bool
  supports_mysql_routine_blocks :: bool
  supports_dollar_quoted_strings :: bool
  supports_postgres_dollar_quoted_routines :: bool
  supports_hana_do_blocks :: bool
  supports_go_batch_separator :: bool
  keeps_sqlserver_module_batch_at_cursor :: bool
  preserves_tdsql_leading_directives :: bool
  requires_whitespace_after_line_comment_dashes :: bool
  supports_psql_control_commands :: bool

definition profile_default :: sql_dialect_profile where
  "profile_default =
     \<lparr>supports_hash_line_comments = False, supports_oracle_plsql_blocks = False,
      supports_slash_line_block_delimiter = False, supports_custom_delimiter_commands = True,
      supports_mysql_routine_blocks = False, supports_dollar_quoted_strings = True,
      supports_postgres_dollar_quoted_routines = False, supports_hana_do_blocks = False,
      supports_go_batch_separator = False, keeps_sqlserver_module_batch_at_cursor = False,
      preserves_tdsql_leading_directives = False, requires_whitespace_after_line_comment_dashes = False,
      supports_psql_control_commands = False\<rparr>"

definition profile_mysql_compatible :: sql_dialect_profile where
  "profile_mysql_compatible = profile_default\<lparr>supports_hash_line_comments := True,
     supports_mysql_routine_blocks := True, requires_whitespace_after_line_comment_dashes := True\<rparr>"

definition profile_oracle_like :: sql_dialect_profile where
  "profile_oracle_like = profile_default\<lparr>supports_oracle_plsql_blocks := True,
     supports_slash_line_block_delimiter := True\<rparr>"

definition profile_gaussdb :: sql_dialect_profile where
  "profile_gaussdb = profile_oracle_like\<lparr>supports_postgres_dollar_quoted_routines := True,
     supports_psql_control_commands := True\<rparr>"

definition profile_sql_server :: sql_dialect_profile where
  "profile_sql_server = profile_default\<lparr>supports_go_batch_separator := True,
     keeps_sqlserver_module_batch_at_cursor := True\<rparr>"

definition profile_sap_hana :: sql_dialect_profile where
  "profile_sap_hana = profile_default\<lparr>supports_hana_do_blocks := True\<rparr>"

definition is_mysql_compatible_database :: "database_type \<Rightarrow> bool" where
  "is_mysql_compatible_database d \<longleftrightarrow> d \<in> {Mysql, Doris, StarRocks, ManticoreSearch, Goldendb}"

definition is_oracle_like_database :: "database_type \<Rightarrow> bool" where
  "is_oracle_like_database d \<longleftrightarrow> d \<in> {Oracle, Dameng, Gaussdb, Yashandb, Oscar, OceanbaseOracle, Xugu}"

definition profile_for_database_type :: "database_type \<Rightarrow> sql_dialect_profile" where
  "profile_for_database_type d =
     (if d = Mysql then profile_mysql_compatible\<lparr>preserves_tdsql_leading_directives := (d = Mysql)\<rparr>
      else if d = Gaussdb then profile_gaussdb
      else if is_oracle_like_database d then profile_oracle_like
      else if d = SqlServer then profile_sql_server
      else if is_mysql_compatible_database d then profile_mysql_compatible
      else if d = SapHana then profile_sap_hana
      else profile_default)"

section \<open>Characters and comments\<close>

abbreviation nl :: char where
  "nl \<equiv> CHR 10"

definition is_control :: "char \<Rightarrow> bool" where
  "is_control c = (let n = code c in n < 32 \<or> 127 \<le> n \<and> n < 160)"

definition is_ascii_whitespace :: "char \<Rightarrow> bool" where
  "is_ascii_whitespace c \<longleftrightarrow> c \<in> {CHR 9, CHR 10, CHR 12, CHR 13, CHR 32}"

definition ascii_upper :: "char \<Rightarrow> char" where
  "ascii_upper c = (let n = code c in if 97 \<le> n \<and> n \<le> 122 then char_of (n - 32) else c)"

definition to_ascii_uppercase :: "string \<Rightarrow> string" where
  "to_ascii_uppercase s = map ascii_upper s"

definition is_sql_ident_char :: "char \<Rightarrow> bool" where
  "is_sql_ident_char c \<longleftrightarrow> c = CHR ''_'' \<or> c = CHR ''$'' \<or> is_ascii_alphabetic c \<or> is_ascii_digit c"

definition dash_dash_starts_line_comment :: "sql_dialect_profile \<Rightarrow> char option \<Rightarrow> bool" where
  "dash_dash_starts_line_comment profile after =
     (\<not> requires_whitespace_after_line_comment_dashes profile \<or>
      (case after of None \<Rightarrow> True | Some c \<Rightarrow> is_whitespace c \<or> is_control c))"

definition is_mysql_executable_comment_start :: "string \<Rightarrow> bool" where
  "is_mysql_executable_comment_start cs \<longleftrightarrow> starts_with cs ''/*!'' \<or> starts_with cs ''/*M!''"

definition next_char :: "string \<Rightarrow> char option" where
  "next_char cs = (case cs of [] \<Rightarrow> None | c # _ \<Rightarrow> Some c)"

fun has_executable_loop ::
    "sql_dialect_profile \<Rightarrow> bool \<Rightarrow> bool \<Rightarrow> char option \<Rightarrow> string \<Rightarrow> bool" where
  "has_executable_loop profile in_line in_block prev [] = False"
| "has_executable_loop profile in_line in_block prev (c # cs) =
     (if in_line then has_executable_loop profile (c \<noteq> nl) in_block (Some c) cs
      else if in_block then
        has_executable_loop profile in_line (\<not> (prev = Some (CHR ''*'') \<and> c = CHR ''/'')) (Some c) cs
      else if c = CHR ''-'' \<and> next_char cs = Some (CHR ''-'') then has_executable_loop profile True in_block (Some c) cs
      else if supports_hash_line_comments profile \<and> c = CHR ''#'' then
        has_executable_loop profile True in_block (Some c) cs
      else if c = CHR ''/'' \<and> next_char cs = Some (CHR ''*'') then
        (if is_mysql_executable_comment_start (c # cs) then True
         else has_executable_loop profile in_line True (Some c) cs)
      else if \<not> is_whitespace c then True
      else has_executable_loop profile in_line in_block (Some c) cs)"

definition has_executable_sql :: "sql_dialect_profile \<Rightarrow> string \<Rightarrow> bool" where
  "has_executable_sql profile statement = has_executable_loop profile False False None statement"

text \<open>The rest of a text after the end of a block comment.\<close>

fun after_block_comment :: "string \<Rightarrow> string option" where
  "after_block_comment [] = None"
| "after_block_comment (c # cs) =
     (if c = CHR ''*'' \<and> next_char cs = Some (CHR ''/'') then Some (tl cs) else after_block_comment cs)"

lemma after_block_comment_shorter: "after_block_comment s = Some r \<Longrightarrow> length r < length s"
  by (induction s) (auto split: if_splits intro: le_imp_less_Suc)

function leading_executable_sql :: "sql_dialect_profile \<Rightarrow> string \<Rightarrow> string" where
  "leading_executable_sql profile sql =
     (let s = dropWhile is_ascii_whitespace sql in
      if s = [] then []
      else if starts_with s ''--'' then leading_executable_sql profile (dropWhile (\<lambda>c. c \<noteq> nl) (drop 2 s))
      else if supports_hash_line_comments profile \<and> hd s = CHR ''#'' then
        leading_executable_sql profile (dropWhile (\<lambda>c. c \<noteq> nl) (drop 1 s))
      else if starts_with s ''/*'' then
        (if is_mysql_executable_comment_start s then s
         else case after_block_comment (drop 2 s) of None \<Rightarrow> [] | Some rest \<Rightarrow> leading_executable_sql profile rest)
      else s)"
  by pat_completeness auto
termination
proof (relation "measure (length \<circ> snd)")
  fix profile sql s
  assume s: "s = dropWhile is_ascii_whitespace sql" "s \<noteq> []"
  then have len: "length s \<le> length sql" "0 < length s" by (auto simp: length_dropWhile_le)
  have "length (dropWhile P (drop n s)) < length sql" if "0 < n" for P n
    using length_dropWhile_le [of P "drop n s"] len that by (simp del: length_greater_0_conv)
  then show "((profile, dropWhile (\<lambda>c. c \<noteq> nl) (drop 2 s)), (profile, sql)) \<in> measure (length \<circ> snd)"
    "((profile, dropWhile (\<lambda>c. c \<noteq> nl) (drop 1 s)), (profile, sql)) \<in> measure (length \<circ> snd)"
    by simp_all
  fix rest
  assume "after_block_comment (drop 2 s) = Some rest"
  from after_block_comment_shorter [OF this] show "((profile, rest), (profile, sql)) \<in> measure (length \<circ> snd)"
    using len by simp
qed simp

declare leading_executable_sql.simps [simp del]

fun split_where :: "(char \<Rightarrow> bool) \<Rightarrow> string \<Rightarrow> string list" where
  "split_where p [] = [[]]"
| "split_where p (c # cs) =
     (if p c then [] # split_where p cs
      else (case split_where p cs of [] \<Rightarrow> [[c]] | w # ws \<Rightarrow> (c # w) # ws))"

definition first_sql_tokens :: "string \<Rightarrow> nat \<Rightarrow> string list" where
  "first_sql_tokens sql limit =
     take limit (filter (\<lambda>w. w \<noteq> [])
       (split_where (\<lambda>c. \<not> (is_ascii_alphabetic c \<or> is_ascii_digit c) \<and> c \<noteq> CHR ''_'') sql))"

section \<open>MySQL routine bodies\<close>

datatype scan_mode = Plain | LineComment | BlockComment | SingleQuote | DoubleQuote | Backtick

function mysql_tokens :: "scan_mode \<Rightarrow> string \<Rightarrow> string list" where
  "mysql_tokens mode [] = []"
| "mysql_tokens LineComment (c # cs) = mysql_tokens (if c = nl then Plain else LineComment) cs"
| "mysql_tokens BlockComment (c # cs) =
     (if c = CHR ''*'' \<and> next_char cs = Some (CHR ''/'') then mysql_tokens Plain (tl cs) else mysql_tokens BlockComment cs)"
| "mysql_tokens SingleQuote (c # cs) =
     (if c = CHR 92 \<and> cs \<noteq> [] then mysql_tokens SingleQuote (tl cs)
      else if c = CHR 39 then
        (if next_char cs = Some (CHR 39) then mysql_tokens SingleQuote (tl cs) else mysql_tokens Plain cs)
      else mysql_tokens SingleQuote cs)"
| "mysql_tokens DoubleQuote (c # cs) =
     (if c = CHR 92 \<and> cs \<noteq> [] then mysql_tokens DoubleQuote (tl cs)
      else if c = CHR 34 then
        (if next_char cs = Some (CHR 34) then mysql_tokens DoubleQuote (tl cs) else mysql_tokens Plain cs)
      else mysql_tokens DoubleQuote cs)"
| "mysql_tokens Backtick (c # cs) =
     (if c = CHR ''`'' then
        (if next_char cs = Some (CHR ''`'') then mysql_tokens Backtick (tl cs) else mysql_tokens Plain cs)
      else mysql_tokens Backtick cs)"
| "mysql_tokens Plain (c # cs) =
     (if c = CHR ''-'' \<and> next_char cs = Some (CHR ''-'') then mysql_tokens LineComment (tl cs)
      else if c = CHR ''#'' then mysql_tokens LineComment cs
      else if c = CHR ''/'' \<and> next_char cs = Some (CHR ''*'') then mysql_tokens BlockComment (tl cs)
      else if c = CHR 39 then mysql_tokens SingleQuote cs
      else if c = CHR 34 then mysql_tokens DoubleQuote cs
      else if c = CHR ''`'' then mysql_tokens Backtick cs
      else if c = CHR '';'' then '';'' # mysql_tokens Plain cs
      else if c = CHR ''_'' \<or> is_ascii_alphabetic c then
        to_ascii_uppercase (c # takeWhile is_sql_ident_char cs) # mysql_tokens Plain (dropWhile is_sql_ident_char cs)
      else mysql_tokens Plain cs)"
  by pat_completeness auto
termination
  by (relation "measure (length \<circ> snd)") (auto simp: less_Suc_eq_le length_dropWhile_le)

definition mysql_routine_tokens :: "string \<Rightarrow> string list" where
  "mysql_routine_tokens sql = mysql_tokens Plain sql"

definition is_any_keyword :: "string \<Rightarrow> string list \<Rightarrow> bool" where
  "is_any_keyword token keywords = list_ex (eq_ignore_ascii_case token) keywords"

fun mysql_routine_ddl_tokens :: "string list \<Rightarrow> bool" where
  "mysql_routine_ddl_tokens [] = False"
| "mysql_routine_ddl_tokens (token # tokens) =
     (if is_any_keyword token [''PROCEDURE'', ''FUNCTION'', ''TRIGGER'', ''EVENT''] then True
      else if is_any_keyword token [''DATABASE'', ''INDEX'', ''LOGFILE'', ''ROLE'', ''SCHEMA'', ''SERVER'', ''SPATIAL'',
        ''TABLE'', ''TEMPORARY'', ''UNIQUE'', ''USER'', ''VIEW''] then False
      else mysql_routine_ddl_tokens tokens)"

definition is_mysql_routine_ddl_start :: "string \<Rightarrow> bool" where
  "is_mysql_routine_ddl_start sql =
     (case first_sql_tokens (leading_executable_sql profile_mysql_compatible sql) 16 of
        [] \<Rightarrow> False
      | token # tokens \<Rightarrow> eq_ignore_ascii_case token ''CREATE'' \<and> mysql_routine_ddl_tokens tokens)"

definition starts_with_mysql_routine_block :: "string \<Rightarrow> bool" where
  "starts_with_mysql_routine_block sql \<longleftrightarrow>
     is_mysql_routine_ddl_start sql \<and> list_ex (\<lambda>t. eq_ignore_ascii_case t ''BEGIN'') (mysql_routine_tokens sql)"

datatype mysql_block = MysqlBegin | MysqlCase

definition previous_mysql_routine_word :: "string list \<Rightarrow> nat \<Rightarrow> string option" where
  "previous_mysql_routine_word tokens index = find (\<lambda>t. t \<noteq> '';'') (rev (take index tokens))"

definition next_mysql_routine_word :: "string list \<Rightarrow> nat \<Rightarrow> string option" where
  "next_mysql_routine_word tokens index = find (\<lambda>t. t \<noteq> '';'') (drop (index + 1) tokens)"

definition is_mysql_control_block_suffix :: "string \<Rightarrow> bool" where
  "is_mysql_control_block_suffix token = is_any_keyword token [''IF'', ''LOOP'', ''CASE'', ''REPEAT'', ''WHILE'']"

definition option_holds :: "('a \<Rightarrow> bool) \<Rightarrow> 'a option \<Rightarrow> bool" where
  "option_holds p x = (case x of None \<Rightarrow> False | Some a \<Rightarrow> p a)"

definition mysql_block_step :: "string list \<Rightarrow> nat \<times> string \<Rightarrow> mysql_block list \<times> bool \<Rightarrow> mysql_block list \<times> bool" where
  "mysql_block_step tokens it st =
     (case (it, st) of ((index, token), (stack, saw_begin)) \<Rightarrow>
        let after_end = option_holds (\<lambda>w. eq_ignore_ascii_case w ''END'') (previous_mysql_routine_word tokens index);
            suffix = next_mysql_routine_word tokens index in
        if token = '';'' then st
        else if eq_ignore_ascii_case token ''BEGIN'' then
          (if after_end then st else (MysqlBegin # stack, True))
        else if eq_ignore_ascii_case token ''CASE'' then
          (if after_end then st else (MysqlCase # stack, saw_begin))
        else if eq_ignore_ascii_case token ''END'' \<and> saw_begin then
          (if option_holds (\<lambda>w. eq_ignore_ascii_case w ''CASE'') suffix then
             (if stack \<noteq> [] \<and> hd stack = MysqlCase then (tl stack, saw_begin) else st)
           else if option_holds is_mysql_control_block_suffix suffix then st
           else (tl stack, saw_begin))
        else st)"

definition mysql_routine_block_is_complete :: "string \<Rightarrow> bool" where
  "mysql_routine_block_is_complete sql =
     (if \<not> starts_with_mysql_routine_block sql then False
      else
        (let tokens = mysql_routine_tokens sql;
             (stack, saw_begin) = fold (mysql_block_step tokens) (List.enumerate 0 tokens) ([], False)
         in saw_begin \<and> stack = [] \<and> tokens \<noteq> [] \<and> last tokens = '';''))"

section \<open>Delimiter and psql commands, dollar quotes\<close>

definition parse_delimiter_command :: "string \<Rightarrow> string option" where
  "parse_delimiter_command line =
     (if 10 < str_len line \<and>
         (eq_ignore_ascii_case (take 10 line) ''delimiter '' \<or> eq_ignore_ascii_case (take 10 line) (''delimiter'' @ [CHR 9]))
      then (let rest = trim (drop 10 line) in if rest = [] then None else Some rest)
      else None)"

datatype psql_control_command = OnErrorStop | ClientDisplay

definition parse_ignorable_psql_control_command :: "string \<Rightarrow> psql_control_command option" where
  "parse_ignorable_psql_control_command line =
     (case split_whitespace line of
        [] \<Rightarrow> None
      | command # parts \<Rightarrow>
          if eq_ignore_ascii_case command (CHR 92 # ''timing'') then
            (case parts of [] \<Rightarrow> Some ClientDisplay
             | value # rest \<Rightarrow>
                 if (eq_ignore_ascii_case value ''on'' \<or> eq_ignore_ascii_case value ''off'') \<and> rest = []
                 then Some ClientDisplay else None)
          else if \<not> eq_ignore_ascii_case command (CHR 92 # ''set'') then None
          else (case parts of
              [variable, value] \<Rightarrow>
                if to_ascii_uppercase variable = ''ON_ERROR_STOP'' \<and> to_ascii_lowercase value \<in> {''on'', ''true'', ''1''}
                then Some OnErrorStop
                else if to_ascii_uppercase variable = ''VERBOSITY'' \<and>
                  to_ascii_lowercase value \<in> {''default'', ''verbose'', ''terse'', ''sqlstate''}
                then Some ClientDisplay
                else None
            | _ \<Rightarrow> None))"

definition is_tag_char :: "char \<Rightarrow> bool" where
  "is_tag_char c \<longleftrightarrow> is_ascii_alphabetic c \<or> is_ascii_digit c \<or> c = CHR ''_''"

definition dollar_quote_tag_at :: "string \<Rightarrow> string option" where
  "dollar_quote_tag_at cs =
     (if next_char cs \<noteq> Some (CHR ''$'') then None
      else case next_char (tl cs) of
        None \<Rightarrow> None
      | Some c \<Rightarrow>
          if c = CHR ''$'' then Some ''$$''
          else if is_ascii_alphabetic c \<or> c = CHR ''_'' then
            (let after = drop 2 cs in
             if next_char (dropWhile is_tag_char after) = Some (CHR ''$'')
             then Some (CHR ''$'' # c # takeWhile is_tag_char after @ ''$'') else None)
          else None)"

section \<open>PL/SQL and SAP HANA blocks\<close>

text \<open>The tokens of the SQL parser that the code tells apart.\<close>

datatype parser_token = WordToken string "char option" | SemiColonToken | OtherToken

datatype plsql_token = Word string | Semicolon

definition from_sqlparser_token :: "parser_token \<Rightarrow> plsql_token option" where
  "from_sqlparser_token t =
     (case t of WordToken value None \<Rightarrow> Some (Word (to_ascii_uppercase value)) | SemiColonToken \<Rightarrow> Some Semicolon | _ \<Rightarrow> None)"

text \<open>The rest after a line comment, a block comment (with the previous character) and a quoted text.\<close>

fun skip_line :: "string \<Rightarrow> string" where
  "skip_line [] = []"
| "skip_line (c # cs) = (if c = nl then cs else skip_line cs)"

fun skip_block :: "char \<Rightarrow> string \<Rightarrow> string" where
  "skip_block prev [] = []"
| "skip_block prev (c # cs) = (if prev = CHR ''*'' \<and> c = CHR ''/'' then cs else skip_block c cs)"

fun skip_quoted :: "string \<Rightarrow> string" where
  "skip_quoted [] = []"
| "skip_quoted [c] = []"
| "skip_quoted (c # d # cs) = (if c = CHR 39 then (if d = CHR 39 then skip_quoted cs else d # cs) else skip_quoted (d # cs))"

fun skip_identifier :: "string \<Rightarrow> string" where
  "skip_identifier [] = []"
| "skip_identifier (c # cs) = (if c = CHR 34 then cs else skip_identifier cs)"

lemma skip_lengths [termination_simp]:
  "length (skip_line s) \<le> length s" "length (skip_block p s) \<le> length s" "length (skip_quoted s) \<le> length s"
  "length (skip_identifier s) \<le> length s"
proof -
  show "length (skip_line s) \<le> length s" by (induction s) auto
  show "length (skip_block p s) \<le> length s" by (induction s arbitrary: p) (auto intro: le_SucI)
  show "length (skip_quoted s) \<le> length s" by (induction s rule: skip_quoted.induct) auto
  show "length (skip_identifier s) \<le> length s" by (induction s) auto
qed

definition is_plsql_word_char :: "char \<Rightarrow> bool" where
  "is_plsql_word_char c \<longleftrightarrow>
     is_ascii_alphabetic c \<or> is_ascii_digit c \<or> c = CHR ''_'' \<or> c = CHR ''$'' \<or> c = CHR ''#''"

function oracle_plsql_tokens_fallback :: "string \<Rightarrow> plsql_token list" where
  "oracle_plsql_tokens_fallback [] = []"
| "oracle_plsql_tokens_fallback (c # cs) =
     (if is_whitespace c then oracle_plsql_tokens_fallback cs
      else if c = CHR ''-'' \<and> next_char cs = Some (CHR ''-'') then oracle_plsql_tokens_fallback (skip_line (tl cs))
      else if c = CHR ''/'' \<and> next_char cs = Some (CHR ''*'') then oracle_plsql_tokens_fallback (skip_block (CHR 0x00) (tl cs))
      else if c = CHR 39 then oracle_plsql_tokens_fallback (skip_quoted cs)
      else if c = CHR 34 then oracle_plsql_tokens_fallback (skip_identifier cs)
      else if c = CHR '';'' then Semicolon # oracle_plsql_tokens_fallback cs
      else if is_ascii_alphabetic c \<or> c = CHR ''_'' then
        Word (to_ascii_uppercase (c # takeWhile is_plsql_word_char cs)) #
        oracle_plsql_tokens_fallback (dropWhile is_plsql_word_char cs)
      else oracle_plsql_tokens_fallback cs)"
  by pat_completeness auto
termination
proof (relation "measure length")
  fix c :: char and cs :: string
  have "length (skip_line (tl cs)) \<le> length cs" "length (skip_block (CHR 0x00) (tl cs)) \<le> length cs"
    using skip_lengths(1) [of "tl cs"] skip_lengths(2) [of "CHR 0x00" "tl cs"] by simp_all
  then show "(skip_line (tl cs), c # cs) \<in> measure length" "(skip_block (CHR 0x00) (tl cs), c # cs) \<in> measure length"
    by simp_all
qed (simp_all add: skip_lengths length_dropWhile_le less_Suc_eq_le)

definition oracle_plsql_tokens :: "(string \<Rightarrow> parser_token list option) \<Rightarrow> string \<Rightarrow> plsql_token list" where
  "oracle_plsql_tokens tokenize sql =
     (case tokenize sql of Some tokens \<Rightarrow> List.map_filter from_sqlparser_token tokens
      | None \<Rightarrow> oracle_plsql_tokens_fallback sql)"

definition as_word :: "plsql_token \<Rightarrow> string option" where
  "as_word t = (case t of Word w \<Rightarrow> Some w | Semicolon \<Rightarrow> None)"

definition is_any_word :: "plsql_token \<Rightarrow> string list \<Rightarrow> bool" where
  "is_any_word t words = list_ex (\<lambda>w. t = Word w) words"

fun find_word :: "plsql_token list \<Rightarrow> string option" where
  "find_word [] = None"
| "find_word (Word w # ts) = Some w"
| "find_word (Semicolon # ts) = find_word ts"

definition previous_word_token :: "plsql_token list \<Rightarrow> nat \<Rightarrow> string option" where
  "previous_word_token tokens index = find_word (rev (take index tokens))"

definition next_word_token :: "plsql_token list \<Rightarrow> nat \<Rightarrow> string option" where
  "next_word_token tokens index = find_word (drop (index + 1) tokens)"

fun skip_create_modifiers :: "plsql_token list \<Rightarrow> plsql_token list" where
  "skip_create_modifiers [] = []"
| "skip_create_modifiers [t] =
     (if is_any_word t [''FORCE'', ''NOFORCE'', ''EDITIONABLE'', ''NONEDITIONABLE''] then [] else [t])"
| "skip_create_modifiers (t # u # ts) =
     (if t = Word ''OR'' \<and> u = Word ''REPLACE'' then skip_create_modifiers ts
      else if is_any_word t [''FORCE'', ''NOFORCE'', ''EDITIONABLE'', ''NONEDITIONABLE''] then skip_create_modifiers (u # ts)
      else t # u # ts)"

definition is_body :: "plsql_token list \<Rightarrow> bool" where
  "is_body ts = (case ts of object # body # _ \<Rightarrow> is_any_word object [''PACKAGE'', ''TYPE''] \<and> body = Word ''BODY'' | _ \<Rightarrow> False)"

definition starts_create_plsql_object :: "plsql_token list \<Rightarrow> bool" where
  "starts_create_plsql_object tokens =
     (let ts = skip_create_modifiers tokens in
      if is_body ts then True
      else case ts of [] \<Rightarrow> False
        | object # _ \<Rightarrow> object \<noteq> Word ''TYPE'' \<and> is_any_word object [''FUNCTION'', ''PROCEDURE'', ''TRIGGER'', ''PACKAGE''])"

definition is_transaction_begin_tail :: "plsql_token \<Rightarrow> bool" where
  "is_transaction_begin_tail t \<longleftrightarrow> t = Semicolon \<or> is_any_word t [''TRANSACTION'', ''WORK'']"

definition plsql_starts_block :: "plsql_token list \<Rightarrow> bool" where
  "plsql_starts_block tokens =
     (case tokens of
        [] \<Rightarrow> False
      | t # rest \<Rightarrow>
          if t = Word ''DECLARE'' then True
          else if t = Word ''BEGIN'' \<and> (case rest of u # _ \<Rightarrow> \<not> is_transaction_begin_tail u | [] \<Rightarrow> False) then True
          else t = Word ''CREATE'' \<and> starts_create_plsql_object rest)"

datatype plsql_create_object_kind = Spec | Body

datatype plsql_scope = ObjectScope | BlockScope | CaseScope

definition create_object_kind :: "plsql_token list \<Rightarrow> plsql_create_object_kind option" where
  "create_object_kind tokens =
     (case tokens of
        [] \<Rightarrow> None
      | t # rest \<Rightarrow>
          if t \<noteq> Word ''CREATE'' then None
          else (let ts = skip_create_modifiers rest in
            if is_body ts then Some Body
            else case ts of [] \<Rightarrow> None | object # _ \<Rightarrow> if object = Word ''PACKAGE'' then Some Spec else None))"

definition plsql_block_step :: "plsql_token list \<Rightarrow> nat \<times> plsql_token \<Rightarrow> plsql_scope list \<times> bool \<times> bool \<Rightarrow>
    plsql_scope list \<times> bool \<times> bool" where
  "plsql_block_step tokens it st =
     (case (it, st) of ((index, token), (scopes, saw_begin, complete)) \<Rightarrow>
        if token = Semicolon then st
        else if token = Word ''BEGIN'' then (BlockScope # scopes, True, False)
        else if token = Word ''CASE'' then
          (if previous_word_token tokens index \<noteq> Some ''END'' then (CaseScope # scopes, saw_begin, complete) else st)
        else if token = Word ''END'' then
          (let next = (if index + 1 < length tokens then as_word (tokens ! (index + 1)) else None) in
           if next = Some ''IF'' \<or> next = Some ''LOOP'' then st
           else if next = Some ''CASE'' \<and> \<not> (scopes \<noteq> [] \<and> hd scopes = CaseScope) then st
           else if scopes \<noteq> [] then (tl scopes, saw_begin, tl scopes = []) else st)
        else st)"

definition plsql_is_complete :: "plsql_token list \<Rightarrow> bool" where
  "plsql_is_complete tokens =
     (if \<not> plsql_starts_block tokens then False
      else
        (let kind = create_object_kind tokens;
             scopes = (if kind \<noteq> None then [ObjectScope] else []);
             (scopes', saw_begin, complete) = fold (plsql_block_step tokens) (List.enumerate 0 tokens) (scopes, False, False)
         in if kind \<noteq> None then complete else saw_begin \<and> complete))"

definition starts_with_oracle_plsql_block :: "(string \<Rightarrow> parser_token list option) \<Rightarrow> string \<Rightarrow> bool" where
  "starts_with_oracle_plsql_block tokenize sql = plsql_starts_block (oracle_plsql_tokens tokenize sql)"

definition oracle_plsql_block_is_complete :: "(string \<Rightarrow> parser_token list option) \<Rightarrow> string \<Rightarrow> bool" where
  "oracle_plsql_block_is_complete tokenize sql = plsql_is_complete (oracle_plsql_tokens tokenize sql)"

definition starts_with_postgres_dollar_quoted_routine_prefix :: "(string \<Rightarrow> parser_token list option) \<Rightarrow> string \<Rightarrow> bool" where
  "starts_with_postgres_dollar_quoted_routine_prefix tokenize sql =
     (case oracle_plsql_tokens tokenize sql of
        [] \<Rightarrow> False
      | t # rest \<Rightarrow>
          t = Word ''CREATE'' \<and>
          (case skip_create_modifiers rest of [] \<Rightarrow> False | u # _ \<Rightarrow> is_any_word u [''FUNCTION'', ''PROCEDURE'']) \<and>
          find_word (rev (t # rest)) = Some ''AS'')"

definition hana_starts_block :: "plsql_token list \<Rightarrow> bool" where
  "hana_starts_block tokens = (case tokens of [] \<Rightarrow> False | t # _ \<Rightarrow> t = Word ''DO'')"

definition hana_block_step :: "plsql_token list \<Rightarrow> nat \<times> plsql_token \<Rightarrow> string list \<times> bool \<Rightarrow> string list \<times> bool" where
  "hana_block_step tokens it st =
     (case (it, st) of ((index, token), (stack, saw_begin)) \<Rightarrow>
        let after_end = (previous_word_token tokens index = Some ''END'') in
        if token = Word ''BEGIN'' then (if after_end then st else (''BLOCK'' # stack, True))
        else if is_any_word token [''IF'', ''FOR'', ''WHILE'', ''CASE''] then
          (if \<not> after_end then ((case as_word token of Some w \<Rightarrow> w | None \<Rightarrow> ''BLOCK'') # stack, saw_begin) else st)
        else if token = Word ''END'' then
          (let next = next_word_token tokens index;
               top = (case stack of [] \<Rightarrow> None | x # _ \<Rightarrow> Some x);
               target = (if next = Some ''IF'' then ''IF'' else if next = Some ''FOR'' then ''FOR''
                 else if next = Some ''WHILE'' then ''WHILE'' else if top = Some ''CASE'' then ''CASE'' else ''BLOCK'')
           in if top = Some target then (tl stack, saw_begin) else st)
        else st)"

definition hana_is_complete :: "plsql_token list \<Rightarrow> bool" where
  "hana_is_complete tokens =
     (if \<not> hana_starts_block tokens then False
      else (let (stack, saw_begin) = fold (hana_block_step tokens) (List.enumerate 0 tokens) ([], False)
            in saw_begin \<and> stack = [] \<and> tokens \<noteq> [] \<and> last tokens = Semicolon))"

definition starts_with_hana_do_block :: "(string \<Rightarrow> parser_token list option) \<Rightarrow> string \<Rightarrow> bool" where
  "starts_with_hana_do_block tokenize sql = hana_starts_block (oracle_plsql_tokens tokenize sql)"

definition hana_do_block_is_complete :: "(string \<Rightarrow> parser_token list option) \<Rightarrow> string \<Rightarrow> bool" where
  "hana_do_block_is_complete tokenize sql = hana_is_complete (oracle_plsql_tokens tokenize sql)"

end
