(* ===== verification/Sql_Splitter.thy ===== *)
theory Sql_Splitter
  imports Sql_Text
begin

text \<open>
  The streaming statement splitter (\<open>SqlStatementSplitter\<close> of \<open>sql.rs\<close>), which cuts an SQL script into
  statements while the script arrives in chunks. One call of \<open>splitter_step\<close> is one round of the loop
  over the characters of a chunk: it gets the rest of the chunk, which the code reads ahead in, and
  returns the rest after the characters it consumed. The loop is \<open>push_loop\<close>; it ends because every
  round consumes a character or leaves a dollar quote.

  Shown: every statement that is handed out is trimmed and has something to execute; a chunk boundary
  right after a newline cannot be observed, in any dialect; a script printed from a list of statements
  is split into these statements again, whatever semicolons their quoted texts and comments contain. A chunk
  boundary inside a dollar quote's tag and a line that merely starts with \<open>delimiter\<close> change the result.
\<close>

record sql_statement_splitter =
  buffer :: string
  in_single_quote :: bool
  in_double_quote :: bool
  in_backtick :: bool
  in_line_comment :: bool
  in_block_comment :: bool
  dollar_quote_tag :: "string option"
  postgres_dollar_quoted_routine :: bool
  previous :: "char option"
  pending_mysql_line_comment_dashes :: bool
  custom_delimiter :: "string option"
  stop_on_error :: bool
  options :: sql_dialect_profile

record sql_statement_with_control =
  statement_sql :: string
  statement_stop_on_error :: bool

type_synonym tokenizer = "string \<Rightarrow> parser_token list option"

definition splitter_with_options :: "sql_dialect_profile \<Rightarrow> sql_statement_splitter" where
  "splitter_with_options profile =
     \<lparr>buffer = [], in_single_quote = False, in_double_quote = False, in_backtick = False, in_line_comment = False,
      in_block_comment = False, dollar_quote_tag = None, postgres_dollar_quoted_routine = False, previous = None,
      pending_mysql_line_comment_dashes = False, custom_delimiter = None, stop_on_error = False, options = profile\<rparr>"

section \<open>Helpers\<close>

text \<open>The text up to and including its last newline, and the text after it.\<close>

definition upto_last_nl :: "string \<Rightarrow> string" where
  "upto_last_nl s = rev (dropWhile (\<lambda>c. c \<noteq> nl) (rev s))"

definition after_last_nl :: "string \<Rightarrow> string" where
  "after_last_nl s = rev (takeWhile (\<lambda>c. c \<noteq> nl) (rev s))"

definition last_char :: "string \<Rightarrow> char option" where
  "last_char s = next_char (rev s)"

definition has_odd_trailing_backslashes :: "string \<Rightarrow> bool" where
  "has_odd_trailing_backslashes s \<longleftrightarrow> length (takeWhile (\<lambda>c. c = CHR 92) (rev s)) mod 2 = 1"

definition on_delimiter_line :: "sql_statement_splitter \<Rightarrow> bool" where
  "on_delimiter_line s =
     (let line = trim_start (after_last_nl (buffer s)) in
      9 \<le> str_len line \<and> eq_ignore_ascii_case (take 9 line) ''delimiter'')"

definition push_char :: "char \<Rightarrow> sql_statement_splitter \<Rightarrow> sql_statement_splitter" where
  "push_char c s = s\<lparr>buffer := buffer s @ [c], previous := Some c\<rparr>"

definition emit_statement :: "sql_statement_splitter \<Rightarrow> string \<Rightarrow> sql_statement_with_control list" where
  "emit_statement s statement =
     (if has_executable_sql (options s) statement
      then [\<lparr>statement_sql = statement, statement_stop_on_error = stop_on_error s\<rparr>] else [])"

definition push_current_statement ::
    "sql_statement_splitter \<Rightarrow> sql_statement_splitter \<times> sql_statement_with_control list" where
  "push_current_statement s =
     (s\<lparr>buffer := [], postgres_dollar_quoted_routine := False, previous := None,
        pending_mysql_line_comment_dashes := False\<rparr>,
      emit_statement s (trim (buffer s)))"

definition in_quotes :: "sql_statement_splitter \<Rightarrow> bool" where
  "in_quotes s \<longleftrightarrow> in_single_quote s \<or> in_double_quote s \<or> in_backtick s"

section \<open>One round of the loop\<close>

text \<open>Inside a dollar quote and inside a comment.\<close>

definition dollar_step ::
    "string \<Rightarrow> sql_statement_splitter \<Rightarrow> string \<Rightarrow> sql_statement_splitter \<times> string" where
  "dollar_step tag s cs =
     (if starts_with cs tag then ((fold push_char tag s)\<lparr>dollar_quote_tag := None\<rparr>, drop (length tag) cs)
      else (push_char (hd cs) s, tl cs))"

definition line_comment_step :: "sql_statement_splitter \<Rightarrow> char \<Rightarrow> sql_statement_splitter" where
  "line_comment_step s c = (push_char c s)\<lparr>in_line_comment := (c \<noteq> nl)\<rparr>"

definition block_comment_step :: "sql_statement_splitter \<Rightarrow> char \<Rightarrow> sql_statement_splitter" where
  "block_comment_step s c =
     (push_char c s)\<lparr>in_block_comment := \<not> (previous s = Some (CHR ''*'') \<and> c = CHR ''/'')\<rparr>"

text \<open>The openings of comments and dollar quotes, outside of quotes: \<open>None\<close> where there is none.\<close>

definition comment_opening :: "sql_statement_splitter \<Rightarrow> char \<Rightarrow> string \<Rightarrow> sql_statement_splitter option" where
  "comment_opening s c cs =
     (let p = options s in
      if previous s = Some (CHR ''-'') \<and> c = CHR ''-'' \<and>
         requires_whitespace_after_line_comment_dashes p \<and> cs = [] then
        Some ((push_char c s)\<lparr>pending_mysql_line_comment_dashes := True\<rparr>)
      else if previous s = Some (CHR ''-'') \<and> c = CHR ''-'' \<and> dash_dash_starts_line_comment p (next_char cs) then
        Some ((push_char c s)\<lparr>in_line_comment := True\<rparr>)
      else if previous s = Some (CHR ''/'') \<and> c = CHR ''*'' then
        Some ((push_char c s)\<lparr>in_block_comment := True\<rparr>)
      else if supports_hash_line_comments p \<and> c = CHR ''#'' then
        Some ((push_char c s)\<lparr>in_line_comment := True\<rparr>)
      else if c = CHR ''/'' \<and> next_char cs = Some (CHR ''*'') then
        Some ((push_char c s)\<lparr>in_block_comment := True\<rparr>)
      else None)"

definition mark_routine :: "tokenizer \<Rightarrow> sql_statement_splitter \<Rightarrow> sql_statement_splitter" where
  "mark_routine tokenize s =
     (if supports_postgres_dollar_quoted_routines (options s) \<and>
         starts_with_postgres_dollar_quoted_routine_prefix tokenize (buffer s)
      then s\<lparr>postgres_dollar_quoted_routine := True\<rparr> else s)"

definition dollar_opening ::
    "tokenizer \<Rightarrow> sql_statement_splitter \<Rightarrow> string \<Rightarrow> (sql_statement_splitter \<times> string) option" where
  "dollar_opening tokenize s cs =
     (case (if supports_dollar_quoted_strings (options s) then dollar_quote_tag_at cs else None) of
        None \<Rightarrow> None
      | Some tag \<Rightarrow>
          if custom_delimiter s = None \<and> \<not> on_delimiter_line s then
            Some ((fold push_char tag (mark_routine tokenize s))\<lparr>dollar_quote_tag := Some tag\<rparr>, drop (length tag) cs)
          else None)"

definition opening_step ::
    "tokenizer \<Rightarrow> sql_statement_splitter \<Rightarrow> char \<Rightarrow> string \<Rightarrow> (sql_statement_splitter \<times> string) option" where
  "opening_step tokenize s c cs =
     (case comment_opening s c cs of
        Some s1 \<Rightarrow> Some (s1, cs)
      | None \<Rightarrow> dollar_opening tokenize s (c # cs))"

definition append_buffer :: "char \<Rightarrow> sql_statement_splitter \<Rightarrow> sql_statement_splitter" where
  "append_buffer c s = s\<lparr>buffer := buffer s @ [c]\<rparr>"

text \<open>A semicolon outside of quotes.\<close>

definition semicolon_step ::
    "tokenizer \<Rightarrow> sql_statement_splitter \<Rightarrow> sql_statement_splitter \<times> sql_statement_with_control list" where
  "semicolon_step tokenize s =
     (let p = options s; s1 = append_buffer (CHR '';'') s in
      if supports_custom_delimiter_commands p \<and> on_delimiter_line s \<or> custom_delimiter s \<noteq> None then (s1, [])
      else if supports_mysql_routine_blocks p \<and> starts_with_mysql_routine_block (buffer s) then
        (if mysql_routine_block_is_complete (buffer s @ '';'') then push_current_statement s else (s1, []))
      else if supports_oracle_plsql_blocks p \<and> \<not> postgres_dollar_quoted_routine s \<and>
        starts_with_oracle_plsql_block tokenize (buffer s) then
        (if oracle_plsql_block_is_complete tokenize (buffer s1) then push_current_statement s1 else (s1, []))
      else if supports_hana_do_blocks p \<and> starts_with_hana_do_block tokenize (buffer s) then
        (if hana_do_block_is_complete tokenize (buffer s1) then push_current_statement s1 else (s1, []))
      else push_current_statement s)"

definition match_char ::
    "tokenizer \<Rightarrow> sql_statement_splitter \<Rightarrow> char \<Rightarrow> sql_statement_splitter \<times> sql_statement_with_control list" where
  "match_char tokenize s c =
     (if c = CHR 39 \<and> \<not> in_double_quote s \<and> \<not> in_backtick s \<and> \<not> has_odd_trailing_backslashes (buffer s) then
        ((append_buffer c s)\<lparr>in_single_quote := \<not> in_single_quote s\<rparr>, [])
      else if c = CHR 34 \<and> \<not> in_single_quote s \<and> \<not> in_backtick s \<and> \<not> has_odd_trailing_backslashes (buffer s) then
        ((append_buffer c s)\<lparr>in_double_quote := \<not> in_double_quote s\<rparr>, [])
      else if c = CHR ''`'' \<and> \<not> in_single_quote s \<and> \<not> in_double_quote s then
        ((append_buffer c s)\<lparr>in_backtick := \<not> in_backtick s\<rparr>, [])
      else if c = CHR '';'' \<and> \<not> in_quotes s then semicolon_step tokenize s
      else (append_buffer c s, []))"

text \<open>The commands of a line that has just ended: \<open>None\<close> where the line is none of them.\<close>

definition clear_buffer :: "sql_statement_splitter \<Rightarrow> sql_statement_splitter" where
  "clear_buffer s = s\<lparr>buffer := [], postgres_dollar_quoted_routine := False, previous := None\<rparr>"

definition line_end_step ::
    "sql_statement_splitter \<Rightarrow> (sql_statement_splitter \<times> sql_statement_with_control list) option" where
  "line_end_step s =
     (let p = options s;
          before_line = upto_last_nl (butlast (buffer s));
          last_line = trim (after_last_nl (butlast (buffer s)));
          psql = (if supports_psql_control_commands p then parse_ignorable_psql_control_command last_line else None);
          delim = (if supports_custom_delimiter_commands p then parse_delimiter_command last_line else None)
      in
      if psql \<noteq> None then
        Some ((if psql = Some OnErrorStop then s\<lparr>stop_on_error := True\<rparr> else s)
          \<lparr>buffer := before_line, previous := last_char before_line\<rparr>, [])
      else if supports_slash_line_block_delimiter p \<and> last_line = ''/'' then
        Some (clear_buffer s, emit_statement s (trim before_line))
      else
        (case delim of
           None \<Rightarrow> None
         | Some new_delim \<Rightarrow>
             Some ((clear_buffer s)\<lparr>custom_delimiter := (if new_delim = '';'' then None else Some new_delim)\<rparr>,
               if before_line \<noteq> [] then emit_statement s (trim before_line) else [])))"

definition delimiter_step ::
    "sql_statement_splitter \<Rightarrow> sql_statement_splitter \<times> sql_statement_with_control list" where
  "delimiter_step s =
     (case custom_delimiter s of
        None \<Rightarrow> (s, [])
      | Some delim \<Rightarrow>
          if ends_with (buffer s) delim
          then push_current_statement (s\<lparr>buffer := take (length (buffer s) - length delim) (buffer s)\<rparr>)
          else (s, []))"

definition char_step ::
    "tokenizer \<Rightarrow> sql_statement_splitter \<Rightarrow> char \<Rightarrow> sql_statement_splitter \<times> sql_statement_with_control list" where
  "char_step tokenize s c =
     (let (s1, out1) = match_char tokenize s c in
      if \<not> in_quotes s1 \<and> dollar_quote_tag s1 = None then
        (case (if c = nl then line_end_step s1 else None) of
           Some (s2, out2) \<Rightarrow> (s2, out1 @ out2)
         | None \<Rightarrow> (let (s2, out2) = delimiter_step s1 in (s2\<lparr>previous := Some c\<rparr>, out1 @ out2)))
      else (s1\<lparr>previous := Some c\<rparr>, out1))"

definition splitter_step ::
    "tokenizer \<Rightarrow> sql_statement_splitter \<Rightarrow> char \<Rightarrow> string \<Rightarrow>
       sql_statement_splitter \<times> sql_statement_with_control list \<times> string" where
  "splitter_step tokenize s c cs =
     (case dollar_quote_tag s of
        Some tag \<Rightarrow> (let (s1, rest) = dollar_step tag s (c # cs) in (s1, [], rest))
      | None \<Rightarrow>
          if in_line_comment s then (line_comment_step s c, [], cs)
          else if in_block_comment s then (block_comment_step s c, [], cs)
          else
            (case (if in_quotes s then None else opening_step tokenize s c cs) of
               Some (s1, rest) \<Rightarrow> (s1, [], rest)
             | None \<Rightarrow> (let (s1, out) = char_step tokenize s c in (s1, out, cs))))"

text \<open>A round consumes a character, or it leaves a dollar quote whose tag is empty.\<close>

lemma is_tag_char_intros: "is_ascii_alphabetic c \<Longrightarrow> is_tag_char c" "is_tag_char (CHR ''_'')"
  by (simp_all add: is_tag_char_def)

lemma dollar_quote_tag_at_form:
  assumes "dollar_quote_tag_at cs = Some tag"
  shows "2 \<le> length tag" "set tag \<subseteq> {c. c = CHR ''$'' \<or> is_tag_char c}"
  using assms unfolding dollar_quote_tag_at_def
  by (auto simp: Let_def is_tag_char_intros split: if_splits option.splits dest: set_takeWhileD)

lemma opening_step_consumes:
  assumes "opening_step tokenize s c cs = Some (s1, rest)"
  shows "length rest \<le> length cs"
  using assms unfolding opening_step_def dollar_opening_def
  by (auto split: if_splits option.splits dest!: dollar_quote_tag_at_form(1))

lemma splitter_step_consumes:
  assumes "splitter_step tokenize s c cs = (s1, out, rest)"
  shows "2 * length rest + (if dollar_quote_tag s1 = None then 0 else 1)
    < 2 * length (c # cs) + (if dollar_quote_tag s = None then 0 else 1 :: nat)"
proof (cases "dollar_quote_tag s")
  case None
  then have "length rest \<le> length cs"
    using assms unfolding splitter_step_def
    by (auto split: if_splits option.splits prod.splits dest: opening_step_consumes)
  then show ?thesis by simp
next
  case (Some tag)
  then show ?thesis using assms
    by (cases tag) (auto simp: splitter_step_def dollar_step_def split: if_splits)
qed

section \<open>Chunks\<close>

function push_loop ::
    "tokenizer \<Rightarrow> sql_statement_splitter \<Rightarrow> string \<Rightarrow> sql_statement_splitter \<times> sql_statement_with_control list" where
  "push_loop tokenize s [] = (s, [])"
| "push_loop tokenize s (c # cs) =
     (case splitter_step tokenize s c cs of (s1, out1, rest) \<Rightarrow>
        (case push_loop tokenize s1 rest of (s2, out2) \<Rightarrow> (s2, out1 @ out2)))"
  by pat_completeness auto
termination
proof (relation "measure (\<lambda>(_, s, cs). 2 * length cs + (if dollar_quote_tag s = None then 0 else 1))")
  fix tokenize s c cs s1 y out1 rest
  assume "(s1, y) = splitter_step tokenize s c cs" "(out1, rest) = y"
  then have "splitter_step tokenize s c cs = (s1, out1, rest)" by simp
  from splitter_step_consumes [OF this]
  show "((tokenize, s1, rest), (tokenize, s, c # cs))
      \<in> measure (\<lambda>(_, s, cs). 2 * length cs + (if dollar_quote_tag s = None then 0 else 1))"
    by simp
qed simp

definition settle_pending :: "sql_statement_splitter \<Rightarrow> string \<Rightarrow> sql_statement_splitter" where
  "settle_pending s chunk =
     (if pending_mysql_line_comment_dashes s then
        (case next_char chunk of
           Some first \<Rightarrow> s\<lparr>in_line_comment := dash_dash_starts_line_comment (options s) (Some first),
             pending_mysql_line_comment_dashes := False\<rparr>
         | None \<Rightarrow> s)
      else s)"

definition push_chunk_with_control ::
    "tokenizer \<Rightarrow> sql_statement_splitter \<Rightarrow> string \<Rightarrow> sql_statement_splitter \<times> sql_statement_with_control list" where
  "push_chunk_with_control tokenize s chunk = push_loop tokenize (settle_pending s chunk) chunk"

definition before_last_line :: "string \<Rightarrow> string" where
  "before_last_line trimmed = trim (butlast (upto_last_nl trimmed))"

definition finish_psql :: "sql_statement_splitter \<Rightarrow> sql_statement_splitter" where
  "finish_psql s =
     (case (if supports_psql_control_commands (options s)
            then parse_ignorable_psql_control_command (trim (after_last_nl (trim (buffer s)))) else None) of
        None \<Rightarrow> s
      | Some command \<Rightarrow>
          (if command = OnErrorStop then s\<lparr>stop_on_error := True\<rparr> else s)\<lparr>buffer := upto_last_nl (buffer s)\<rparr>)"

definition finish_with_control :: "sql_statement_splitter \<Rightarrow> sql_statement_with_control list" where
  "finish_with_control s =
     (let s1 = finish_psql
            (if pending_mysql_line_comment_dashes s
             then s\<lparr>in_line_comment := True, pending_mysql_line_comment_dashes := False\<rparr> else s);
          trimmed = trim (buffer s1);
          last_line = trim (after_last_nl trimmed);
          (s2, out) =
            (if supports_custom_delimiter_commands (options s1) \<and> parse_delimiter_command last_line \<noteq> None \<or>
                supports_slash_line_block_delimiter (options s1) \<and> last_line = ''/'' then
               (s1\<lparr>buffer := []\<rparr>, emit_statement s1 (before_last_line trimmed))
             else (case custom_delimiter s1 of
                 None \<Rightarrow> (s1, [])
               | Some delim \<Rightarrow>
                   (if ends_with (buffer s1) delim
                    then s1\<lparr>buffer := take (length (buffer s1) - length delim) (buffer s1)\<rparr> else s1, [])))
      in out @ snd (push_current_statement s2))"

text \<open>A script that arrives in chunks, and one that arrives as a whole.\<close>

fun push_chunks ::
    "tokenizer \<Rightarrow> sql_statement_splitter \<Rightarrow> string list \<Rightarrow> sql_statement_splitter \<times> sql_statement_with_control list" where
  "push_chunks tokenize s [] = (s, [])"
| "push_chunks tokenize s (chunk # chunks) =
     (let (s1, out1) = push_chunk_with_control tokenize s chunk; (s2, out2) = push_chunks tokenize s1 chunks
      in (s2, out1 @ out2))"

definition split_chunks :: "tokenizer \<Rightarrow> sql_dialect_profile \<Rightarrow> string list \<Rightarrow> sql_statement_with_control list" where
  "split_chunks tokenize profile chunks =
     (let (s, out) = push_chunks tokenize (splitter_with_options profile) chunks in out @ finish_with_control s)"

definition split_sql_statements_with_options :: "tokenizer \<Rightarrow> sql_dialect_profile \<Rightarrow> string \<Rightarrow> string list" where
  "split_sql_statements_with_options tokenize profile sql =
     (let (s, out) = push_chunk_with_control tokenize (splitter_with_options profile) sql
      in map statement_sql out @ map statement_sql (finish_with_control s))"

section \<open>What is handed out\<close>

definition statement_ok :: "sql_dialect_profile \<Rightarrow> sql_statement_with_control \<Rightarrow> bool" where
  "statement_ok profile st \<longleftrightarrow>
     trim (statement_sql st) = statement_sql st \<and> has_executable_sql profile (statement_sql st)"

definition run_ok :: "sql_dialect_profile \<Rightarrow> sql_statement_splitter \<times> sql_statement_with_control list \<Rightarrow> bool" where
  "run_ok profile r \<longleftrightarrow> options (fst r) = profile \<and> list_all (statement_ok profile) (snd r)"

lemma emit_statement_ok: "list_all (statement_ok (options s)) (emit_statement s (trim t))"
  by (simp add: emit_statement_def statement_ok_def trim_trim)

lemma push_current_statement_ok [simp]: "run_ok (options s) (push_current_statement s)"
  by (simp add: run_ok_def push_current_statement_def emit_statement_ok)

lemma options_simps [simp]:
  "options (push_char c s) = options s" "options (append_buffer c s) = options s" "options (clear_buffer s) = options s"
  "options (fold push_char cs s) = options s" "options (settle_pending s chunk) = options s"
  "options (finish_psql s) = options s"
proof -
  show "options (fold push_char cs s) = options s"
    by (induction cs arbitrary: s) (simp_all add: push_char_def)
qed (simp_all add: push_char_def append_buffer_def clear_buffer_def settle_pending_def finish_psql_def
  split: option.splits)

lemma semicolon_step_ok: "run_ok (options s) (semicolon_step tokenize s)"
proof -
  have "run_ok (options s) (push_current_statement (append_buffer c s))" for c
    using push_current_statement_ok [of "append_buffer c s"] by simp
  then show ?thesis
    unfolding semicolon_step_def Let_def by (simp add: run_ok_def [of _ "(_, [])"])
qed

lemma match_char_ok: "run_ok (options s) (match_char tokenize s c)"
  unfolding match_char_def by (simp add: semicolon_step_ok run_ok_def [of _ "(_, [])"])

lemma line_end_step_ok: "line_end_step s = Some r \<Longrightarrow> run_ok (options s) r"
  unfolding line_end_step_def Let_def
  by (auto simp: run_ok_def emit_statement_ok split: if_splits option.splits)

lemma delimiter_step_ok: "run_ok (options s) (delimiter_step s)"
proof -
  have "run_ok (options s) (push_current_statement (s\<lparr>buffer := b\<rparr>))" for b
    using push_current_statement_ok [of "s\<lparr>buffer := b\<rparr>"] by simp
  then show ?thesis by (simp add: delimiter_step_def run_ok_def [of _ "(_, [])"] split: option.splits)
qed

lemma char_step_ok: "run_ok (options s) (char_step tokenize s c)"
proof -
  obtain s1 out1 where m: "match_char tokenize s c = (s1, out1)" by fastforce
  obtain s2 out2 where d: "delimiter_step s1 = (s2, out2)" by fastforce
  have ok: "run_ok (options s) (s1, out1)" "run_ok (options s1) (s2, out2)"
    using match_char_ok [of s tokenize c] delimiter_step_ok [of s1] by (simp_all add: m d)
  have "run_ok (options s) (s3, out1 @ out3)" if "line_end_step s1 = Some (s3, out3)" for s3 out3
    using line_end_step_ok [OF that] ok(1) by (simp add: run_ok_def)
  with ok show ?thesis
    unfolding char_step_def m by (simp add: run_ok_def d split: option.splits)
qed

lemma comment_opening_options: "comment_opening s c cs = Some s1 \<Longrightarrow> options s1 = options s"
  unfolding comment_opening_def Let_def by (auto split: if_splits)

lemma opening_step_options: "opening_step tokenize s c cs = Some (s1, rest) \<Longrightarrow> options s1 = options s"
  unfolding opening_step_def dollar_opening_def mark_routine_def
  by (auto split: if_splits option.splits dest: comment_opening_options)

lemma splitter_step_ok:
  assumes "splitter_step tokenize s c cs = (s1, out, rest)"
  shows "run_ok (options s) (s1, out)"
  using assms char_step_ok [of s tokenize c] opening_step_options [of tokenize s c cs]
  unfolding splitter_step_def run_ok_def dollar_step_def line_comment_step_def block_comment_step_def
  by (auto split: prod.splits option.splits if_splits)

lemma push_loop_ok: "run_ok (options s) (push_loop tokenize s cs)"
proof (induction tokenize s cs rule: push_loop.induct)
  case (2 tokenize s c cs)
  obtain s1 out1 rest where step: "splitter_step tokenize s c cs = (s1, out1, rest)" by (metis prod_cases3)
  from 2 [OF step [symmetric] refl] splitter_step_ok [OF step] show ?case
    by (auto simp: step run_ok_def split: prod.splits)
qed (simp add: run_ok_def)

lemma push_chunks_ok: "run_ok (options s) (push_chunks tokenize s chunks)"
proof (induction chunks arbitrary: s)
  case (Cons chunk chunks)
  have "run_ok (options s) (push_chunk_with_control tokenize s chunk)"
    using push_loop_ok [of "settle_pending s chunk"] by (simp add: push_chunk_with_control_def)
  with Cons [of "fst (push_chunk_with_control tokenize s chunk)"] show ?case
    by (auto simp: run_ok_def split: prod.splits)
qed (simp add: run_ok_def)

lemma finish_ok: "list_all (statement_ok (options s)) (finish_with_control s)"
proof -
  have emit: "list_all (statement_ok p) (emit_statement s1 (before_last_line t))"
    "list_all (statement_ok p) (snd (push_current_statement s1))" if "options s1 = p" for s1 p t
    using that emit_statement_ok [of s1] push_current_statement_ok [of s1] by (auto simp: before_last_line_def run_ok_def)
  show ?thesis
    unfolding finish_with_control_def Let_def by (auto intro!: emit split: prod.splits option.splits if_splits)
qed

text \<open>C24: Every statement that the splitter hands out, in any dialect and for any script in any chunks, is
  trimmed and has something to execute: it is neither empty nor made of comments and blanks only.\<close>

theorem statements_well_formed:
  assumes "st \<in> set (split_chunks tokenize profile chunks)"
  shows "trim (statement_sql st) = statement_sql st \<and> has_executable_sql profile (statement_sql st)"
proof -
  obtain s out where run: "push_chunks tokenize (splitter_with_options profile) chunks = (s, out)" by fastforce
  then have "options s = profile" "list_all (statement_ok profile) out"
    using push_chunks_ok [of "splitter_with_options profile" tokenize chunks]
    by (auto simp: run_ok_def splitter_with_options_def)
  with finish_ok [of s] assms run have "statement_ok profile st"
    by (auto simp: split_chunks_def list_all_iff)
  then show ?thesis by (simp add: statement_ok_def)
qed

theorem statements_well_formed_witness:
  "trim ''SELECT 1'' = ''SELECT 1'' \<and> has_executable_sql profile_default ''SELECT 1''"
proof -
  have "\<lparr>statement_sql = ''SELECT 1'', statement_stop_on_error = False\<rparr>
    \<in> set (split_chunks (\<lambda>_. None) profile_default [''/* a; */;SELE'', ''CT 1; --''])"
    by code_simp
  from statements_well_formed [OF this] show ?thesis by simp
qed

section \<open>Chunk boundaries\<close>

text \<open>The tag of a dollar quote has no newline, and a chunk that ends in a newline leaves no dashes pending.\<close>

definition tag_ok :: "sql_statement_splitter \<Rightarrow> bool" where
  "tag_ok s = (case dollar_quote_tag s of None \<Rightarrow> True | Some tag \<Rightarrow> nl \<notin> set tag)"

definition line_shaped :: "string \<Rightarrow> bool" where
  "line_shaped cs \<longleftrightarrow> cs = [] \<or> last cs = nl"

definition settled :: "sql_statement_splitter \<Rightarrow> bool" where
  "settled s \<longleftrightarrow> tag_ok s \<and> \<not> pending_mysql_line_comment_dashes s"

lemma next_char_append: "cs \<noteq> [] \<Longrightarrow> next_char (cs @ b) = next_char cs"
  by (cases cs) (simp_all add: next_char_def)

lemma next_char_drop_append: "\<exists>x\<in>set cs. \<not> p x \<Longrightarrow> next_char (dropWhile p (cs @ b)) = next_char (dropWhile p cs)"
  by (metis dropWhile_append1 dropWhile_eq_Nil_conv next_char_append)

lemma dollar_quote_tag_at_append:
  assumes "nl \<in> set cs"
  shows "dollar_quote_tag_at (cs @ b) = dollar_quote_tag_at cs"
proof (cases cs)
  case (Cons c ds)
  show ?thesis
  proof (cases "c = CHR ''$''")
    case True
    then have ds: "nl \<in> set ds" using assms Cons by auto
    then obtain d es where d: "ds = d # es" by (cases ds) auto
    have nl: "\<not> is_tag_char nl" by (simp add: is_tag_char_def is_ascii_alphabetic_def is_ascii_digit_def code_def)
    have "takeWhile is_tag_char (es @ b) = takeWhile is_tag_char es"
      "next_char (dropWhile is_tag_char (es @ b)) = next_char (dropWhile is_tag_char es)" if "d \<noteq> nl"
    proof -
      have es: "nl \<in> set es" using that ds d by simp
      then show "takeWhile is_tag_char (es @ b) = takeWhile is_tag_char es" using nl by (rule takeWhile_append1)
      show "next_char (dropWhile is_tag_char (es @ b)) = next_char (dropWhile is_tag_char es)"
        using nl es by (intro next_char_drop_append bexI)
    qed
    then show ?thesis
      by (cases "d = nl") (simp_all add: Cons d dollar_quote_tag_at_def next_char_def is_ascii_alphabetic_def code_def)
  qed (simp add: Cons dollar_quote_tag_at_def next_char_def)
qed (use assms in simp)

lemma starts_with_append:
  assumes "nl \<in> set cs" "nl \<notin> set tag"
  shows "starts_with (cs @ b) tag \<longleftrightarrow> starts_with cs tag"
  using assms by (induction cs tag rule: starts_with.induct) auto

lemma starts_with_shorter: "starts_with cs tag \<Longrightarrow> length tag \<le> length cs"
  by (simp add: starts_with_iff prefix_length_le)

lemma line_shaped_tl: "line_shaped (c # cs) \<Longrightarrow> line_shaped cs"
  by (auto simp: line_shaped_def split: if_splits)

lemma line_shaped_drop: "line_shaped cs \<Longrightarrow> line_shaped (drop n cs)"
  by (cases "n < length cs") (auto simp: line_shaped_def last_drop)

lemma line_shaped_nl: "line_shaped (c # cs) \<Longrightarrow> nl \<in> set (c # cs)"
  by (metis line_shaped_def last_in_set list.distinct(1))

lemma next_char_line:
  assumes "line_shaped (c # cs)" "c \<noteq> nl"
  shows "cs \<noteq> []" "next_char (cs @ b) = next_char cs"
  using assms by (auto simp: line_shaped_def next_char_append split: if_splits)

lemma comment_opening_append:
  assumes "line_shaped (c # cs)"
  shows "comment_opening s c (cs @ b) = comment_opening s c cs"
proof (cases "c = nl")
  case False
  then show ?thesis using next_char_line [OF assms] by (simp add: comment_opening_def)
qed (simp add: comment_opening_def)

lemma takeWhile_shorter: "dropWhile p cs = d # ds \<Longrightarrow> length (takeWhile p cs) < length cs"
  by (metis dropWhile_eq_drop drop_eq_Nil list.distinct(1) not_le)

lemma dollar_quote_tag_at_inside: "dollar_quote_tag_at cs = Some tag \<Longrightarrow> length tag \<le> length cs"
  unfolding dollar_quote_tag_at_def
  by (auto simp: Let_def next_char_def split: if_splits option.splits list.splits dest: takeWhile_shorter)

lemma drop_Cons_append: "n \<le> length (c # cs) \<Longrightarrow> drop n (c # cs @ b) = drop n (c # cs) @ b"
  using drop_append [of n "c # cs" b] by simp

lemma dollar_opening_append:
  assumes "line_shaped (c # cs)"
  shows "dollar_opening tokenize s ((c # cs) @ b) =
    map_option (\<lambda>(s1, rest). (s1, rest @ b)) (dollar_opening tokenize s (c # cs))"
proof -
  have tag: "dollar_quote_tag_at ((c # cs) @ b) = dollar_quote_tag_at (c # cs)"
    using line_shaped_nl [OF assms] by (rule dollar_quote_tag_at_append)
  have "drop (length t) (c # cs @ b) = drop (length t) (c # cs) @ b" if "dollar_quote_tag_at (c # cs) = Some t" for t
    using dollar_quote_tag_at_inside [OF that] by (rule drop_Cons_append)
  then show ?thesis
    unfolding dollar_opening_def tag by (auto split: option.splits)
qed

lemma splitter_step_append:
  assumes "line_shaped (c # cs)" "tag_ok s" "splitter_step tokenize s c cs = (s1, out, rest)"
  shows "splitter_step tokenize s c (cs @ b) = (s1, out, rest @ b)"
proof (cases "dollar_quote_tag s")
  case None
  have "opening_step tokenize s c (cs @ b) = map_option (\<lambda>(s1, rest). (s1, rest @ b)) (opening_step tokenize s c cs)"
    using dollar_opening_append [OF assms(1), of tokenize s b] comment_opening_append [OF assms(1), of s b]
    by (simp add: opening_step_def split: option.splits)
  with None assms(3) show ?thesis
    by (auto simp: splitter_step_def split: option.splits prod.splits if_splits)
next
  case (Some tag)
  with assms(2) have "starts_with ((c # cs) @ b) tag \<longleftrightarrow> starts_with (c # cs) tag"
    by (intro starts_with_append line_shaped_nl assms(1)) (simp add: tag_ok_def)
  with Some assms(3) drop_Cons_append [OF starts_with_shorter, of c cs tag b] show ?thesis
    by (auto simp: splitter_step_def dollar_step_def split: if_splits)
qed

lemma settled_simps:
  "dollar_quote_tag (push_char c s) = dollar_quote_tag s"
  "pending_mysql_line_comment_dashes (push_char c s) = pending_mysql_line_comment_dashes s"
  "dollar_quote_tag (fold push_char cs s) = dollar_quote_tag s"
  "pending_mysql_line_comment_dashes (fold push_char cs s) = pending_mysql_line_comment_dashes s"
  "dollar_quote_tag (mark_routine tokenize s) = dollar_quote_tag s"
  "pending_mysql_line_comment_dashes (mark_routine tokenize s) = pending_mysql_line_comment_dashes s"
proof -
  show "dollar_quote_tag (fold push_char cs s) = dollar_quote_tag s"
    by (induction cs arbitrary: s) (simp_all add: push_char_def)
  show "pending_mysql_line_comment_dashes (fold push_char cs s) = pending_mysql_line_comment_dashes s"
    by (induction cs arbitrary: s) (simp_all add: push_char_def)
qed (simp_all add: push_char_def mark_routine_def)

lemma push_current_settled: "settled s \<Longrightarrow> settled (fst (push_current_statement (s\<lparr>buffer := b\<rparr>)))"
  by (simp add: push_current_statement_def settled_def tag_ok_def)

lemma semicolon_step_settled: "settled s \<Longrightarrow> settled (fst (semicolon_step tokenize s))"
  using push_current_settled [of s "buffer s"] push_current_settled [of s "buffer s @ '';''"]
  by (auto simp: semicolon_step_def Let_def append_buffer_def settled_def tag_ok_def)

lemma match_char_settled: "settled s \<Longrightarrow> settled (fst (match_char tokenize s c))"
  using semicolon_step_settled [of s tokenize]
  by (auto simp: match_char_def append_buffer_def settled_def tag_ok_def)

lemma line_end_step_settled: "settled s \<Longrightarrow> line_end_step s = Some (s1, out) \<Longrightarrow> settled s1"
  by (auto simp: line_end_step_def Let_def clear_buffer_def settled_def tag_ok_def split: if_splits option.splits)

lemma delimiter_step_settled: "settled s \<Longrightarrow> settled (fst (delimiter_step s))"
  by (auto simp: delimiter_step_def push_current_settled split: option.splits)

lemma char_step_settled:
  assumes "settled s"
  shows "settled (fst (char_step tokenize s c))"
proof -
  obtain s1 out1 where m: "match_char tokenize s c = (s1, out1)" by fastforce
  obtain s2 out2 where d: "delimiter_step s1 = (s2, out2)" by fastforce
  have "settled s1" "settled s2"
    using match_char_settled [OF assms, of tokenize c] delimiter_step_settled [of s1] by (simp_all add: m d)
  moreover from this have "settled (s1\<lparr>previous := Some c\<rparr>)" "settled (s2\<lparr>previous := Some c\<rparr>)"
    by (simp_all add: settled_def tag_ok_def)
  ultimately show ?thesis
    unfolding char_step_def m using line_end_step_settled [of s1] by (auto simp: d split: option.splits)
qed

lemma opening_step_settled:
  assumes "settled s" "line_shaped (c # cs)" "opening_step tokenize s c cs = Some (s1, rest)"
  shows "settled s1"
proof (cases "comment_opening s c cs")
  case (Some s')
  then show ?thesis using assms
    by (auto simp: opening_step_def comment_opening_def Let_def settled_def tag_ok_def settled_simps line_shaped_def
      split: if_splits)
next
  case None
  then obtain tag where "dollar_quote_tag_at (c # cs) = Some tag"
    "s1 = (fold push_char tag (mark_routine tokenize s))\<lparr>dollar_quote_tag := Some tag\<rparr>"
    using assms(3) by (auto simp: opening_step_def dollar_opening_def split: if_splits option.splits)
  then show ?thesis
    using assms(1) dollar_quote_tag_at_form(2) [of "c # cs" tag]
    by (auto simp: settled_def tag_ok_def settled_simps is_tag_char_def is_ascii_alphabetic_def is_ascii_digit_def
      code_def)
qed

lemma splitter_step_settled:
  assumes "settled s" "line_shaped (c # cs)" "splitter_step tokenize s c cs = (s1, out, rest)"
  shows "settled s1 \<and> line_shaped rest"
proof (cases "dollar_quote_tag s")
  case (Some tag)
  then show ?thesis using assms line_shaped_drop [OF assms(2), of "length tag"] line_shaped_tl [OF assms(2)]
    by (auto simp: splitter_step_def dollar_step_def settled_def tag_ok_def settled_simps split: if_splits)
next
  case None
  have rest: "line_shaped rest" if "opening_step tokenize s c cs = Some (s1, rest)" for s1 rest
    using that line_shaped_drop [OF assms(2)] line_shaped_tl [OF assms(2)]
    by (auto simp: opening_step_def dollar_opening_def split: if_splits option.splits)
  have "settled (line_comment_step s c)" "settled (block_comment_step s c)"
    using assms(1) by (simp_all add: line_comment_step_def block_comment_step_def settled_def tag_ok_def settled_simps)
  with None show ?thesis
    using assms(3) char_step_settled [OF assms(1), of tokenize c] opening_step_settled [OF assms(1,2)] rest
      line_shaped_tl [OF assms(2)]
    by (auto simp: splitter_step_def split: if_splits option.splits prod.splits)
qed

lemma push_loop_append:
  assumes "settled s" "line_shaped a" "push_loop tokenize s a = (s1, out1)"
  shows "push_loop tokenize s (a @ b) = (case push_loop tokenize s1 b of (s2, out2) \<Rightarrow> (s2, out1 @ out2))"
    and "settled s1"
  using assms
proof (induction tokenize s a arbitrary: s1 out1 rule: push_loop.induct)
  case (2 tokenize s c cs)
  {
    case 1
    obtain s2 out2 rest where step: "splitter_step tokenize s c cs = (s2, out2, rest)" by (metis prod_cases3)
    obtain s3 out3 where loop: "push_loop tokenize s2 rest = (s3, out3)" by fastforce
    have eq: "s3 = s1" "out1 = out2 @ out3" using 1(3) by (simp_all add: step loop)
    have ok: "settled s2" "line_shaped rest" using splitter_step_settled [OF 1(1,2) step] by simp_all
    have "splitter_step tokenize s c (cs @ b) = (s2, out2, rest @ b)"
      using 1(1,2) step by (intro splitter_step_append) (simp_all add: settled_def)
    with "2.IH"(1) [OF step [symmetric] refl ok loop] show ?case by (simp add: eq split: prod.splits)
  next
    case 2
    obtain s2 out2 rest where step: "splitter_step tokenize s c cs = (s2, out2, rest)" by (metis prod_cases3)
    obtain s3 out3 where loop: "push_loop tokenize s2 rest = (s3, out3)" by fastforce
    have eq: "s3 = s1" using 2(3) by (simp add: step loop)
    have ok: "settled s2" "line_shaped rest" using splitter_step_settled [OF 2(1,2) step] by simp_all
    show ?case using "2.IH"(2) [OF step [symmetric] refl ok loop] by (simp add: eq)
  }
qed simp_all

lemma push_chunk_settled: "settled s \<Longrightarrow> push_chunk_with_control tokenize s chunk = push_loop tokenize s chunk"
  by (simp add: push_chunk_with_control_def settle_pending_def settled_def)

lemma push_chunks_lines:
  assumes "settled s" "\<forall>chunk\<in>set chunks. line_shaped chunk"
  shows "push_chunks tokenize s (chunks @ [rest]) = push_loop tokenize s (concat chunks @ rest)"
  using assms
proof (induction chunks arbitrary: s)
  case (Cons chunk chunks)
  obtain s1 out1 where run: "push_loop tokenize s chunk = (s1, out1)" by fastforce
  note append = push_loop_append [OF Cons.prems(1) _ run]
  from Cons append(1) [of "concat chunks @ rest"] append(2) show ?case
    by (simp add: push_chunk_settled run)
qed (simp add: push_chunk_settled split: prod.splits)

lemma splitter_with_options_settled: "settled (splitter_with_options profile)"
  by (simp add: splitter_with_options_def settled_def tag_ok_def)

text \<open>C5: Where a script is cut into chunks right after newlines, in any dialect, the statements are the
  ones of the script as a whole: comments, quotes, dollar quotes, routine bodies and delimiter
  commands may all be open at the boundary.\<close>

theorem newline_chunks_invisible:
  assumes "\<forall>chunk\<in>set chunks. chunk = [] \<or> last chunk = nl"
  shows "split_chunks tokenize profile (chunks @ [rest]) = split_chunks tokenize profile [concat chunks @ rest]"
  using push_chunks_lines [OF splitter_with_options_settled, of chunks] push_chunks_lines [OF splitter_with_options_settled, of "[]"]
    assms
  by (simp add: split_chunks_def line_shaped_def)

theorem newline_chunks_invisible_witness:
  "split_chunks (\<lambda>_. None) profile_default ([''SELECT $a$ ;'' @ [nl], ''; --'' @ [nl]] @ ['' $a$;SELECT 2'']) =
   split_chunks (\<lambda>_. None) profile_default [concat [''SELECT $a$ ;'' @ [nl], ''; --'' @ [nl]] @ '' $a$;SELECT 2'']"
  by (rule newline_chunks_invisible) simp

text \<open>Other boundaries are observable: cut inside the tag of a dollar quote, the opening is not seen and the
  semicolons of the body cut the statement.\<close>

lemma cut_dollar_tag_splits_body:
  "map statement_sql (split_chunks (\<lambda>_. None) profile_default [''DO $$a;b$$;'']) = [''DO $$a;b$$'']"
  "map statement_sql (split_chunks (\<lambda>_. None) profile_default [''DO $'', ''$a;b$$;'']) = [''DO $$a'', ''b$$;'']"
  by code_simp+

text \<open>A line that merely starts with the letters of the delimiter command keeps the semicolons on it, so
  the statements are joined.\<close>

lemma delimiter_prefix_joins_statements:
  "split_sql_statements_with_options (\<lambda>_. None) profile_default (''SELECT'' @ [nl] @ ''delimiter_id;DROP x;'') =
   [''SELECT'' @ [nl] @ ''delimiter_id;DROP x;'']"
  by code_simp

text \<open>The slash that follows the opening of a block comment closes it, so that the text of the comment is
  read as a statement.\<close>

lemma slash_star_slash_closes_comment:
  "split_sql_statements_with_options (\<lambda>_. None) profile_default ''/*/ DROP x; */'' = [''/*/ DROP x'', ''*/'']"
  by code_simp

section \<open>Printed statements\<close>

text \<open>
  A statement as a list of pieces: single characters outside of quotes and comments, quoted texts,
  line comments and block comments. The statements of a script are printed one after the other, each
  with its semicolon and a newline.
\<close>

datatype piece = Raw char | Quoted char string | LineComment string | BlockComment string

fun print_piece :: "piece \<Rightarrow> string" where
  "print_piece (Raw c) = [c]"
| "print_piece (Quoted q t) = q # t @ [q]"
| "print_piece (LineComment t) = ''--'' @ t @ [nl]"
| "print_piece (BlockComment t) = ''/*'' @ t @ ''*/''"

definition print_pieces :: "piece list \<Rightarrow> string" where
  "print_pieces ps = concat (map print_piece ps)"

definition print_script :: "piece list list \<Rightarrow> string" where
  "print_script stmts = concat (map (\<lambda>ps. print_pieces ps @ '';'' @ [nl]) stmts)"

text \<open>
  A single character is none that opens a quote, ends a statement, escapes or may start a dollar quote.
  A quoted text does not hold its quote nor end in a backslash, and comments do not hold their end;
  the star of the opening counts, as in \<open>/*/\<close>.
\<close>

fun piece_ok :: "piece \<Rightarrow> bool" where
  "piece_ok (Raw c) \<longleftrightarrow> c \<notin> {CHR 39, CHR 34, CHR ''`'', CHR '';'', CHR ''$'', CHR 92}"
| "piece_ok (Quoted q t) \<longleftrightarrow> q \<in> {CHR 39, CHR 34, CHR ''`''} \<and> q \<notin> set t \<and> (t = [] \<or> last t \<noteq> CHR 92)"
| "piece_ok (LineComment t) \<longleftrightarrow> nl \<notin> set t"
| "piece_ok (BlockComment t) \<longleftrightarrow> \<not> sublist ''*/'' (CHR ''*'' # t)"

text \<open>Two dashes, and a slash before a star, would open a comment where two pieces meet.\<close>

definition apart :: "char option \<Rightarrow> char \<Rightarrow> bool" where
  "apart prev c \<longleftrightarrow> \<not> (prev = Some (CHR ''-'') \<and> c = CHR ''-'') \<and> \<not> (prev = Some (CHR ''/'') \<and> c = CHR ''*'')"

fun pieces_ok :: "char option \<Rightarrow> piece list \<Rightarrow> bool" where
  "pieces_ok prev [] = True"
| "pieces_ok prev (p # ps) \<longleftrightarrow> piece_ok p \<and> apart prev (hd (print_piece p)) \<and> pieces_ok (Some (last (print_piece p))) ps"

definition lines_ok :: "string \<Rightarrow> bool" where
  "lines_ok t = list_all (\<lambda>line. \<not> eq_ignore_ascii_case (take 9 (trim_start line)) ''delimiter'') (split_char nl t)"

definition statement_pieces_ok :: "piece list \<Rightarrow> bool" where
  "statement_pieces_ok ps \<longleftrightarrow>
     pieces_ok None ps \<and> has_executable_sql profile_default (trim (print_pieces ps)) \<and> lines_ok (print_pieces ps)"

text \<open>The state between two pieces.\<close>

definition plain_state :: "string \<Rightarrow> char option \<Rightarrow> sql_statement_splitter" where
  "plain_state b prev = (splitter_with_options profile_default)\<lparr>buffer := b, previous := prev\<rparr>"

definition quoted_state :: "char \<Rightarrow> string \<Rightarrow> char option \<Rightarrow> sql_statement_splitter" where
  "quoted_state q b prev = (plain_state b prev)
     \<lparr>in_single_quote := (q = CHR 39), in_double_quote := (q = CHR 34), in_backtick := (q = CHR ''`'')\<rparr>"

lemmas state_defs = plain_state_def quoted_state_def splitter_with_options_def

lemma profile_default_fields [simp]:
  "\<not> supports_hash_line_comments profile_default" "\<not> supports_oracle_plsql_blocks profile_default"
  "\<not> supports_slash_line_block_delimiter profile_default"
  "supports_custom_delimiter_commands profile_default" "\<not> supports_mysql_routine_blocks profile_default"
  "supports_dollar_quoted_strings profile_default" "\<not> supports_hana_do_blocks profile_default"
  "\<not> requires_whitespace_after_line_comment_dashes profile_default"
  "\<not> supports_psql_control_commands profile_default"
  by (simp_all add: profile_default_def)

definition comment_state :: "bool \<Rightarrow> string \<Rightarrow> char option \<Rightarrow> sql_statement_splitter" where
  "comment_state block b prev = (plain_state b prev)\<lparr>in_line_comment := \<not> block, in_block_comment := block\<rparr>"

lemma state_fields [simp]:
  "buffer (plain_state b p) = b" "previous (plain_state b p) = p"
  "options (plain_state b p) = profile_default" "dollar_quote_tag (plain_state b p) = None"
  "custom_delimiter (plain_state b p) = None" "in_line_comment (plain_state b p) = False"
  "in_block_comment (plain_state b p) = False" "postgres_dollar_quoted_routine (plain_state b p) = False"
  "pending_mysql_line_comment_dashes (plain_state b p) = False" "stop_on_error (plain_state b p) = False"
  "buffer (quoted_state q b p) = b" "previous (quoted_state q b p) = p"
  "options (quoted_state q b p) = profile_default" "dollar_quote_tag (quoted_state q b p) = None"
  "custom_delimiter (quoted_state q b p) = None" "in_line_comment (quoted_state q b p) = False"
  "in_block_comment (quoted_state q b p) = False"
  "postgres_dollar_quoted_routine (quoted_state q b p) = False"
  "pending_mysql_line_comment_dashes (quoted_state q b p) = False"
  "stop_on_error (quoted_state q b p) = False" "in_single_quote (plain_state b p) = False"
  "in_double_quote (plain_state b p) = False" "in_backtick (plain_state b p) = False"
  "in_single_quote (quoted_state q b p) = (q = CHR 39)" "in_double_quote (quoted_state q b p) = (q = CHR 34)"
  "in_backtick (quoted_state q b p) = (q = CHR ''`'')"
  "(plain_state b p)\<lparr>previous := p'\<rparr> = plain_state b p'"
  "(quoted_state q b p)\<lparr>previous := p'\<rparr> = quoted_state q b p'"
  "append_buffer c (plain_state b p) = plain_state (b @ [c]) p"
  "append_buffer c (quoted_state q b p) = quoted_state q (b @ [c]) p"
  by (simp_all add: state_defs append_buffer_def)

lemma comment_fields [simp]:
  "dollar_quote_tag (comment_state block b p) = None" "in_line_comment (comment_state block b p) = (\<not> block)"
  "in_block_comment (comment_state block b p) = block" "previous (comment_state block b p) = p"
  "(push_char c (plain_state b p))\<lparr>in_line_comment := True\<rparr> = comment_state False (b @ [c]) (Some c)"
  "(push_char c (plain_state b p))\<lparr>in_block_comment := True\<rparr> = comment_state True (b @ [c]) (Some c)"
  "(push_char c (comment_state False b p))\<lparr>in_line_comment := True\<rparr> = comment_state False (b @ [c]) (Some c)"
  "(push_char c (comment_state False b p))\<lparr>in_line_comment := False\<rparr> = plain_state (b @ [c]) (Some c)"
  "(push_char c (comment_state True b p))\<lparr>in_block_comment := True\<rparr> = comment_state True (b @ [c]) (Some c)"
  "(push_char c (comment_state True b p))\<lparr>in_block_comment := False\<rparr> = plain_state (b @ [c]) (Some c)"
  by (simp_all add: state_defs comment_state_def push_char_def)

lemma no_trailing_backslash: "b = [] \<or> last b \<noteq> CHR 92 \<Longrightarrow> \<not> has_odd_trailing_backslashes b"
  by (cases b rule: rev_cases) (auto simp: has_odd_trailing_backslashes_def)

lemma after_last_nl_simps:
  assumes "nl \<notin> set y"
  shows "after_last_nl y = y" "after_last_nl (x @ nl # y) = y"
proof -
  have y: "takeWhile (\<lambda>c. c \<noteq> nl) (rev y) = rev y" using assms by (intro takeWhile_eq_all_conv [THEN iffD2]) auto
  show "after_last_nl y = y" unfolding after_last_nl_def y by simp
  have "takeWhile (\<lambda>c. c \<noteq> nl) (rev y @ nl # rev x) = rev y" using takeWhile_tail [of "\<lambda>c. c \<noteq> nl" nl "rev y"] y by metis
  then show "after_last_nl (x @ nl # y) = y"
    unfolding after_last_nl_def by (simp only: rev_append rev.simps append_assoc append.simps rev_rev_ident)
qed

lemma after_last_nl_line:
  "after_last_nl b \<in> set (split_char nl b)" "after_last_nl b \<in> set (split_char nl (b @ nl # t))"
proof -
  show "after_last_nl b \<in> set (split_char nl b)"
  proof (cases "nl \<in> set b")
    case True
    then obtain x y where "b = x @ nl # y" "nl \<notin> set y" by (metis split_list_last)
    then show ?thesis by (simp add: after_last_nl_simps split_char_append split_char_no_sep)
  next
    case False
    then show ?thesis by (simp add: after_last_nl_simps split_char_no_sep)
  qed
  then show "after_last_nl b \<in> set (split_char nl (b @ nl # t))" by (simp add: split_char_append)
qed

lemma lines_ok_commands:
  assumes "\<not> eq_ignore_ascii_case (take 9 (trim_start line)) ''delimiter''"
  shows "parse_delimiter_command (trim line) = None"
proof (rule ccontr)
  assume "parse_delimiter_command (trim line) \<noteq> None"
  then have ten: "eq_ignore_ascii_case (take 10 (trim line)) ''delimiter '' \<or>
      eq_ignore_ascii_case (take 10 (trim line)) (''delimiter'' @ [CHR 9])"
    by (auto simp: parse_delimiter_command_def split: if_splits)
  then have lower: "take 9 (to_ascii_lowercase (take 10 (trim line))) = take 9 (to_ascii_lowercase ''delimiter '')"
    and len: "10 \<le> length (trim line)"
    by (auto simp: eq_ignore_ascii_case_def to_ascii_lowercase_def dest: arg_cong [where f = length])
  have "prefix (trim line) (trim_start line)"
    unfolding trim_def trim_start_def by (metis prefixI rev_append rev_rev_ident takeWhile_dropWhile_id)
  then have "take 9 (trim line) = take 9 (trim_start line)"
    using len by (auto simp: prefix_def)
  moreover have "to_ascii_lowercase (take 9 (trim line)) = to_ascii_lowercase ''delimiter''"
    using lower by (simp add: to_ascii_lowercase_def take_map)
  ultimately show False using assms by (simp add: eq_ignore_ascii_case_def)
qed

lemma plain_opening:
  assumes "apart prev c" "c \<noteq> CHR ''$''" "c = CHR ''/'' \<Longrightarrow> next_char cs \<noteq> Some (CHR ''*'')"
  shows "opening_step tokenize (plain_state b prev) c cs = None"
  using assms
  by (auto simp: opening_step_def comment_opening_def dollar_opening_def dollar_quote_tag_at_def next_char_def apart_def)

lemma plain_step:
  assumes "apart prev c" "c \<noteq> CHR ''$''" "c = CHR ''/'' \<Longrightarrow> next_char cs \<noteq> Some (CHR ''*'')"
  shows "splitter_step tokenize (plain_state b prev) c cs =
    (let (s1, out) = char_step tokenize (plain_state b prev) c in (s1, out, cs))"
  by (simp add: splitter_step_def plain_opening [OF assms])

lemma raw_step:
  assumes "piece_ok (Raw c)" "apart prev c" "c = CHR ''/'' \<Longrightarrow> next_char cs \<noteq> Some (CHR ''*'')"
    "c = nl \<Longrightarrow> parse_delimiter_command (trim (after_last_nl b)) = None"
  shows "push_loop tokenize (plain_state b prev) (c # cs) = push_loop tokenize (plain_state (b @ [c]) (Some c)) cs"
proof -
  have "match_char tokenize (plain_state b prev) c = (plain_state (b @ [c]) prev, [])"
    using assms(1) by (simp add: match_char_def)
  moreover have "line_end_step (plain_state (b @ [c]) prev) = None" if "c = nl"
    using assms(4) that by (simp add: line_end_step_def)
  ultimately have "char_step tokenize (plain_state b prev) c = (plain_state (b @ [c]) (Some c), [])"
    by (simp add: char_step_def in_quotes_def delimiter_step_def)
  then show ?thesis using assms(1) by (simp add: plain_step [OF assms(2) _ assms(3)] split: prod.splits)
qed

text \<open>Comments.\<close>

lemma line_comment_run:
  assumes "nl \<notin> set t"
  shows "push_loop tokenize (comment_state False b prev) (t @ nl # cs) = push_loop tokenize (plain_state (b @ t @ [nl]) (Some nl)) cs"
  using assms
proof (induction t arbitrary: b prev)
  case Nil
  show ?case by (simp add: splitter_step_def line_comment_step_def split: prod.splits)
next
  case (Cons c t)
  then have "c \<noteq> nl" by auto
  then have "splitter_step tokenize (comment_state False b prev) c (t @ nl # cs) =
      (comment_state False (b @ [c]) (Some c), [], t @ nl # cs)"
    by (simp add: splitter_step_def line_comment_step_def)
  with Cons show ?case by (simp split: prod.splits)
qed

lemma block_comment_run:
  assumes "\<not> sublist ''*/'' (prev # t)"
  shows "push_loop tokenize (comment_state True b (Some prev)) (t @ ''*/'' @ cs) =
    push_loop tokenize (plain_state (b @ t @ ''*/'') (Some (CHR ''/''))) cs"
  using assms
proof (induction t arbitrary: b prev)
  case Nil
  show ?case by (simp add: splitter_step_def block_comment_step_def split: prod.splits)
next
  case (Cons c t)
  have "\<not> (prev = CHR ''*'' \<and> c = CHR ''/'')"
  proof
    assume "prev = CHR ''*'' \<and> c = CHR ''/''"
    then have "prev # c # t = [] @ ''*/'' @ t" by simp
    then show False using Cons.prems by (metis sublist_appendI)
  qed
  moreover have "\<not> sublist ''*/'' (c # t)" using Cons.prems by (metis sublist_Cons_right)
  ultimately show ?case
    using Cons.IH [of c "b @ [c]"] by (simp add: splitter_step_def block_comment_step_def split: prod.splits)
qed

lemma line_comment_piece:
  assumes "piece_ok (LineComment t)" "apart prev (CHR ''-'')"
  shows "push_loop tokenize (plain_state b prev) (print_piece (LineComment t) @ cs) =
    push_loop tokenize (plain_state (b @ print_piece (LineComment t)) (Some nl)) cs"
proof -
  have "splitter_step tokenize (plain_state (b @ ''-'') (Some (CHR ''-''))) (CHR ''-'') ds =
      (comment_state False (b @ ''--'') (Some (CHR ''-'')), [], ds)" for ds
    by (simp add: splitter_step_def in_quotes_def opening_step_def comment_opening_def dash_dash_starts_line_comment_def)
  then show ?thesis
    using raw_step [of "CHR ''-''" prev "CHR ''-'' # t @ nl # cs" b tokenize] assms
      line_comment_run [of t tokenize "b @ ''--''" "Some (CHR ''-'')" cs]
    by (simp split: prod.splits)
qed

lemma block_comment_piece:
  assumes "piece_ok (BlockComment t)" "apart prev (CHR ''/'')"
  shows "push_loop tokenize (plain_state b prev) (print_piece (BlockComment t) @ cs) =
    push_loop tokenize (plain_state (b @ print_piece (BlockComment t)) (Some (CHR ''/''))) cs"
proof -
  have "splitter_step tokenize (plain_state b prev) (CHR ''/'') (CHR ''*'' # ds) =
      (comment_state True (b @ ''/'') (Some (CHR ''/'')), [], CHR ''*'' # ds)" for ds
    by (simp add: splitter_step_def in_quotes_def opening_step_def comment_opening_def next_char_def)
  moreover have "splitter_step tokenize (comment_state True (b @ ''/'') (Some (CHR ''/''))) (CHR ''*'') ds =
      (comment_state True (b @ ''/*'') (Some (CHR ''*'')), [], ds)" for ds
    by (simp add: splitter_step_def block_comment_step_def)
  ultimately show ?thesis
    using block_comment_run [of "CHR ''*''" t tokenize "b @ ''/*''" cs] assms(1) by (simp split: prod.splits)
qed

text \<open>Quotes.\<close>

lemma quoted_chars:
  assumes "q \<in> {CHR 39, CHR 34, CHR ''`''}" "q \<notin> set t"
  shows "push_loop tokenize (quoted_state q b prev) (t @ cs) =
    push_loop tokenize (quoted_state q (b @ t) (if t = [] then prev else Some (last t))) cs"
  using assms(2)
proof (induction t arbitrary: b prev)
  case (Cons c t)
  have quotes: "in_quotes (quoted_state q b prev)" for b prev using assms(1) by (auto simp: in_quotes_def)
  have "match_char tokenize (quoted_state q b prev) c = (quoted_state q (b @ [c]) prev, [])"
    using assms(1) Cons.prems by (auto simp: match_char_def in_quotes_def)
  then have "splitter_step tokenize (quoted_state q b prev) c (t @ cs) = (quoted_state q (b @ [c]) (Some c), [], t @ cs)"
    by (simp add: splitter_step_def char_step_def quotes)
  with Cons show ?case by (simp split: prod.splits)
qed (simp split: prod.splits)

lemma quote_toggles:
  assumes "q \<in> {CHR 39, CHR 34, CHR ''`''}" "b = [] \<or> last b \<noteq> CHR 92"
  shows "match_char tokenize (plain_state b prev) q = (quoted_state q (b @ [q]) prev, [])"
    "match_char tokenize (quoted_state q b prev) q = (plain_state (b @ [q]) prev, [])"
  using assms(1) no_trailing_backslash [OF assms(2)] by (auto simp: match_char_def state_defs append_buffer_def)

lemma quoted_run:
  assumes "piece_ok (Quoted q t)" "b = [] \<or> last b \<noteq> CHR 92"
  shows "push_loop tokenize (plain_state b prev) (print_piece (Quoted q t) @ cs) =
    push_loop tokenize (plain_state (b @ print_piece (Quoted q t)) (Some q)) cs"
proof -
  have q: "q \<in> {CHR 39, CHR 34, CHR ''`''}" "q \<notin> set t" using assms(1) by auto
  have quotes: "in_quotes (quoted_state q d p)" for d p using q(1) by (auto simp: in_quotes_def)
  have "char_step tokenize (plain_state b prev) q = (quoted_state q (b @ [q]) (Some q), [])"
    by (simp add: char_step_def quote_toggles(1) [OF q(1) assms(2)] quotes)
  moreover have "q \<noteq> CHR ''$''" "q \<noteq> CHR ''/''" "apart prev q" using q(1) by (auto simp: apart_def)
  ultimately have opens:
    "push_loop tokenize (plain_state b prev) (q # ds) = push_loop tokenize (quoted_state q (b @ [q]) (Some q)) ds" for ds
    by (simp add: plain_step split: prod.splits)
  have closes: "push_loop tokenize (quoted_state q d p) (q # cs) = push_loop tokenize (plain_state (d @ [q]) (Some q)) cs"
    if "d = [] \<or> last d \<noteq> CHR 92" for d p
  proof -
    have "q \<noteq> nl" using q(1) by auto
    then have "char_step tokenize (quoted_state q d p) q = (plain_state (d @ [q]) (Some q), [])"
      by (simp add: char_step_def quote_toggles(2) [OF q(1) that] in_quotes_def [of "plain_state _ _"] delimiter_step_def)
    then show ?thesis by (simp add: splitter_step_def quotes split: prod.splits)
  qed
  have "last (b @ q # t) \<noteq> CHR 92" using assms(1) q by auto
  from closes [OF disjI2 [OF this]] show ?thesis by (simp add: opens quoted_chars [OF q(1,2)] del: push_loop.simps)
qed

text \<open>The pieces of a statement, one after the other.\<close>

lemma piece_run:
  assumes "piece_ok p" "apart prev (hd (print_piece p))" "b = [] \<or> last b \<noteq> CHR 92"
    and "p = Raw (CHR ''/'') \<Longrightarrow> next_char cs \<noteq> Some (CHR ''*'')"
    and "p = Raw nl \<Longrightarrow> parse_delimiter_command (trim (after_last_nl b)) = None"
  shows "push_loop tokenize (plain_state b prev) (print_piece p @ cs) =
    push_loop tokenize (plain_state (b @ print_piece p) (Some (last (print_piece p)))) cs"
proof (cases p)
  case (Raw c)
  then show ?thesis using raw_step [of c prev cs b tokenize] assms by (simp del: push_loop.simps)
next
  case (Quoted q t)
  then show ?thesis using quoted_run [of q t b tokenize prev cs] assms(1,3) by (simp del: push_loop.simps)
next
  case (LineComment t)
  then show ?thesis using line_comment_piece [of t prev tokenize b cs] assms(1,2) by (simp del: push_loop.simps)
next
  case (BlockComment t)
  then show ?thesis using block_comment_piece [of t prev tokenize b cs] assms(1,2) by (simp del: push_loop.simps)
qed

lemma next_of_pieces:
  assumes "pieces_ok (Some (CHR ''/'')) ps" "next_char cs \<noteq> Some (CHR ''*'')"
  shows "next_char (print_pieces ps @ cs) \<noteq> Some (CHR ''*'')"
proof (cases ps)
  case (Cons p qs)
  then have "apart (Some (CHR ''/'')) (hd (print_piece p))" using assms(1) by simp
  then show ?thesis by (cases p) (auto simp: Cons print_pieces_def next_char_def apart_def)
qed (use assms in \<open>simp add: print_pieces_def\<close>)

lemma pieces_run:
  assumes "pieces_ok prev ps" "b = [] \<or> last b \<noteq> CHR 92" "lines_ok (b @ print_pieces ps)"
  obtains prev' where "\<And>cs. next_char cs \<noteq> Some (CHR ''*'') \<Longrightarrow>
    push_loop tokenize (plain_state b prev) (print_pieces ps @ cs) =
      push_loop tokenize (plain_state (b @ print_pieces ps) prev') cs"
  using assms
proof (induction ps arbitrary: b prev thesis)
  case Nil
  show ?case by (rule Nil(1) [of prev]) (simp add: print_pieces_def)
next
  case (Cons p ps)
  let ?b = "b @ print_piece p" and ?prev = "Some (last (print_piece p))"
  have print: "print_pieces (p # ps) = print_piece p @ print_pieces ps" by (simp add: print_pieces_def)
  have "?b = [] \<or> last ?b \<noteq> CHR 92" using Cons.prems(2) by (cases p) auto
  moreover have "lines_ok (?b @ print_pieces ps)" using Cons.prems(4) by (simp add: print)
  ultimately obtain prev' where prev': "\<And>cs. next_char cs \<noteq> Some (CHR ''*'') \<Longrightarrow>
      push_loop tokenize (plain_state ?b ?prev) (print_pieces ps @ cs) =
        push_loop tokenize (plain_state (?b @ print_pieces ps) prev') cs"
    using Cons.IH [where b = ?b and prev = ?prev] Cons.prems(2) by auto
  have "parse_delimiter_command (trim (after_last_nl b)) = None" if "p = Raw nl"
    using Cons.prems(4) [unfolded print] that after_last_nl_line(2) [of b "print_pieces ps"]
    by (intro lines_ok_commands) (auto simp: lines_ok_def list_all_iff)
  moreover have "next_char (print_pieces ps @ cs) \<noteq> Some (CHR ''*'')"
    if "p = Raw (CHR ''/'')" "next_char cs \<noteq> Some (CHR ''*'')" for cs
    using next_of_pieces [of ps cs] that Cons.prems(2) by simp
  ultimately have "push_loop tokenize (plain_state b prev) (print_piece p @ print_pieces ps @ cs) =
      push_loop tokenize (plain_state ?b ?prev) (print_pieces ps @ cs)" if "next_char cs \<noteq> Some (CHR ''*'')" for cs
    using piece_run [of p prev b "print_pieces ps @ cs" tokenize] Cons.prems(2,3) that by simp
  with prev' show ?case by (intro Cons.prems(1) [of prev']) (simp add: print)
qed

lemma trim_newlines: "set b \<subseteq> {nl} \<Longrightarrow> trim (b @ t) = trim t"
proof -
  assume b: "set b \<subseteq> {nl}"
  have "is_whitespace nl" by (simp add: is_whitespace_def code_def)
  with b have "dropWhile is_whitespace (b @ t) = dropWhile is_whitespace t" by (intro dropWhile_append2) auto
  then show ?thesis by (simp add: trim_def)
qed

lemma lines_ok_newlines: "set b \<subseteq> {nl} \<Longrightarrow> lines_ok t \<Longrightarrow> lines_ok (b @ t)"
proof (induction b)
  case (Cons c b)
  then show ?case
    by (auto simp: lines_ok_def trim_start_def eq_ignore_ascii_case_def to_ascii_lowercase_def)
qed simp

lemma statement_run:
  assumes "statement_pieces_ok ps" "set b \<subseteq> {nl}" "prev \<in> {None, Some nl}"
  shows "push_loop tokenize (plain_state b prev) (print_pieces ps @ '';'' @ [nl] @ cs) =
    (case push_loop tokenize (plain_state [nl] (Some nl)) cs of (s, out) \<Rightarrow>
       (s, \<lparr>statement_sql = trim (print_pieces ps), statement_stop_on_error = False\<rparr> # out))"
proof -
  let ?b = "b @ print_pieces ps" and ?out = "[\<lparr>statement_sql = trim (print_pieces ps), statement_stop_on_error = False\<rparr>]"
  have "pieces_ok prev ps" using assms(1,3) by (cases ps) (auto simp: statement_pieces_ok_def apart_def)
  moreover have "b = [] \<or> last b \<noteq> CHR 92" using assms(2) by (cases b rule: rev_cases) auto
  moreover have lines: "lines_ok ?b" using assms(1,2) lines_ok_newlines by (simp add: statement_pieces_ok_def)
  ultimately obtain prev' where prev': "\<And>cs. next_char cs \<noteq> Some (CHR ''*'') \<Longrightarrow>
      push_loop tokenize (plain_state b prev) (print_pieces ps @ cs) = push_loop tokenize (plain_state ?b prev') cs"
    using pieces_run by metis
  have line: "\<not> on_delimiter_line (plain_state ?b prev')"
    using lines after_last_nl_line(1) [of ?b] by (auto simp: on_delimiter_line_def lines_ok_def list_all_iff Let_def)
  have "semicolon_step tokenize (plain_state ?b prev') = (plain_state [] None, ?out)"
    using line assms(1) trim_newlines [OF assms(2), of "print_pieces ps"]
    by (simp add: semicolon_step_def push_current_statement_def emit_statement_def state_defs statement_pieces_ok_def)
  then have "char_step tokenize (plain_state ?b prev') (CHR '';'') = (plain_state [] (Some (CHR '';'')), ?out)"
    by (simp add: char_step_def match_char_def in_quotes_def delimiter_step_def)
  then have "push_loop tokenize (plain_state ?b prev') (CHR '';'' # ds) =
      (case push_loop tokenize (plain_state [] (Some (CHR '';''))) ds of (s, out) \<Rightarrow> (s, ?out @ out))" for ds
    using plain_step [of prev' "CHR '';''" ds tokenize ?b] by (simp add: apart_def split: prod.splits)
  moreover have "push_loop tokenize (plain_state [] (Some (CHR '';''))) (nl # cs) =
      push_loop tokenize (plain_state [nl] (Some nl)) cs"
    using raw_step [of nl "Some (CHR '';'')" cs "[]" tokenize]
    by (simp add: parse_delimiter_command_def after_last_nl_def trim_def apart_def)
  ultimately show ?thesis using prev' [of "'';'' @ [nl] @ cs"] by (simp add: next_char_def del: push_loop.simps)
qed

lemma script_run:
  assumes "list_all statement_pieces_ok stmts" "set b \<subseteq> {nl}" "prev \<in> {None, Some nl}"
  shows "\<exists>b' prev'. set b' \<subseteq> {nl} \<and> push_loop tokenize (plain_state b prev) (print_script stmts) =
    (plain_state b' prev', map (\<lambda>ps. \<lparr>statement_sql = trim (print_pieces ps), statement_stop_on_error = False\<rparr>) stmts)"
  using assms
proof (induction stmts arbitrary: b prev)
  case (Cons ps stmts)
  have "list_all statement_pieces_ok stmts" using Cons.prems(1) by simp
  from Cons.IH [OF this, of "[nl]" "Some nl"]
  obtain b' prev' where "set b' \<subseteq> {nl}" "push_loop tokenize (plain_state [nl] (Some nl)) (print_script stmts) =
      (plain_state b' prev', map (\<lambda>ps. \<lparr>statement_sql = trim (print_pieces ps), statement_stop_on_error = False\<rparr>) stmts)"
    by auto
  with Cons.prems show ?case
    using statement_run [of ps b prev tokenize "print_script stmts"] by (auto simp: print_script_def)
qed (auto simp: print_script_def)

text \<open>C8: In the default dialect, a script printed from a list of statements, each followed by a semicolon and a
  newline, is split into exactly these statements, trimmed and in order, whatever semicolons, quotes,
  comment openings, dollar signs and newlines their quoted texts, line comments and block comments
  contain. A quoted text must not contain its own quote or end in a backslash, and a block comment
  must not contain its end. Outside of quotes and comments a statement has no dollar sign and no
  backslash, two dashes or a slash and a star do not meet, no line starts like a delimiter command, and
  there is something to execute.\<close>

theorem split_printed_script:
  assumes "list_all statement_pieces_ok stmts"
  shows "split_sql_statements_with_options tokenize profile_default (print_script stmts) = map (trim \<circ> print_pieces) stmts"
proof -
  have init: "splitter_with_options profile_default = plain_state [] None" by (simp add: state_defs)
  obtain b prev where run: "set b \<subseteq> {nl}" "push_loop tokenize (plain_state [] None) (print_script stmts) =
      (plain_state b prev, map (\<lambda>ps. \<lparr>statement_sql = trim (print_pieces ps), statement_stop_on_error = False\<rparr>) stmts)"
    using script_run [OF assms, of "[]" None tokenize] by auto
  have "trim b = []" using trim_newlines [OF run(1), of "[]"] by (simp add: trim_def)
  moreover have "trim [] = []" "after_last_nl [] = []" "parse_delimiter_command [] = None" "\<not> has_executable_sql p []" for p
    by (simp_all add: trim_def after_last_nl_def parse_delimiter_command_def has_executable_sql_def)
  ultimately have "finish_with_control (plain_state b prev) = []"
    by (simp add: finish_with_control_def finish_psql_def push_current_statement_def emit_statement_def)
  then show ?thesis
    by (simp add: split_sql_statements_with_options_def push_chunk_with_control_def settle_pending_def init run(2) comp_def)
qed

theorem split_printed_script_witness:
  "split_sql_statements_with_options (\<lambda>_. None) profile_default
     (''A-';--'/* ;' */B--;'' @ [nl] @ '';'' @ [nl] @ ''C/2;'' @ [nl]) = [''A-';--'/* ;' */B--;'', ''C/2'']"
proof -
  let ?stmts = "[[Raw (CHR ''A''), Raw (CHR ''-''), Quoted (CHR 39) '';--'', BlockComment '' ;' '', Raw (CHR ''B''),
      LineComment '';''], [Raw (CHR ''C''), Raw (CHR ''/''), Raw (CHR ''2'')]]"
  have "list_all statement_pieces_ok ?stmts" by code_simp
  moreover have "map (trim \<circ> print_pieces) ?stmts = [''A-';--'/* ;' */B--;'', ''C/2'']" by code_simp
  ultimately show ?thesis
    using split_printed_script [of ?stmts "\<lambda>_. None"] by (simp add: print_script_def print_pieces_def)
qed

text \<open>A star right after the end of a block comment opens another one, so that the statement swallows the
  rest of the script.\<close>

lemma comment_end_opens_comment:
  "split_sql_statements_with_options (\<lambda>_. None) profile_default ''SELECT /* all */* FROM a; SELECT 2;'' =
     [''SELECT /* all */* FROM a; SELECT 2;'']"
  by code_simp

end
