(* ===== verification/Sql_Ranges.thy ===== *)
theory Sql_Ranges
  imports Sql_Splitter
begin

text \<open>
  The ranges of statements in the text of an editor, and the statement at the cursor (\<open>sql.rs\<close>).
  The code keeps byte offsets into the text; the model keeps the text before the current statement,
  the text of the statement so far and the rest, and offsets are the byte lengths of prefixes. A slice
  whose start is behind its end panics: the result is \<open>None\<close>.

  Shown: the ranges are slices of the text, in order and disjoint; the splitter panics on no text
  without delimiter commands, and on a repeated delimiter command it does; a cursor inside a statement
  finds a part of this statement.
\<close>

section \<open>The scanner of comments and quotes\<close>

record sql_scanner =
  sc_profile :: sql_dialect_profile
  sc_single_quote :: bool
  sc_double_quote :: bool
  sc_backtick :: bool
  sc_line_comment :: bool
  sc_block_comment :: bool
  sc_dollar_quote_tag :: "string option"
  sc_previous :: "char option"

definition scanner_with_profile :: "sql_dialect_profile \<Rightarrow> sql_scanner" where
  "scanner_with_profile profile =
     \<lparr>sc_profile = profile, sc_single_quote = False, sc_double_quote = False, sc_backtick = False,
      sc_line_comment = False, sc_block_comment = False, sc_dollar_quote_tag = None, sc_previous = None\<rparr>"

definition dollar_quote_tag_at_str :: "string \<Rightarrow> string option" where
  "dollar_quote_tag_at_str cs =
     (if next_char cs \<noteq> Some (CHR ''$'') \<or> CHR ''$'' \<notin> set (tl cs) then None
      else
        (let name = takeWhile (\<lambda>c. c \<noteq> CHR ''$'') (tl cs) in
         if name = [] \<or> list_all is_tag_char name then Some (CHR ''$'' # name @ ''$'') else None))"

definition scanner_opening :: "sql_scanner \<Rightarrow> char \<Rightarrow> string \<Rightarrow> sql_scanner" where
  "scanner_opening sc c cs =
     (if c = CHR ''-'' \<and> next_char cs = Some (CHR ''-'') \<or> supports_hash_line_comments (sc_profile sc) \<and> c = CHR ''#'' then
        sc\<lparr>sc_line_comment := True\<rparr>
      else if c = CHR ''/'' \<and> next_char cs = Some (CHR ''*'') then sc\<lparr>sc_block_comment := True\<rparr>
      else
        (case (if supports_dollar_quoted_strings (sc_profile sc) then dollar_quote_tag_at_str (c # cs) else None) of
           Some tag \<Rightarrow> sc\<lparr>sc_dollar_quote_tag := Some tag\<rparr>
         | None \<Rightarrow> sc))"

definition scanner_quotes :: "sql_scanner \<Rightarrow> char \<Rightarrow> sql_scanner" where
  "scanner_quotes sc c =
     (if c = CHR 39 \<and> \<not> sc_double_quote sc \<and> \<not> sc_backtick sc \<and> sc_previous sc \<noteq> Some (CHR 92) then
        sc\<lparr>sc_single_quote := \<not> sc_single_quote sc\<rparr>
      else if c = CHR 34 \<and> \<not> sc_single_quote sc \<and> \<not> sc_backtick sc \<and> sc_previous sc \<noteq> Some (CHR 92) then
        sc\<lparr>sc_double_quote := \<not> sc_double_quote sc\<rparr>
      else if c = CHR ''`'' \<and> \<not> sc_single_quote sc \<and> \<not> sc_double_quote sc then
        sc\<lparr>sc_backtick := \<not> sc_backtick sc\<rparr>
      else sc)"

definition scanner_step :: "sql_scanner \<Rightarrow> char \<Rightarrow> string \<Rightarrow> sql_scanner" where
  "scanner_step sc c cs =
     (case sc_dollar_quote_tag sc of
        Some tag \<Rightarrow>
          (if starts_with (c # cs) tag then sc\<lparr>sc_dollar_quote_tag := None\<rparr> else sc)\<lparr>sc_previous := Some c\<rparr>
      | None \<Rightarrow>
          if sc_line_comment sc then sc\<lparr>sc_line_comment := (c \<noteq> nl), sc_previous := Some c\<rparr>
          else if sc_block_comment sc then
            sc\<lparr>sc_block_comment := \<not> (sc_previous sc = Some (CHR ''*'') \<and> c = CHR ''/''), sc_previous := Some c\<rparr>
          else
            (let sc1 = (if \<not> sc_single_quote sc \<and> \<not> sc_double_quote sc \<and> \<not> sc_backtick sc
                        then scanner_opening sc c cs else sc)
             in (scanner_quotes sc1 c)\<lparr>sc_previous := Some c\<rparr>))"

definition is_masked :: "sql_scanner \<Rightarrow> bool" where
  "is_masked sc \<longleftrightarrow> sc_single_quote sc \<or> sc_double_quote sc \<or> sc_backtick sc \<or> sc_line_comment sc \<or>
     sc_block_comment sc \<or> sc_dollar_quote_tag sc \<noteq> None"

text \<open>The scanner over a part of a text, which is followed by \<open>after\<close>.\<close>

fun scan_text :: "sql_scanner \<Rightarrow> string \<Rightarrow> string \<Rightarrow> sql_scanner" where
  "scan_text sc [] after = sc"
| "scan_text sc (c # cs) after = scan_text (scanner_step sc c (cs @ after)) cs after"

section \<open>Bounds of a statement\<close>

definition trim_end :: "string \<Rightarrow> string" where
  "trim_end s = rev (dropWhile is_whitespace (rev s))"

definition strip_suffix :: "string \<Rightarrow> string \<Rightarrow> string option" where
  "strip_suffix s p = (if ends_with s p then Some (take (length s - length p) s) else None)"

text \<open>The text before the directive that ends a prefix.\<close>

definition leading_directive_start :: "string \<Rightarrow> string option" where
  "leading_directive_start lead =
     (let in_line = (\<lambda>c. c \<noteq> CHR 13 \<and> c \<noteq> nl);
          line_prefix = rev (takeWhile in_line (rev lead));
          trimmed_line_start = trim_start line_prefix in
      if starts_with trimmed_line_start ''/*'' \<and> ends_with (trim_end trimmed_line_start) ''*/'' then
        Some (rev (dropWhile in_line (rev lead)) @ takeWhile is_whitespace line_prefix)
      else strip_suffix (trim_end lead) ''/*proxy*/'')"

text \<open>The text that is skipped and the statement.\<close>

definition executable_sql_bounds :: "sql_dialect_profile \<Rightarrow> string \<Rightarrow> (string \<times> string) option" where
  "executable_sql_bounds profile statement =
     (let trimmed = trim_end statement; executable = leading_executable_sql profile trimmed in
      if executable = [] then None
      else
        (let leading = take (length trimmed - length executable) trimmed;
             start = (if preserves_tdsql_leading_directives profile
                      then (case leading_directive_start leading of Some before \<Rightarrow> before | None \<Rightarrow> leading) else leading)
         in Some (start, drop (length start) trimmed)))"

record sql_statement_range =
  range_text :: string
  range_start :: nat
  range_end :: nat

definition push_statement_range ::
    "sql_dialect_profile \<Rightarrow> string \<Rightarrow> string \<Rightarrow> sql_statement_range list \<Rightarrow> sql_statement_range list" where
  "push_statement_range profile pre part ranges =
     (case executable_sql_bounds profile part of
        None \<Rightarrow> ranges
      | Some (skipped, statement) \<Rightarrow>
          if statement \<noteq> [] then
            ranges @ [\<lparr>range_text = statement, range_start = str_len pre + str_len skipped,
              range_end = str_len pre + str_len skipped + str_len statement\<rparr>]
          else ranges)"

section \<open>Ranges of statements\<close>

record range_scan =
  rs_pre :: string
  rs_part :: string
  rs_single_quote :: bool
  rs_double_quote :: bool
  rs_backtick :: bool
  rs_line_comment :: bool
  rs_block_comment :: bool
  rs_tag :: "string option"
  rs_delimiter :: "string option"
  rs_routine :: bool
  rs_ranges :: "sql_statement_range list"

definition range_scan_init :: range_scan where
  "range_scan_init =
     \<lparr>rs_pre = [], rs_part = [], rs_single_quote = False, rs_double_quote = False, rs_backtick = False,
      rs_line_comment = False, rs_block_comment = False, rs_tag = None, rs_delimiter = None, rs_routine = False,
      rs_ranges = []\<rparr>"

definition is_on_delimiter_line :: "string \<Rightarrow> bool" where
  "is_on_delimiter_line part =
     (let line = trim_start (after_last_nl part) in
      9 \<le> str_len line \<and> eq_ignore_ascii_case (take 9 line) ''delimiter'')"

definition consume :: "string \<Rightarrow> range_scan \<Rightarrow> range_scan" where
  "consume t s = s\<lparr>rs_part := rs_part s @ t\<rparr>"

text \<open>A new statement starts here; the range of the old one, if any, is in the list.\<close>

definition restart :: "sql_statement_range list \<Rightarrow> range_scan \<Rightarrow> range_scan" where
  "restart ranges s = s\<lparr>rs_pre := rs_pre s @ rs_part s, rs_part := [], rs_routine := False, rs_ranges := ranges\<rparr>"

definition rs_in_quotes :: "range_scan \<Rightarrow> bool" where
  "rs_in_quotes s \<longleftrightarrow> rs_single_quote s \<or> rs_double_quote s \<or> rs_backtick s"

text \<open>The slice from the start of the statement to the start of the current line.\<close>

definition slice_to_line :: "range_scan \<Rightarrow> string option" where
  "slice_to_line s =
     (let before_line = upto_last_nl (rs_pre s @ rs_part s) in
      if length before_line < length (rs_pre s) then None else Some (drop (length (rs_pre s)) before_line))"

text \<open>The openings of comments and dollar quotes, outside of quotes.\<close>

definition comment_range_opening ::
    "sql_dialect_profile \<Rightarrow> range_scan \<Rightarrow> char \<Rightarrow> string \<Rightarrow> (range_scan \<times> string) option" where
  "comment_range_opening profile s c cs =
     (if c = CHR ''-'' \<and> next_char cs = Some (CHR ''-'') then
        Some ((consume ''--'' s)\<lparr>rs_line_comment := True\<rparr>, tl cs)
      else if supports_hash_line_comments profile \<and> c = CHR ''#'' then
        Some ((consume [c] s)\<lparr>rs_line_comment := True\<rparr>, cs)
      else if c = CHR ''/'' \<and> next_char cs = Some (CHR ''*'') then
        Some ((consume ''/*'' s)\<lparr>rs_block_comment := True\<rparr>, tl cs)
      else None)"

definition dollar_range_opening ::
    "tokenizer \<Rightarrow> sql_dialect_profile \<Rightarrow> range_scan \<Rightarrow> string \<Rightarrow> (range_scan \<times> string) option" where
  "dollar_range_opening tokenize profile s cs =
     (case (if supports_dollar_quoted_strings profile then dollar_quote_tag_at_str cs else None) of
        None \<Rightarrow> None
      | Some tag \<Rightarrow>
          if rs_delimiter s = None \<and> \<not> is_on_delimiter_line (rs_part s) then
            (let routine = (rs_routine s \<or> supports_postgres_dollar_quoted_routines profile \<and>
                   starts_with_postgres_dollar_quoted_routine_prefix tokenize (rs_part s))
             in Some ((consume tag s)\<lparr>rs_routine := routine, rs_tag := Some tag\<rparr>, drop (length tag) cs))
          else None)"

text \<open>Comments and dollar quotes: \<open>None\<close> where none of them is open or opens here.\<close>

definition masked_range_step ::
    "tokenizer \<Rightarrow> sql_dialect_profile \<Rightarrow> range_scan \<Rightarrow> char \<Rightarrow> string \<Rightarrow> (range_scan \<times> string) option" where
  "masked_range_step tokenize profile s c cs =
     (case rs_tag s of
        Some tag \<Rightarrow>
          Some (if starts_with (c # cs) tag then ((consume tag s)\<lparr>rs_tag := None\<rparr>, drop (length tag) (c # cs))
                else (consume [c] s, cs))
      | None \<Rightarrow>
          if rs_line_comment s then Some ((consume [c] s)\<lparr>rs_line_comment := (c \<noteq> nl)\<rparr>, cs)
          else if rs_block_comment s then
            Some (if c = CHR ''*'' \<and> next_char cs = Some (CHR ''/'')
                  then ((consume ''*/'' s)\<lparr>rs_block_comment := False\<rparr>, tl cs) else (consume [c] s, cs))
          else if rs_in_quotes s then None
          else
            (case comment_range_opening profile s c cs of
               Some r \<Rightarrow> Some r
             | None \<Rightarrow> dollar_range_opening tokenize profile s (c # cs)))"

text \<open>The commands of a line that ends here: the inner \<open>None\<close> is the panic.\<close>

definition line_range_step :: "sql_dialect_profile \<Rightarrow> range_scan \<Rightarrow> range_scan option option" where
  "line_range_step profile s =
     (let line = trim (after_last_nl (rs_pre s @ rs_part s)) in
      if supports_slash_line_block_delimiter profile \<and> line = ''/'' then
        Some (case slice_to_line s of
            None \<Rightarrow> None
          | Some before \<Rightarrow>
              Some (restart (push_statement_range profile (rs_pre s) before (rs_ranges s)) (consume [nl] s)))
      else
        (case (if supports_custom_delimiter_commands profile then parse_delimiter_command line else None) of
           None \<Rightarrow> None
         | Some new_delimiter \<Rightarrow>
             Some (case slice_to_line s of
                 None \<Rightarrow> None
               | Some before \<Rightarrow>
                   (let ranges = (if has_executable_sql profile (trim before)
                          then push_statement_range profile (rs_pre s) before (rs_ranges s) else rs_ranges s)
                    in Some ((restart ranges (consume [nl] s))
                         \<lparr>rs_delimiter := (if new_delimiter = '';'' then None else Some new_delimiter)\<rparr>)))))"

text \<open>A semicolon outside of quotes: where the statement ends, and whether it does.\<close>

definition semicolon_range_step ::
    "tokenizer \<Rightarrow> sql_dialect_profile \<Rightarrow> range_scan \<Rightarrow> range_scan" where
  "semicolon_range_step tokenize profile s =
     (let part = rs_part s; with_semicolon = part @ '';''; s1 = consume '';'' s;
          finish_at = (\<lambda>t. restart (push_statement_range profile (rs_pre s) t (rs_ranges s)) s1) in
      if supports_mysql_routine_blocks profile \<and> starts_with_mysql_routine_block part then
        (if mysql_routine_block_is_complete with_semicolon then finish_at part else s1)
      else if supports_oracle_plsql_blocks profile \<and> \<not> rs_routine s \<and> starts_with_oracle_plsql_block tokenize part then
        (if oracle_plsql_block_is_complete tokenize with_semicolon then finish_at with_semicolon else s1)
      else if supports_hana_do_blocks profile \<and> starts_with_hana_do_block tokenize part then
        (if hana_do_block_is_complete tokenize with_semicolon then finish_at with_semicolon else s1)
      else finish_at part)"

definition delimiter_range_step :: "sql_dialect_profile \<Rightarrow> range_scan \<Rightarrow> range_scan" where
  "delimiter_range_step profile s =
     (case rs_delimiter s of
        None \<Rightarrow> s
      | Some delimiter \<Rightarrow>
          if \<not> rs_in_quotes s \<and> ends_with (rs_part s) delimiter then
            restart (push_statement_range profile (rs_pre s)
              (take (length (rs_part s) - length delimiter) (rs_part s)) (rs_ranges s)) s
          else s)"

definition match_range_step ::
    "tokenizer \<Rightarrow> sql_dialect_profile \<Rightarrow> range_scan \<Rightarrow> char \<Rightarrow> range_scan" where
  "match_range_step tokenize profile s c =
     (let s1 = consume [c] s in
      if c = CHR 39 \<and> \<not> rs_double_quote s \<and> \<not> rs_backtick s \<and> last_char (rs_pre s @ rs_part s) \<noteq> Some (CHR 92) then
        s1\<lparr>rs_single_quote := \<not> rs_single_quote s\<rparr>
      else if c = CHR 34 \<and> \<not> rs_single_quote s \<and> \<not> rs_backtick s then s1\<lparr>rs_double_quote := \<not> rs_double_quote s\<rparr>
      else if c = CHR ''`'' \<and> \<not> rs_single_quote s \<and> \<not> rs_double_quote s then s1\<lparr>rs_backtick := \<not> rs_backtick s\<rparr>
      else if c = CHR '';'' \<and> \<not> rs_in_quotes s \<and> rs_delimiter s = None \<and>
        \<not> (supports_custom_delimiter_commands profile \<and> is_on_delimiter_line (rs_part s)) then
        semicolon_range_step tokenize profile s
      else delimiter_range_step profile s1)"

definition range_step ::
    "tokenizer \<Rightarrow> sql_dialect_profile \<Rightarrow> range_scan \<Rightarrow> char \<Rightarrow> string \<Rightarrow> (range_scan \<times> string) option" where
  "range_step tokenize profile s c cs =
     (case masked_range_step tokenize profile s c cs of
        Some r \<Rightarrow> Some r
      | None \<Rightarrow>
          (case (if \<not> rs_in_quotes s \<and> c = nl then line_range_step profile s else None) of
             Some None \<Rightarrow> None
           | Some (Some s1) \<Rightarrow> Some (s1, cs)
           | None \<Rightarrow> Some (match_range_step tokenize profile s c, cs)))"

text \<open>
  Such a step moves a piece of the text to the current part and leaves the rest of the state that the
  ranges depend on.
\<close>

definition moves :: "string \<Rightarrow> range_scan \<Rightarrow> string \<Rightarrow> range_scan \<Rightarrow> string \<Rightarrow> bool" where
  "moves t s cs s1 rest \<longleftrightarrow>
     cs = t @ rest \<and> rs_part s1 = rs_part s @ t \<and> rs_pre s1 = rs_pre s \<and> rs_ranges s1 = rs_ranges s \<and>
     rs_delimiter s1 = rs_delimiter s"

lemma next_char_tl: "next_char cs = Some d \<Longrightarrow> cs = d # tl cs"
  by (cases cs) (simp_all add: next_char_def)

lemma starts_with_drop: "starts_with cs t \<Longrightarrow> cs = t @ drop (length t) cs"
  by (auto simp: starts_with_iff prefix_def)

lemma dollar_quote_tag_at_str_prefix:
  assumes "dollar_quote_tag_at_str cs = Some t"
  shows "cs = t @ drop (length t) cs" "2 \<le> length t"
proof -
  let ?name = "takeWhile (\<lambda>c. c \<noteq> CHR ''$'') (tl cs)"
  have t: "next_char cs = Some (CHR ''$'')" "CHR ''$'' \<in> set (tl cs)" "t = CHR ''$'' # ?name @ ''$''"
    using assms by (auto simp: dollar_quote_tag_at_str_def Let_def split: if_splits)
  obtain ys r where tl: "tl cs = ys @ CHR ''$'' # r" "CHR ''$'' \<notin> set ys" using split_list_first [OF t(2)] by blast
  have "takeWhile (\<lambda>c. c \<noteq> CHR ''$'') (ys @ CHR ''$'' # r) = ys"
    using tl(2) by (subst takeWhile_append2) auto
  then have "t = CHR ''$'' # ys @ ''$''" using t(3) tl(1) by simp
  then have "cs = t @ r" using next_char_tl [OF t(1)] tl(1) by simp
  then show "cs = t @ drop (length t) cs" by simp
  show "2 \<le> length t" by (simp add: t(3))
qed

lemma masked_range_step_moves:
  assumes "masked_range_step tokenize profile s c cs = Some (s1, rest)"
  obtains t where "moves t s (c # cs) s1 rest" "t \<noteq> [] \<or> rs_tag s \<noteq> None \<and> rs_tag s1 = None"
proof (cases "rs_tag s")
  case (Some tag)
  show thesis
  proof (cases "starts_with (c # cs) tag")
    case True
    have "moves tag s (c # cs) s1 rest" "rs_tag s1 = None"
      using assms Some True starts_with_drop [OF True] by (auto simp: masked_range_step_def moves_def consume_def)
    then show thesis using that Some by auto
  next
    case False
    then have "moves [c] s (c # cs) s1 rest" using assms Some by (auto simp: masked_range_step_def moves_def consume_def)
    then show thesis using that by blast
  qed
next
  case None
  have "\<exists>t. t \<noteq> [] \<and> moves t s (c # cs) s1 rest"
  proof (cases "rs_line_comment s \<or> rs_block_comment s")
    case True
    then show ?thesis using assms None
      by (auto simp: masked_range_step_def moves_def consume_def split: if_splits dest: next_char_tl)
  next
    case False
    then consider "comment_range_opening profile s c cs = Some (s1, rest)"
      | "dollar_range_opening tokenize profile s (c # cs) = Some (s1, rest)"
      using assms None by (auto simp: masked_range_step_def split: if_splits option.splits)
    then show ?thesis
    proof cases
      case 1
      then show ?thesis
        by (auto simp: comment_range_opening_def moves_def consume_def split: if_splits dest: next_char_tl)
    next
      case 2
      then obtain tag where tag: "dollar_quote_tag_at_str (c # cs) = Some tag" and "rest = drop (length tag) (c # cs)"
        "rs_part s1 = rs_part s @ tag" "rs_pre s1 = rs_pre s" "rs_ranges s1 = rs_ranges s" "rs_delimiter s1 = rs_delimiter s"
        by (auto simp: dollar_range_opening_def Let_def consume_def split: if_splits option.splits)
      with dollar_quote_tag_at_str_prefix [OF tag] have "moves tag s (c # cs) s1 rest" "tag \<noteq> []"
        by (auto simp: moves_def)
      then show ?thesis by blast
    qed
  qed
  then show thesis using that by blast
qed

lemma masked_range_step_consumes:
  assumes "masked_range_step tokenize profile s c cs = Some (s1, rest)"
  shows "2 * length rest + (if rs_tag s1 = None then 0 else 1)
    < 2 * length (c # cs) + (if rs_tag s = None then 0 else 1 :: nat)"
proof -
  obtain t where t: "moves t s (c # cs) s1 rest" "t \<noteq> [] \<or> rs_tag s \<noteq> None \<and> rs_tag s1 = None"
    using masked_range_step_moves [OF assms] by blast
  then have "length (c # cs) = length t + length rest" by (simp add: moves_def)
  with t(2) show ?thesis by (cases t) auto
qed

lemma line_range_step_tag: "line_range_step profile s = Some (Some s1) \<Longrightarrow> rs_tag s1 = rs_tag s"
  unfolding line_range_step_def Let_def by (auto simp: restart_def consume_def split: if_splits option.splits)

lemma match_range_step_tag: "rs_tag (match_range_step tokenize profile s c) = rs_tag s"
  unfolding match_range_step_def semicolon_range_step_def delimiter_range_step_def Let_def
  by (simp add: restart_def consume_def split: option.splits)

lemma masked_range_step_None: "masked_range_step tokenize profile s c cs = None \<Longrightarrow> rs_tag s = None"
  unfolding masked_range_step_def by (cases "rs_tag s") simp_all

lemma range_step_consumes:
  assumes "range_step tokenize profile s c cs = Some (s1, rest)"
  shows "2 * length rest + (if rs_tag s1 = None then 0 else 1)
    < 2 * length (c # cs) + (if rs_tag s = None then 0 else 1 :: nat)"
proof (cases "masked_range_step tokenize profile s c cs")
  case (Some r)
  then show ?thesis using assms masked_range_step_consumes by (simp add: range_step_def)
next
  case None
  then show ?thesis using assms masked_range_step_None [OF None] line_range_step_tag [of profile s]
    by (auto simp: range_step_def match_range_step_tag split: if_splits option.splits)
qed

function range_loop :: "tokenizer \<Rightarrow> sql_dialect_profile \<Rightarrow> range_scan \<Rightarrow> string \<Rightarrow> range_scan option" where
  "range_loop tokenize profile s [] = Some s"
| "range_loop tokenize profile s (c # cs) =
     (case range_step tokenize profile s c cs of
        None \<Rightarrow> None
      | Some (s1, rest) \<Rightarrow> range_loop tokenize profile s1 rest)"
  by pat_completeness auto
termination
proof (relation "measure (\<lambda>(_, _, s, cs). 2 * length cs + (if rs_tag s = None then 0 else 1))")
  fix tokenize profile s c cs r s1 rest
  assume "range_step tokenize profile s c cs = Some r" "(s1, rest) = r"
  then have "range_step tokenize profile s c cs = Some (s1, rest)" by simp
  from range_step_consumes [OF this]
  show "((tokenize, profile, s1, rest), (tokenize, profile, s, c # cs))
      \<in> measure (\<lambda>(_, _, s, cs). 2 * length cs + (if rs_tag s = None then 0 else 1))"
    by simp
qed simp

definition range_finish :: "sql_dialect_profile \<Rightarrow> range_scan \<Rightarrow> sql_statement_range list" where
  "range_finish profile s =
     (let trimmed = trim (rs_part s); last_line = trim (after_last_nl trimmed) in
      if supports_custom_delimiter_commands profile \<and> parse_delimiter_command last_line \<noteq> None \<or>
         supports_slash_line_block_delimiter profile \<and> last_line = ''/'' then
        (if nl \<in> set (rs_part s)
         then push_statement_range profile (rs_pre s) (upto_last_nl (rs_part s)) (rs_ranges s) else rs_ranges s)
      else push_statement_range profile (rs_pre s) (rs_part s) (rs_ranges s))"

definition split_sql_statement_ranges ::
    "tokenizer \<Rightarrow> sql_dialect_profile \<Rightarrow> string \<Rightarrow> sql_statement_range list option" where
  "split_sql_statement_ranges tokenize profile sql =
     map_option (range_finish profile) (range_loop tokenize profile range_scan_init sql)"

section \<open>The statement at the cursor\<close>

function first_token_start :: "sql_dialect_profile \<Rightarrow> string \<Rightarrow> string" where
  "first_token_start profile sql =
     (let s = dropWhile (\<lambda>c. is_ascii_whitespace c \<or> c = CHR 40) sql in
      if s = [] then []
      else if starts_with s ''--'' then first_token_start profile (dropWhile (\<lambda>c. c \<noteq> nl) (drop 2 s))
      else if supports_hash_line_comments profile \<and> hd s = CHR ''#'' then
        first_token_start profile (dropWhile (\<lambda>c. c \<noteq> nl) (drop 1 s))
      else if starts_with s ''/*'' then
        (if is_mysql_executable_comment_start s then
           dropWhile (\<lambda>c. is_ascii_digit c \<or> is_ascii_whitespace c) (drop (if starts_with s ''/*!'' then 3 else 4) s)
         else case after_block_comment (drop 2 s) of None \<Rightarrow> [] | Some rest \<Rightarrow> first_token_start profile rest)
      else s)"
  by pat_completeness auto
termination
proof (relation "measure (length \<circ> snd)")
  fix profile sql s
  assume s: "s = dropWhile (\<lambda>c. is_ascii_whitespace c \<or> c = CHR 40) sql" "s \<noteq> []"
  then have len: "length s \<le> length sql" "0 < length s" by (auto simp: length_dropWhile_le)
  have "length (dropWhile P (drop n s)) < length sql" if "0 < n" for P n
    using length_dropWhile_le [of P "drop n s"] len that by (simp del: length_greater_0_conv)
  then show "((profile, dropWhile (\<lambda>c. c \<noteq> nl) (drop 2 s)), (profile, sql)) \<in> measure (length \<circ> snd)"
    "((profile, dropWhile (\<lambda>c. c \<noteq> nl) (drop 1 s)), (profile, sql)) \<in> measure (length \<circ> snd)"
    by simp_all
  fix rest
  assume "after_block_comment (drop 2 s) = Some rest"
  from after_block_comment_shorter [OF this] show "((profile, rest), (profile, sql)) \<in> measure (length \<circ> snd)"
    using len by simp
qed simp

declare first_token_start.simps [simp del]

definition first_executable_sql_token :: "sql_dialect_profile \<Rightarrow> string \<Rightarrow> string option" where
  "first_executable_sql_token profile sql =
     (let token = takeWhile (\<lambda>c. is_ascii_alphabetic c \<or> c = CHR ''_'') (first_token_start profile sql)
      in if token = [] then None else Some token)"

definition executable_sql_keyword_matches :: "string \<Rightarrow> string \<Rightarrow> bool" where
  "executable_sql_keyword_matches token keyword \<longleftrightarrow>
     eq_ignore_ascii_case token keyword \<or>
     eq_ignore_ascii_case keyword ''DESCRIBE'' \<and> eq_ignore_ascii_case token ''DESC''"

definition starts_with_executable_sql_keyword :: "sql_dialect_profile \<Rightarrow> string \<Rightarrow> string list \<Rightarrow> bool" where
  "starts_with_executable_sql_keyword profile sql keywords =
     option_holds (\<lambda>token. list_ex (executable_sql_keyword_matches token) keywords)
       (first_executable_sql_token profile sql)"

definition starts_with_soft_statement_keyword :: "sql_dialect_profile \<Rightarrow> string \<Rightarrow> bool" where
  "starts_with_soft_statement_keyword profile sql \<longleftrightarrow>
     supports_hana_do_blocks profile \<and> starts_with_executable_sql_keyword profile sql [''DO''] \<or>
     starts_with_executable_sql_keyword profile sql
       [''CREATE'', ''ALTER'', ''DROP'', ''INSERT'', ''UPDATE'', ''DELETE'', ''MERGE'', ''REPLACE'', ''TRUNCATE'',
        ''GRANT'', ''REVOKE'', ''COMMENT'', ''EXPLAIN'', ''SHOW'', ''DESCRIBE'', ''USE'', ''SET'', ''CALL'', ''EXEC'',
        ''EXECUTE'', ''BEGIN'', ''COMMIT'', ''ROLLBACK'', ''DECLARE'', ''ANALYZE'', ''VACUUM'', ''PRAGMA'', ''REFRESH'',
        ''COPY'']"

text \<open>
  The loop over the text of a statement: the text before the current part, the part up to the current
  line, the current line, and the rest of the statement, after which the text goes on with \<open>after\<close>.
\<close>

record blank_scan =
  bs_scanner :: sql_scanner
  bs_pre :: string
  bs_part :: string
  bs_line :: string
  bs_non_whitespace :: bool
  bs_blank_run :: nat
  bs_ranges :: "sql_statement_range list"

definition blank_newline :: "blank_scan \<Rightarrow> string \<Rightarrow> blank_scan" where
  "blank_newline s rest =
     s\<lparr>bs_blank_run := (if \<not> bs_non_whitespace s \<and> \<not> is_masked (bs_scanner s) then bs_blank_run s + 1 else 0),
       bs_scanner := scanner_step (bs_scanner s) nl rest,
       bs_part := bs_part s @ bs_line s @ [nl], bs_line := [], bs_non_whitespace := False\<rparr>"

definition blank_first_char :: "sql_dialect_profile \<Rightarrow> blank_scan \<Rightarrow> string \<Rightarrow> blank_scan" where
  "blank_first_char profile s line =
     (let s1 =
        (if 2 \<le> bs_blank_run s \<and> \<not> is_masked (bs_scanner s) \<and> has_executable_sql profile (bs_part s) \<and>
            starts_with_soft_statement_keyword profile line
         then s\<lparr>bs_ranges := push_statement_range profile (bs_pre s) (bs_part s) (bs_ranges s),
                bs_pre := bs_pre s @ bs_part s, bs_part := []\<rparr>
         else s)
      in s1\<lparr>bs_blank_run := 0, bs_non_whitespace := True\<rparr>)"

fun blank_loop :: "sql_dialect_profile \<Rightarrow> string \<Rightarrow> blank_scan \<Rightarrow> string \<Rightarrow> blank_scan" where
  "blank_loop profile after s [] = s"
| "blank_loop profile after s (c # cs) =
     (if c = nl then blank_loop profile after (blank_newline s (cs @ after)) cs
      else
        (let s1 = (if \<not> bs_non_whitespace s \<and> \<not> is_whitespace c
                   then blank_first_char profile s (bs_line s @ c # cs) else s)
         in blank_loop profile after
              (s1\<lparr>bs_scanner := scanner_step (bs_scanner s1) c (cs @ after), bs_line := bs_line s1 @ [c]\<rparr>) cs))"

definition split_statement_range_at_blank_lines ::
    "tokenizer \<Rightarrow> sql_dialect_profile \<Rightarrow> string \<Rightarrow> sql_statement_range \<Rightarrow> sql_statement_range list option" where
  "split_statement_range_at_blank_lines tokenize profile sql statement =
     (if supports_oracle_plsql_blocks profile \<and> starts_with_oracle_plsql_block tokenize (range_text statement) \<or>
         supports_hana_do_blocks profile \<and> starts_with_hana_do_block tokenize (range_text statement)
      then Some [statement]
      else if range_end statement < range_start statement then None
      else
        (case (slice_to sql (range_start statement), slice_to sql (range_end statement), slice_from sql (range_end statement)) of
           (Some pre, Some through, Some after) \<Rightarrow>
             (let s = blank_loop profile after
                    \<lparr>bs_scanner = scanner_with_profile profile, bs_pre = pre, bs_part = [], bs_line = [],
                     bs_non_whitespace = False, bs_blank_run = 0, bs_ranges = []\<rparr>
                    (drop (length pre) through);
                  ranges = push_statement_range profile (bs_pre s) (bs_part s @ bs_line s) (bs_ranges s)
              in Some (if ranges = [] then [statement] else ranges))
         | _ \<Rightarrow> None))"

definition cursor_has_sql_after_cursor_on_line :: "string \<Rightarrow> nat \<Rightarrow> bool option" where
  "cursor_has_sql_after_cursor_on_line sql cursor =
     map_option (\<lambda>rest. list_ex (\<lambda>c. \<not> is_whitespace c) (takeWhile (\<lambda>c. c \<noteq> nl) rest)) (slice_from sql cursor)"

text \<open>
  The range for a cursor, with the previous range where it is between two: the loop that both
  \<open>find_statement_at_cursor_with_options\<close> and \<open>find_statement_text_in_ranges\<close> have. The result is an
  option in which \<open>None\<close> is the panic, of an option.
\<close>

fun pick_range ::
    "string \<Rightarrow> nat \<Rightarrow> sql_statement_range option \<Rightarrow> sql_statement_range list \<Rightarrow> sql_statement_range option option" where
  "pick_range sql cursor prev [] = Some prev"
| "pick_range sql cursor prev (r # rs) =
     (let or_previous = (case prev of Some q \<Rightarrow> q | None \<Rightarrow> r) in
      if range_start r < cursor \<and> cursor < range_end r then Some (Some r)
      else if cursor = range_start r then
        map_option (\<lambda>has_sql. Some (if has_sql then r else or_previous)) (cursor_has_sql_after_cursor_on_line sql cursor)
      else if cursor < range_start r then Some (Some or_previous)
      else pick_range sql cursor (Some r) rs)"

definition statement_text_at_cursor ::
    "tokenizer \<Rightarrow> sql_dialect_profile \<Rightarrow> string \<Rightarrow> sql_statement_range \<Rightarrow> nat \<Rightarrow> string option" where
  "statement_text_at_cursor tokenize profile sql statement cursor =
     Option.bind (split_statement_range_at_blank_lines tokenize profile sql statement)
       (\<lambda>soft_ranges. map_option (\<lambda>r. case r of Some q \<Rightarrow> range_text q | None \<Rightarrow> range_text statement)
          (pick_range sql cursor None soft_ranges))"

definition len_utf16 :: "char \<Rightarrow> nat" where
  "len_utf16 c = (if code c < 0x10000 then 1 else 2)"

fun utf16_offset_loop :: "nat \<Rightarrow> nat \<Rightarrow> nat \<Rightarrow> string \<Rightarrow> nat" where
  "utf16_offset_loop offset seen byte_index [] = byte_index"
| "utf16_offset_loop offset seen byte_index (c # cs) =
     (if offset \<le> seen then byte_index
      else if offset < seen + len_utf16 c then byte_index + len_utf8 c
      else utf16_offset_loop offset (seen + len_utf16 c) (byte_index + len_utf8 c) cs)"

definition utf16_offset_to_byte_index :: "string \<Rightarrow> nat \<Rightarrow> nat" where
  "utf16_offset_to_byte_index sql offset = utf16_offset_loop offset 0 0 sql"

definition find_statement_at_cursor ::
    "tokenizer \<Rightarrow> sql_dialect_profile \<Rightarrow> string \<Rightarrow> nat \<Rightarrow> string option" where
  "find_statement_at_cursor tokenize profile sql cursor_pos =
     Option.bind (split_sql_statement_ranges tokenize profile sql)
       (\<lambda>statements. let cursor = utf16_offset_to_byte_index sql cursor_pos in
          Option.bind (pick_range sql cursor None statements)
            (\<lambda>r. case r of
                Some statement \<Rightarrow> statement_text_at_cursor tokenize profile sql statement cursor
              | None \<Rightarrow> Some (trim sql)))"

section \<open>The ranges are slices of the text\<close>

definition slice_of :: "string \<Rightarrow> sql_statement_range \<Rightarrow> bool" where
  "slice_of sql r \<longleftrightarrow> range_text r \<noteq> [] \<and>
     (\<exists>a b. sql = a @ range_text r @ b \<and> range_start r = str_len a \<and> range_end r = str_len (a @ range_text r))"

definition in_order :: "sql_statement_range list \<Rightarrow> bool" where
  "in_order ranges = sorted_wrt (\<lambda>q r. range_end q \<le> range_start r) ranges"

definition ranges_ok :: "string \<Rightarrow> sql_statement_range list \<Rightarrow> bool" where
  "ranges_ok sql ranges \<longleftrightarrow> (\<forall>r\<in>set ranges. slice_of sql r) \<and> in_order ranges"

lemma slice_of_append: "slice_of sql r \<Longrightarrow> slice_of (sql @ t) r"
  unfolding slice_of_def by (metis append_assoc)

lemma ranges_ok_append: "ranges_ok sql ranges \<Longrightarrow> ranges_ok (sql @ t) ranges"
  by (auto simp: ranges_ok_def slice_of_append)

lemma ranges_ok_prefix: "ranges_ok sql ranges \<Longrightarrow> prefix sql sql' \<Longrightarrow> ranges_ok sql' ranges"
  by (auto simp: prefix_def ranges_ok_append)

lemma slice_of_end: "slice_of sql r \<Longrightarrow> range_end r \<le> str_len sql"
  by (auto simp: slice_of_def)

lemma rev_dropWhile_takeWhile: "rev (dropWhile P (rev xs)) @ rev (takeWhile P (rev xs)) = xs"
  unfolding rev_append [symmetric] takeWhile_dropWhile_id rev_rev_ident ..

lemma rev_dropWhile_prefix: "prefix (rev (dropWhile P (rev xs))) xs"
  using rev_dropWhile_takeWhile [of P xs] by (metis prefixI)

lemma trim_end_prefix: "prefix (trim_end t) t"
  unfolding trim_end_def by (rule rev_dropWhile_prefix)

lemma leading_directive_start_prefix:
  assumes "leading_directive_start lead = Some before"
  shows "prefix before lead"
proof -
  define P where "P = (\<lambda>c. c \<noteq> CHR 13 \<and> c \<noteq> nl)"
  define line where "line = rev (takeWhile P (rev lead))"
  define head where "head = rev (dropWhile P (rev lead))"
  have lead: "head @ line = lead" unfolding head_def line_def by (rule rev_dropWhile_takeWhile)
  have "prefix (head @ takeWhile is_whitespace line) (head @ line)"
    unfolding same_prefix_prefix by (metis prefixI takeWhile_dropWhile_id)
  moreover have "prefix (take n (trim_end lead)) lead" for n
    using take_is_prefix [of n] trim_end_prefix by (rule prefix_order.trans)
  moreover have "before = head @ takeWhile is_whitespace line \<or> (\<exists>n. before = take n (trim_end lead))"
    using assms unfolding leading_directive_start_def P_def [symmetric] Let_def line_def [symmetric] head_def [symmetric] strip_suffix_def
    by (simp split: if_splits) blast+
  ultimately show ?thesis unfolding lead by blast
qed

lemma executable_sql_bounds_parts:
  assumes "executable_sql_bounds profile t = Some (skipped, statement)"
  shows "prefix (skipped @ statement) t"
proof -
  define lead where "lead = take (length (trim_end t) - length (leading_executable_sql profile (trim_end t))) (trim_end t)"
  have "prefix lead (trim_end t)" by (simp add: lead_def take_is_prefix)
  moreover have "skipped = lead \<or> leading_directive_start lead = Some skipped" "statement = drop (length skipped) (trim_end t)"
    using assms by (auto simp: executable_sql_bounds_def lead_def Let_def split: if_splits option.splits)
  ultimately have "prefix skipped (trim_end t)"
    using leading_directive_start_prefix prefix_order.trans by blast
  then have "skipped @ statement = trim_end t"
    using \<open>statement = _\<close> by (auto simp: prefix_def)
  then show ?thesis using trim_end_prefix by simp
qed

lemma push_statement_range_ok:
  assumes "ranges_ok pre ranges"
  shows "ranges_ok (pre @ t) (push_statement_range profile pre t ranges)"
proof (cases "executable_sql_bounds profile t")
  case None
  then show ?thesis using assms by (simp add: push_statement_range_def ranges_ok_append)
next
  case (Some b)
  obtain skipped statement where b: "b = (skipped, statement)" by fastforce
  with Some have "prefix (skipped @ statement) t" using executable_sql_bounds_parts by simp
  then obtain z where t: "t = skipped @ statement @ z" by (auto simp: prefix_def)
  let ?r = "\<lparr>range_text = statement, range_start = str_len pre + str_len skipped,
    range_end = str_len pre + str_len skipped + str_len statement\<rparr>"
  have "slice_of (pre @ t) ?r" if "statement \<noteq> []"
    unfolding slice_of_def using that t
    by (intro conjI exI [of _ "pre @ skipped"] exI [of _ z]) simp_all
  moreover have "range_end q \<le> range_start ?r" if "q \<in> set ranges" for q
    using assms that slice_of_end [of pre q] by (auto simp: ranges_ok_def)
  ultimately show ?thesis
    using assms by (auto simp: push_statement_range_def Some b ranges_ok_def in_order_def sorted_wrt_append slice_of_append)
qed

lemma push_statement_range_within:
  assumes "ranges_ok pre ranges" "prefix t part"
  shows "ranges_ok (pre @ part) (push_statement_range profile pre t ranges)"
  using ranges_ok_prefix [OF push_statement_range_ok [OF assms(1)], of t "pre @ part"] assms(2) by simp

text \<open>The state keeps the text and the ranges of what is before the current statement.\<close>

definition scan_ok :: "string \<Rightarrow> range_scan \<Rightarrow> string \<Rightarrow> bool" where
  "scan_ok sql s rest \<longleftrightarrow> rs_pre s @ rs_part s @ rest = sql \<and> ranges_ok (rs_pre s) (rs_ranges s)"

lemma slice_to_line_prefix:
  assumes "slice_to_line s = Some before"
  shows "prefix before (rs_part s)"
proof -
  have "prefix (upto_last_nl (rs_pre s @ rs_part s)) (rs_pre s @ rs_part s)"
    unfolding upto_last_nl_def by (rule rev_dropWhile_prefix)
  then obtain z where z: "rs_pre s @ rs_part s = upto_last_nl (rs_pre s @ rs_part s) @ z" by (auto simp: prefix_def)
  let ?u = "upto_last_nl (rs_pre s @ rs_part s)"
  have before: "before = drop (length (rs_pre s)) ?u" "length (rs_pre s) \<le> length ?u"
    using assms by (auto simp: slice_to_line_def Let_def split: if_splits)
  have "rs_part s = drop (length (rs_pre s)) (rs_pre s @ rs_part s)" by simp
  also have "\<dots> = before @ z" using before by (subst z) simp
  finally show ?thesis by simp
qed

lemma restart_ok:
  assumes "scan_ok sql s (t @ rest)" "prefix u (rs_part s @ t)"
    "ranges = rs_ranges s \<or> ranges = push_statement_range profile (rs_pre s) u (rs_ranges s)"
  shows "scan_ok sql (restart ranges (consume t s)) rest"
  using assms push_statement_range_within [of "rs_pre s" "rs_ranges s" u "rs_part s @ t" profile]
  by (auto simp: scan_ok_def restart_def consume_def ranges_ok_append)

lemma consume_ok: "scan_ok sql s (t @ rest) \<Longrightarrow> scan_ok sql (consume t s) rest"
  by (simp add: scan_ok_def consume_def)

lemma line_range_step_ok:
  assumes "scan_ok sql s (nl # cs)" "line_range_step profile s = Some (Some s1)"
  shows "scan_ok sql s1 cs"
proof -
  obtain before ranges where "slice_to_line s = Some before"
    "ranges = rs_ranges s \<or> ranges = push_statement_range profile (rs_pre s) before (rs_ranges s)"
    "s1 = restart ranges (consume [nl] s) \<or> (\<exists>d. s1 = (restart ranges (consume [nl] s))\<lparr>rs_delimiter := d\<rparr>)"
    using assms(2) by (auto simp: line_range_step_def Let_def split: if_splits option.splits)
  moreover from this(1) have "prefix before (rs_part s @ [nl])"
    using slice_to_line_prefix prefix_prefix by blast
  ultimately show ?thesis
    using restart_ok [of sql s "[nl]" cs before ranges profile] assms(1) by (auto simp: scan_ok_def)
qed

lemma semicolon_range_step_ok:
  assumes "scan_ok sql s (CHR '';'' # cs)"
  shows "scan_ok sql (semicolon_range_step tokenize profile s) cs"
proof -
  have "scan_ok sql (restart (push_statement_range profile (rs_pre s) u (rs_ranges s)) (consume '';'' s)) cs"
    if "u = rs_part s \<or> u = rs_part s @ '';''" for u
    using that assms by (intro restart_ok [where u = u]) auto
  moreover have "scan_ok sql (consume '';'' s) cs" using assms by (intro consume_ok) simp
  ultimately show ?thesis by (simp add: semicolon_range_step_def Let_def)
qed

lemma delimiter_range_step_ok: "scan_ok sql s cs \<Longrightarrow> scan_ok sql (delimiter_range_step profile s) cs"
  using restart_ok [of sql s "[]" cs "take n (rs_part s)" _ profile for n]
  by (auto simp: delimiter_range_step_def consume_def take_is_prefix split: option.splits)

lemma scan_ok_quotes [simp]:
  "scan_ok sql (s\<lparr>rs_single_quote := q\<rparr>) rest = scan_ok sql s rest"
  "scan_ok sql (s\<lparr>rs_double_quote := q\<rparr>) rest = scan_ok sql s rest"
  "scan_ok sql (s\<lparr>rs_backtick := q\<rparr>) rest = scan_ok sql s rest"
  by (simp_all add: scan_ok_def)

lemma match_range_step_ok:
  assumes "scan_ok sql s (c # cs)"
  shows "scan_ok sql (match_range_step tokenize profile s c) cs"
proof -
  have "scan_ok sql (consume [c] s) cs" using assms by (intro consume_ok) simp
  moreover from this have "scan_ok sql (delimiter_range_step profile (consume [c] s)) cs"
    by (rule delimiter_range_step_ok)
  moreover have "c = CHR '';'' \<Longrightarrow> scan_ok sql (semicolon_range_step tokenize profile s) cs"
    using assms semicolon_range_step_ok by simp
  ultimately show ?thesis unfolding match_range_step_def Let_def by auto
qed

lemma range_step_ok:
  assumes "scan_ok sql s (c # cs)" "range_step tokenize profile s c cs = Some (s1, rest)"
  shows "scan_ok sql s1 rest"
proof (cases "masked_range_step tokenize profile s c cs")
  case (Some r)
  with assms(2) have "masked_range_step tokenize profile s c cs = Some (s1, rest)" by (simp add: range_step_def)
  then obtain t where "moves t s (c # cs) s1 rest" by (rule masked_range_step_moves)
  then show ?thesis using assms(1) by (auto simp: moves_def scan_ok_def)
next
  case None
  then show ?thesis
    using assms line_range_step_ok [of sql s cs profile] match_range_step_ok [OF assms(1)]
    by (auto simp: range_step_def split: if_splits option.splits)
qed

lemma range_loop_ok:
  assumes "scan_ok sql s cs" "range_loop tokenize profile s cs = Some s1"
  shows "scan_ok sql s1 []"
  using assms
proof (induction tokenize profile s cs rule: range_loop.induct)
  case (2 tokenize profile s c cs)
  then show ?case by (auto split: option.splits dest: range_step_ok)
qed simp

lemma range_finish_ok:
  assumes "scan_ok sql s []"
  shows "ranges_ok sql (range_finish profile s)"
proof -
  have "prefix (upto_last_nl t) t" for t
    unfolding upto_last_nl_def by (rule rev_dropWhile_prefix)
  then show ?thesis
    using assms push_statement_range_within [of "rs_pre s" "rs_ranges s" _ "rs_part s" profile]
    by (auto simp: range_finish_def Let_def scan_ok_def ranges_ok_append)
qed

lemma split_ranges_ok:
  assumes "split_sql_statement_ranges tokenize profile sql = Some ranges"
  shows "ranges_ok sql ranges"
proof -
  have "scan_ok sql range_scan_init sql" by (simp add: scan_ok_def range_scan_init_def ranges_ok_def in_order_def)
  then show ?thesis using assms range_loop_ok range_finish_ok by (auto simp: split_sql_statement_ranges_def)
qed

text \<open>C9: The statement ranges of a text are non-empty slices of it: the offsets of a range are those of its
  text, and the ranges are disjoint and in the order of the text.\<close>

theorem statement_ranges_are_slices:
  assumes "split_sql_statement_ranges tokenize profile sql = Some ranges"
  shows "(\<forall>r\<in>set ranges. slice_of sql r) \<and> sorted_wrt (\<lambda>q r. range_end q \<le> range_start r) ranges"
  using split_ranges_ok [OF assms] by (simp add: ranges_ok_def in_order_def)

theorem statement_ranges_are_slices_witness:
  "\<exists>ranges. split_sql_statement_ranges (\<lambda>_. None) profile_default ''A; /* ; */ B'' = Some ranges \<and>
     map range_text ranges = [''A'', ''B''] \<and> sorted_wrt (\<lambda>q r. range_end q \<le> range_start r) ranges"
proof -
  let ?ranges = "[\<lparr>range_text = ''A'', range_start = 0, range_end = 1\<rparr>, \<lparr>range_text = ''B'', range_start = 11, range_end = 12\<rparr>]"
  have "split_sql_statement_ranges (\<lambda>_. None) profile_default ''A; /* ; */ B'' = Some ?ranges" by code_simp
  from statement_ranges_are_slices [OF this] this show ?thesis by simp
qed

section \<open>Panics\<close>

text \<open>Without delimiter commands a statement starts at the start of the text, of a line or after a semicolon.\<close>

definition start_ok :: "range_scan \<Rightarrow> bool" where
  "start_ok s \<longleftrightarrow> rs_delimiter s = None \<and> (rs_pre s = [] \<or> last (rs_pre s) \<in> {nl, CHR '';''})"

lemma dropWhile_keeps: "x \<in> set xs \<Longrightarrow> \<not> P x \<Longrightarrow> x \<in> set (dropWhile P xs)"
  by (induction xs) auto

lemma trim_keeps: "x \<in> set t \<Longrightarrow> \<not> is_whitespace x \<Longrightarrow> x \<in> set (trim t)"
  unfolding trim_def set_rev by (intro dropWhile_keeps) (simp_all add: dropWhile_keeps)

lemma upto_after_last_nl: "upto_last_nl t @ after_last_nl t = t"
  unfolding upto_last_nl_def after_last_nl_def by (rule rev_dropWhile_takeWhile)

lemma after_last_nl_no_nl: "nl \<notin> set (after_last_nl t)"
  by (auto simp: after_last_nl_def dest: set_takeWhileD)

lemma slice_to_line_defined:
  assumes "start_ok s" "trim (after_last_nl (rs_pre s @ rs_part s)) = ''/''"
  shows "slice_to_line s \<noteq> None"
proof
  let ?t = "rs_pre s @ rs_part s"
  assume "slice_to_line s = None"
  then have len: "length (upto_last_nl ?t) < length (rs_pre s)"
    by (auto simp: slice_to_line_def Let_def split: if_splits)
  have "take (length (rs_pre s)) (upto_last_nl ?t @ after_last_nl ?t) = rs_pre s" by (simp add: upto_after_last_nl)
  then have pre: "rs_pre s = upto_last_nl ?t @ take (length (rs_pre s) - length (upto_last_nl ?t)) (after_last_nl ?t)"
    using len by (simp add: take_append)
  let ?u = "take (length (rs_pre s) - length (upto_last_nl ?t)) (after_last_nl ?t)"
  have "?u \<noteq> []" using pre len by (metis append_Nil2 nat_neq_iff)
  then have "last (rs_pre s) \<in> set (after_last_nl ?t)"
    using pre by (metis in_set_takeD last_appendR last_in_set)
  moreover have "rs_pre s \<noteq> []" using len by auto
  ultimately have "CHR '';'' \<in> set (after_last_nl ?t)"
    using assms(1) after_last_nl_no_nl [of ?t] by (auto simp: start_ok_def)
  moreover have "\<not> is_whitespace (CHR '';'')" by (simp add: is_whitespace_def code_def)
  ultimately have "CHR '';'' \<in> set (trim (after_last_nl ?t))" by (rule trim_keeps)
  then show False unfolding assms(2) by simp
qed

lemma line_range_step_start:
  assumes "start_ok s" "parse_delimiter_command (trim (after_last_nl (rs_pre s @ rs_part s))) = None"
  shows "line_range_step profile s \<noteq> Some None" "line_range_step profile s = Some (Some s1) \<Longrightarrow> start_ok s1"
  using assms slice_to_line_defined [OF assms(1)]
  by (auto simp: line_range_step_def Let_def start_ok_def restart_def consume_def split: if_splits option.splits)

lemma match_range_step_start:
  assumes "start_ok s"
  shows "start_ok (match_range_step tokenize profile s c)"
proof -
  have "start_ok (consume t s)" "start_ok (restart ranges (consume '';'' s))" for t ranges
    using assms by (simp_all add: start_ok_def consume_def restart_def)
  moreover have "start_ok (semicolon_range_step tokenize profile s)"
    using calculation by (simp add: semicolon_range_step_def Let_def)
  moreover have "delimiter_range_step profile (consume [c] s) = consume [c] s"
    using assms by (simp add: delimiter_range_step_def start_ok_def consume_def)
  ultimately show ?thesis by (simp add: match_range_step_def Let_def) (simp add: start_ok_def)
qed

lemma range_step_start:
  assumes "start_ok s" "\<And>line. line \<in> set (split_char nl sql) \<Longrightarrow> parse_delimiter_command (trim line) = None"
    "scan_ok sql s (c # cs)"
  obtains s1 rest where "range_step tokenize profile s c cs = Some (s1, rest)" "start_ok s1"
proof (cases "masked_range_step tokenize profile s c cs")
  case (Some r)
  obtain s1 rest where r: "r = (s1, rest)" by fastforce
  with Some obtain t where "moves t s (c # cs) s1 rest" using masked_range_step_moves by metis
  with assms(1) have "start_ok s1" by (simp add: moves_def start_ok_def)
  with Some r show thesis by (intro that) (simp_all add: range_step_def)
next
  case None
  show thesis
  proof (cases "\<not> rs_in_quotes s \<and> c = nl")
    case True
    have "after_last_nl (rs_pre s @ rs_part s) \<in> set (split_char nl sql)"
      using assms(3) True after_last_nl_line(2) [of "rs_pre s @ rs_part s" cs] by (simp add: scan_ok_def)
    note start = line_range_step_start [OF assms(1) assms(2) [OF this], of profile]
    from start(1) consider "line_range_step profile s = None" | s1 where "line_range_step profile s = Some (Some s1)"
      by fastforce
    then show thesis
      using that None True start(2) match_range_step_start [OF assms(1)] by cases (auto simp: range_step_def)
  next
    case False
    with None match_range_step_start [OF assms(1)] show thesis by (intro that) (auto simp: range_step_def)
  qed
qed

lemma range_loop_start:
  assumes "start_ok s" "\<And>line. line \<in> set (split_char nl sql) \<Longrightarrow> parse_delimiter_command (trim line) = None"
    "scan_ok sql s cs"
  shows "range_loop tokenize profile s cs \<noteq> None"
  using assms
proof (induction tokenize profile s cs rule: range_loop.induct)
  case (2 tokenize profile s c cs)
  obtain s1 rest where step: "range_step tokenize profile s c cs = Some (s1, rest)" "start_ok s1"
    using range_step_start [OF 2(2,3,4)] .
  have "scan_ok sql s1 rest" using range_step_ok [OF 2(4) step(1)] .
  with 2(1) [OF step(1) refl step(2) 2(3)] step(1) show ?case by simp
qed simp

text \<open>C35: The ranges of a text none of whose lines is a delimiter command are computed without a panic, in every
  dialect.\<close>

theorem ranges_do_not_panic:
  assumes "\<forall>line\<in>set (split_char nl sql). parse_delimiter_command (trim line) = None"
  shows "\<exists>ranges. split_sql_statement_ranges tokenize profile sql = Some ranges"
  using range_loop_start [of range_scan_init sql sql tokenize profile] assms
  by (auto simp: split_sql_statement_ranges_def start_ok_def scan_ok_def range_scan_init_def ranges_ok_def in_order_def)

theorem ranges_do_not_panic_witness:
  "\<exists>ranges. split_sql_statement_ranges (\<lambda>_. None) profile_oracle_like (''A; /'' @ [nl] @ ''/'' @ [nl]) = Some ranges"
proof (rule ranges_do_not_panic)
  show "\<forall>line\<in>set (split_char nl (''A; /'' @ [nl] @ ''/'' @ [nl])). parse_delimiter_command (trim line) = None"
    by code_simp
qed

text \<open>A delimiter command that repeats the delimiter in force is itself cut off as a statement, and the slice
  up to its line then starts behind its end.\<close>

lemma repeated_delimiter_panics:
  "split_sql_statement_ranges (\<lambda>_. None) profile_default (''DELIMITER //'' @ [nl] @ ''DELIMITER //'' @ [nl]) = None"
  "split_sql_statements_with_options (\<lambda>_. None) profile_default (''DELIMITER //'' @ [nl] @ ''DELIMITER //'' @ [nl]) =
   [''DELIMITER'']"
  by code_simp+

section \<open>The cursor\<close>

lemma utf16_offset_loop_take:
  assumes "seen \<le> offset"
  shows "utf16_offset_loop offset seen byte_index sql = byte_index + str_len (take (offset - seen) sql)"
  using assms
proof (induction sql arbitrary: seen byte_index)
  case (Cons c cs)
  have "code c < 0x10000" unfolding code_def by (rule less_trans [OF nat_of_char_less_256]) simp
  then have "len_utf16 c = 1" by (simp add: len_utf16_def)
  with Cons show ?case by (cases "offset = seen") (auto simp: Suc_diff_Suc [symmetric] simp del: Suc_diff_Suc)
qed simp

lemma utf16_offset_to_byte_index_take: "utf16_offset_to_byte_index sql offset = str_len (take offset sql)"
  by (simp add: utf16_offset_to_byte_index_def utf16_offset_loop_take)

lemma cursor_on_boundary: "cursor_has_sql_after_cursor_on_line sql (utf16_offset_to_byte_index sql offset) \<noteq> None"
  using slice_from_append [of "take offset sql" "drop offset sql"]
  by (simp add: cursor_has_sql_after_cursor_on_line_def utf16_offset_to_byte_index_take)

lemma slice_of_bounds: "slice_of sql r \<Longrightarrow> range_start r < range_end r"
  by (auto simp: slice_of_def neq_Nil_conv)

lemma pick_range_inside:
  assumes "ranges_ok sql ranges" "r \<in> set ranges" "range_start r < cursor" "cursor < range_end r"
  shows "pick_range sql cursor prev ranges = Some (Some r)"
  using assms
proof (induction ranges arbitrary: prev)
  case (Cons q ranges)
  show ?case
  proof (cases "q = r")
    case False
    then have "range_end q \<le> range_start r" using Cons.prems(1,2) by (auto simp: ranges_ok_def in_order_def)
    moreover have "range_start q < range_end q" using Cons.prems(1) by (auto simp: ranges_ok_def slice_of_bounds)
    ultimately show ?thesis using Cons False by (auto simp: ranges_ok_def in_order_def)
  qed (use Cons in simp)
qed simp

lemma pick_range_member:
  assumes "cursor_has_sql_after_cursor_on_line sql cursor \<noteq> None"
  obtains r where "pick_range sql cursor prev ranges = Some r" "\<And>q. r = Some q \<Longrightarrow> q \<in> set ranges \<or> prev = Some q"
  using assms
proof (induction ranges arbitrary: prev thesis)
  case (Cons q ranges)
  obtain b where b: "cursor_has_sql_after_cursor_on_line sql cursor = Some b" using Cons.prems(2) by auto
  obtain r where r: "pick_range sql cursor (Some q) ranges = Some r" "\<And>q'. r = Some q' \<Longrightarrow> q' \<in> set ranges \<or> Some q = Some q'"
    using Cons.IH [OF _ Cons.prems(2)] by blast
  then have "\<exists>r. pick_range sql cursor prev (q # ranges) = Some r \<and> (\<forall>q'. r = Some q' \<longrightarrow> q' \<in> set (q # ranges) \<or> prev = Some q')"
    using b by (cases "cursor = range_start q"; cases b; cases prev) (auto simp: Let_def)
  then show ?case using Cons.prems(1) by blast
qed auto

lemma push_statement_range_within_text:
  assumes "\<forall>q\<in>set ranges. sublist (range_text q) t" "sublist part t"
  shows "\<forall>q\<in>set (push_statement_range profile pre part ranges). sublist (range_text q) t"
proof -
  have "sublist statement t" if bounds: "executable_sql_bounds profile part = Some (skipped, statement)" for skipped statement
  proof -
    have "sublist statement (skipped @ statement)" by simp
    moreover have "sublist (skipped @ statement) part" using executable_sql_bounds_parts [OF bounds] by simp
    ultimately show ?thesis using assms(2) sublist_order.order.trans by blast
  qed
  with assms(1) show ?thesis by (auto simp: push_statement_range_def split: option.splits)
qed

text \<open>The soft ranges of a statement are parts of its text.\<close>

definition blank_ok :: "string \<Rightarrow> blank_scan \<Rightarrow> string \<Rightarrow> bool" where
  "blank_ok t s rest \<longleftrightarrow>
     (\<exists>u. t = u @ bs_part s @ bs_line s @ rest) \<and> (\<forall>q\<in>set (bs_ranges s). sublist (range_text q) t)"

lemma blank_first_char_ok:
  assumes "blank_ok t s rest"
  shows "blank_ok t (blank_first_char profile s line) rest"
proof -
  obtain u where u: "t = u @ bs_part s @ bs_line s @ rest" using assms by (auto simp: blank_ok_def)
  then have "t = (u @ bs_part s) @ [] @ bs_line s @ rest" by simp
  moreover have "sublist (bs_part s) t" using u by (metis sublist_appendI)
  ultimately show ?thesis
    using assms u push_statement_range_within_text [of "bs_ranges s" t "bs_part s" profile "bs_pre s"]
    unfolding blank_ok_def blank_first_char_def Let_def by (auto simp del: append_assoc intro!: exI [of _ "u @ bs_part s"])
qed

lemma blank_loop_ok: "blank_ok t s cs \<Longrightarrow> blank_ok t (blank_loop profile after s cs) []"
proof (induction cs arbitrary: s)
  case (Cons c cs)
  have "blank_ok t (blank_newline s r) cs" if "c = nl" for r
    using Cons.prems that by (auto simp: blank_ok_def blank_newline_def)
  moreover have "blank_ok t (s1\<lparr>bs_scanner := sc, bs_line := bs_line s1 @ [c]\<rparr>) cs" if "blank_ok t s1 (c # cs)" for s1 sc
    using that by (auto simp: blank_ok_def)
  ultimately show ?case
    using Cons blank_first_char_ok by (simp add: Let_def)
qed simp

lemma soft_ranges_within:
  assumes "slice_of sql r"
  obtains soft where "split_statement_range_at_blank_lines tokenize profile sql r = Some soft"
    "\<forall>q\<in>set soft. sublist (range_text q) (range_text r)"
proof -
  obtain a b where sql: "sql = a @ range_text r @ b" "range_start r = str_len a" "range_end r = str_len (a @ range_text r)"
    using assms by (auto simp: slice_of_def)
  define s where "s = blank_loop profile b
    \<lparr>bs_scanner = scanner_with_profile profile, bs_pre = a, bs_part = [], bs_line = [], bs_non_whitespace = False,
     bs_blank_run = 0, bs_ranges = []\<rparr> (range_text r)"
  define ranges where "ranges = push_statement_range profile (bs_pre s) (bs_part s @ bs_line s) (bs_ranges s)"
  have "blank_ok (range_text r) s []" unfolding s_def by (intro blank_loop_ok) (simp add: blank_ok_def)
  then have "\<forall>q\<in>set ranges. sublist (range_text q) (range_text r)"
    unfolding ranges_def by (intro push_statement_range_within_text) (auto simp: blank_ok_def)
  moreover have "slice_to sql (range_start r) = Some a" "slice_to sql (range_end r) = Some (a @ range_text r)"
    "slice_from sql (range_end r) = Some b"
    using slice_to_append [of a "range_text r @ b"] slice_to_append [of "a @ range_text r" b]
      slice_from_append [of "a @ range_text r" b] by (simp_all add: sql)
  then have "split_statement_range_at_blank_lines tokenize profile sql r \<in> {Some [r], Some ranges}"
    using sql(2,3) by (auto simp: split_statement_range_at_blank_lines_def Let_def s_def ranges_def)
  ultimately show thesis using that by auto
qed

text \<open>C13: When the cursor is inside the range of a statement, the statement found at the cursor is a part of this
  statement: never text of another statement or between statements.\<close>

theorem cursor_finds_enclosing_statement:
  assumes "split_sql_statement_ranges tokenize profile sql = Some ranges" "r \<in> set ranges"
    "range_start r < utf16_offset_to_byte_index sql pos" "utf16_offset_to_byte_index sql pos < range_end r"
  shows "\<exists>t. find_statement_at_cursor tokenize profile sql pos = Some t \<and> sublist t (range_text r)"
proof -
  let ?cursor = "utf16_offset_to_byte_index sql pos"
  have ok: "ranges_ok sql ranges" using split_ranges_ok [OF assms(1)] .
  obtain soft where soft: "split_statement_range_at_blank_lines tokenize profile sql r = Some soft"
    "\<forall>q\<in>set soft. sublist (range_text q) (range_text r)"
    using soft_ranges_within [of sql r tokenize profile] ok assms(2) by (auto simp: ranges_ok_def)
  obtain x where x: "pick_range sql ?cursor None soft = Some x" "\<And>q. x = Some q \<Longrightarrow> q \<in> set soft \<or> None = Some q"
    using pick_range_member [OF cursor_on_boundary, of sql pos None soft] by blast
  have "find_statement_at_cursor tokenize profile sql pos =
      Some (case x of Some q \<Rightarrow> range_text q | None \<Rightarrow> range_text r)"
    using pick_range_inside [OF ok assms(2-4), of None]
    by (simp add: find_statement_at_cursor_def assms(1) statement_text_at_cursor_def soft(1) x(1))
  with soft(2) x(2) show ?thesis by (cases x) auto
qed

theorem cursor_finds_enclosing_statement_witness:
  "\<exists>t. find_statement_at_cursor (\<lambda>_. None) profile_default ''SELECT 1; SELECT 2'' 13 = Some t \<and> sublist t ''SELECT 2''"
proof -
  let ?r = "\<lparr>range_text = ''SELECT 2'', range_start = 10, range_end = 18\<rparr>"
  have split: "split_sql_statement_ranges (\<lambda>_. None) profile_default ''SELECT 1; SELECT 2'' =
      Some [\<lparr>range_text = ''SELECT 1'', range_start = 0, range_end = 8\<rparr>, ?r]"
    by code_simp
  have "utf16_offset_to_byte_index ''SELECT 1; SELECT 2'' 13 = 13"
    by (simp add: utf16_offset_to_byte_index_take len_utf8_def code_def)
  with cursor_finds_enclosing_statement [OF split, of ?r 13] show ?thesis by simp
qed

section \<open>psql commands in the text of an editor\<close>

text \<open>The segments of a text: its lines, each with its newline.\<close>

fun split_inclusive :: "string \<Rightarrow> string list" where
  "split_inclusive [] = []"
| "split_inclusive (c # cs) =
     (if c = nl then [c] # split_inclusive cs
      else (case split_inclusive cs of [] \<Rightarrow> [[c]] | w # ws \<Rightarrow> (c # w) # ws))"

definition blank_out :: "string \<Rightarrow> string" where
  "blank_out line = map (\<lambda>c. if is_whitespace c then c else CHR '' '') line"

fun preprocess_segments ::
    "sql_scanner \<Rightarrow> bool \<Rightarrow> string list \<Rightarrow> string \<times> bool" where
  "preprocess_segments sc stop [] = ([], stop)"
| "preprocess_segments sc stop (segment # segments) =
     (let line = (if segment \<noteq> [] \<and> last segment = nl then butlast segment else segment);
          command = (if is_masked sc then None else parse_ignorable_psql_control_command (trim line)) in
      if command \<noteq> None then
        (let newline = (segment \<noteq> [] \<and> last segment = nl);
             sc1 = (if newline then scanner_step sc nl (concat segments) else sc);
             (output, stop1) = preprocess_segments sc1 (stop \<or> command = Some OnErrorStop) segments
         in (blank_out line @ (if newline then [nl] else []) @ output, stop1))
      else
        (let (output, stop1) = preprocess_segments (scan_text sc segment (concat segments)) stop segments
         in (segment @ output, stop1)))"

definition preprocess_psql_control_commands :: "sql_dialect_profile \<Rightarrow> string \<Rightarrow> string \<times> bool" where
  "preprocess_psql_control_commands profile sql =
     preprocess_segments (scanner_with_profile profile) False (split_inclusive sql)"

record sql_execution_plan =
  plan_statements :: "string list"
  plan_stop_on_error :: bool

definition sql_execution_plan_for_database :: "tokenizer \<Rightarrow> database_type \<Rightarrow> string \<Rightarrow> sql_execution_plan" where
  "sql_execution_plan_for_database tokenize db_type sql =
     (let profile = profile_for_database_type db_type in
      if \<not> supports_psql_control_commands profile then
        \<lparr>plan_statements = split_sql_statements_with_options tokenize profile sql, plan_stop_on_error = False\<rparr>
      else
        (let (sql1, stop) = preprocess_psql_control_commands profile sql in
         \<lparr>plan_statements = split_sql_statements_with_options tokenize (profile\<lparr>supports_psql_control_commands := False\<rparr>) sql1,
          plan_stop_on_error = stop\<rparr>))"

text \<open>Blanking out commands moves no character: every line keeps its length, so that a cursor position
  means the same before and after.\<close>

lemma concat_split_inclusive: "concat (split_inclusive sql) = sql"
  by (induction sql) (auto split: list.splits)

definition kept_or_blank :: "char \<Rightarrow> char \<Rightarrow> bool" where
  "kept_or_blank c d \<longleftrightarrow> d = c \<or> d = CHR '' '' \<and> \<not> is_whitespace c"

lemma kept_or_blank_lists: "list_all2 kept_or_blank t t" "list_all2 kept_or_blank t (blank_out t)"
  by (simp_all add: blank_out_def kept_or_blank_def list_all2_map2 list_all2_same)

lemma preprocess_segment:
  "\<exists>out sc' stop'. list_all2 kept_or_blank segment out \<and>
     fst (preprocess_segments sc stop (segment # segments)) = out @ fst (preprocess_segments sc' stop' segments)"
proof -
  define newline where "newline \<longleftrightarrow> segment \<noteq> [] \<and> last segment = nl"
  define line where "line = (if newline then butlast segment else segment)"
  define command where "command = (if is_masked sc then None else parse_ignorable_psql_control_command (trim line))"
  have segment: "segment = line @ (if newline then [nl] else [])"
  proof (cases newline)
    case True
    then have "butlast segment @ [nl] = segment" using append_butlast_last_id [of segment] unfolding newline_def by simp
    then show ?thesis using True by (simp add: line_def)
  qed (simp add: line_def)
  have "list_all2 kept_or_blank segment (blank_out line @ (if newline then [nl] else []))"
    unfolding segment by (intro list_all2_appendI kept_or_blank_lists)
  moreover have "fst (preprocess_segments sc stop (segment # segments)) =
      (blank_out line @ (if newline then [nl] else [])) @
      fst (preprocess_segments (if newline then scanner_step sc nl (concat segments) else sc)
        (stop \<or> command = Some OnErrorStop) segments)" if "command \<noteq> None"
    using that unfolding command_def line_def newline_def by (simp add: Let_def case_prod_beta)
  moreover have "fst (preprocess_segments sc stop (segment # segments)) =
      segment @ fst (preprocess_segments (scan_text sc segment (concat segments)) stop segments)" if "command = None"
    using that unfolding command_def line_def newline_def by (simp add: Let_def case_prod_beta)
  ultimately show ?thesis using kept_or_blank_lists(1) by (cases command) (blast, metis option.distinct(1))
qed

lemma preprocess_segments_keep_shape:
  "list_all2 kept_or_blank (concat segments) (fst (preprocess_segments sc stop segments))"
proof (induction segments arbitrary: sc stop)
  case (Cons segment segments)
  obtain out sc' stop' where "list_all2 kept_or_blank segment out"
    "fst (preprocess_segments sc stop (segment # segments)) = out @ fst (preprocess_segments sc' stop' segments)"
    using preprocess_segment by blast
  with Cons.IH show ?case by (simp del: preprocess_segments.simps add: list_all2_appendI)
qed simp

lemma preprocess_keeps_positions:
  "list_all2 kept_or_blank sql (fst (preprocess_psql_control_commands profile sql))"
  using preprocess_segments_keep_shape [of "split_inclusive sql"]
  by (simp add: preprocess_psql_control_commands_def concat_split_inclusive)

definition find_statement_at_cursor_psql :: "tokenizer \<Rightarrow> sql_dialect_profile \<Rightarrow> string \<Rightarrow> nat \<Rightarrow> string option" where
  "find_statement_at_cursor_psql tokenize profile sql cursor_pos =
     (if supports_psql_control_commands profile then
        find_statement_at_cursor tokenize (profile\<lparr>supports_psql_control_commands := False\<rparr>)
          (fst (preprocess_psql_control_commands profile sql)) cursor_pos
      else find_statement_at_cursor tokenize profile sql cursor_pos)"

end
