(* ===== verification/Sql_Batches.thy ===== *)
theory Sql_Batches
  imports Sql_Ranges
begin

text \<open>
  SQL Server scripts, whose batches are separated by lines that say \<open>GO\<close>: the splitter of the file
  import (\<open>SqlServerBatchSplitter\<close> of \<open>sql_file_import.rs\<close>), which gets the script in chunks, and the
  splitter of the editor (\<open>split_sql_batches\<close> of \<open>sql.rs\<close>), which has it as a whole, with the statement
  at the cursor.

  Shown: the import cuts a script into the batches of a reference definition on its lines, whatever the
  chunks; the batches of the editor are slices of the text. The two disagree on a separator inside a
  comment or a quoted text.
\<close>

section \<open>Batches of a file import\<close>

record sql_server_batch_splitter =
  batch :: string
  partial_line :: string

definition batch_splitter_default :: sql_server_batch_splitter where
  "batch_splitter_default = \<lparr>batch = [], partial_line = []\<rparr>"

definition trim_end_cr :: "string \<Rightarrow> string" where
  "trim_end_cr s = rev (dropWhile (\<lambda>c. c = CHR 13) (rev s))"

definition push_batch :: "sql_server_batch_splitter \<Rightarrow> sql_server_batch_splitter \<times> string list" where
  "push_batch s = (s\<lparr>batch := []\<rparr>, if trim (batch s) \<noteq> [] then [trim (batch s)] else [])"

definition push_line :: "sql_server_batch_splitter \<Rightarrow> string \<Rightarrow> sql_server_batch_splitter \<times> string list" where
  "push_line s line =
     (if eq_ignore_ascii_case (trim line) ''go'' then push_batch s
      else (s\<lparr>batch := batch s @ line @ [nl]\<rparr>, []))"

text \<open>The lines that are complete, one after the other; the rest stays in the partial line.\<close>

function push_lines :: "sql_server_batch_splitter \<Rightarrow> sql_server_batch_splitter \<times> string list" where
  "push_lines s =
     (case dropWhile (\<lambda>c. c \<noteq> nl) (partial_line s) of
        [] \<Rightarrow> (s, [])
      | _ # rest \<Rightarrow>
          (let line = trim_end_cr (takeWhile (\<lambda>c. c \<noteq> nl) (partial_line s));
               (s1, out1) = push_line (s\<lparr>partial_line := rest\<rparr>) line;
               (s2, out2) = push_lines s1
           in (s2, out1 @ out2)))"
  by pat_completeness auto
termination
proof (relation "measure (length \<circ> partial_line)")
  fix s :: sql_server_batch_splitter and c rest line p s1 out1
  assume "dropWhile (\<lambda>c. c \<noteq> nl) (partial_line s) = c # rest" "p = push_line (s\<lparr>partial_line := rest\<rparr>) line" "(s1, out1) = p"
  then have "partial_line s1 = rest" "length (c # rest) \<le> length (partial_line s)"
    using length_dropWhile_le [of "\<lambda>c. c \<noteq> nl" "partial_line s"]
    by (auto simp: push_line_def push_batch_def split: if_splits)
  then show "(s1, s) \<in> measure (length \<circ> partial_line)" by simp
qed simp

declare push_lines.simps [simp del]

definition batch_push_chunk ::
    "sql_server_batch_splitter \<Rightarrow> string \<Rightarrow> sql_server_batch_splitter \<times> string list" where
  "batch_push_chunk s chunk = push_lines (s\<lparr>partial_line := partial_line s @ chunk\<rparr>)"

definition batch_finish :: "sql_server_batch_splitter \<Rightarrow> string list" where
  "batch_finish s =
     (let (s1, out1) = (if partial_line s \<noteq> [] then push_line (s\<lparr>partial_line := []\<rparr>) (trim_end_cr (partial_line s))
                        else (s, []))
      in out1 @ snd (push_batch s1))"

fun run_batches :: "sql_server_batch_splitter \<Rightarrow> string list \<Rightarrow> string list" where
  "run_batches s [] = batch_finish s"
| "run_batches s (chunk # chunks) = (let (s1, out) = batch_push_chunk s chunk in out @ run_batches s1 chunks)"

section \<open>Batches of the editor\<close>

definition is_batch_separator :: "sql_dialect_profile \<Rightarrow> sql_scanner \<Rightarrow> string \<Rightarrow> bool" where
  "is_batch_separator profile sc line \<longleftrightarrow>
     supports_go_batch_separator profile \<and> \<not> is_masked sc \<and>
     (eq_ignore_ascii_case (trim line) ''go'' \<or>
      starts_with (to_ascii_lowercase (trim line)) ''go '' \<and> trim (drop 2 (trim line)) = [])"

text \<open>
  The loop over the lines: the text before the current batch, the text of the batch so far, and the
  lines that are left.
\<close>

fun batch_range_lines ::
    "sql_dialect_profile \<Rightarrow> sql_scanner \<Rightarrow> string \<Rightarrow> string \<Rightarrow> string list \<Rightarrow> sql_statement_range list \<Rightarrow>
       sql_statement_range list" where
  "batch_range_lines profile sc pre part [] ranges = push_statement_range profile_default pre part ranges"
| "batch_range_lines profile sc pre part (line # lines) ranges =
     (let line_break = (if lines = [] then [] else [nl]);
          after = line_break @ join [nl] lines;
          separator = is_batch_separator profile sc line;
          sc1 = (if separator then sc else scan_text sc line after);
          sc2 = scan_text sc1 line_break (join [nl] lines)
      in if separator
         then batch_range_lines profile sc2 (pre @ part @ line @ line_break) [] lines
                (push_statement_range profile_default pre part ranges)
         else batch_range_lines profile sc2 pre (part @ line @ line_break) lines ranges)"

definition split_sql_batch_ranges :: "sql_dialect_profile \<Rightarrow> string \<Rightarrow> sql_statement_range list" where
  "split_sql_batch_ranges profile sql =
     batch_range_lines profile (scanner_with_profile profile) [] [] (split_char nl sql) []"

definition split_sql_batches :: "string \<Rightarrow> string list" where
  "split_sql_batches sql =
     (let ranges = split_sql_batch_ranges profile_sql_server sql in
      if ranges = [] then (if trim sql = [] then [] else [trim sql]) else map range_text ranges)"

definition is_sqlserver_module_keyword :: "string \<Rightarrow> bool" where
  "is_sqlserver_module_keyword token = is_any_keyword token [''FUNCTION'', ''PROC'', ''PROCEDURE'', ''TRIGGER'', ''VIEW'']"

definition starts_with_sqlserver_module_ddl :: "string \<Rightarrow> bool" where
  "starts_with_sqlserver_module_ddl sql =
     (case first_sql_tokens sql 4 of
        t0 # t1 # ts \<Rightarrow>
          (case ts of
             t2 # t3 # _ \<Rightarrow>
               if eq_ignore_ascii_case t0 ''CREATE'' \<and> eq_ignore_ascii_case t1 ''OR'' \<and> eq_ignore_ascii_case t2 ''ALTER''
               then is_sqlserver_module_keyword t3
               else (eq_ignore_ascii_case t0 ''CREATE'' \<or> eq_ignore_ascii_case t0 ''ALTER'') \<and> is_sqlserver_module_keyword t1
           | _ \<Rightarrow> (eq_ignore_ascii_case t0 ''CREATE'' \<or> eq_ignore_ascii_case t0 ''ALTER'') \<and> is_sqlserver_module_keyword t1)
      | _ \<Rightarrow> False)"

definition utf16_count :: "string \<Rightarrow> nat" where
  "utf16_count s = sum_list (map len_utf16 s)"

definition batch_text_at_cursor :: "tokenizer \<Rightarrow> sql_statement_range \<Rightarrow> nat \<Rightarrow> string option" where
  "batch_text_at_cursor tokenize b relative_cursor =
     (if keeps_sqlserver_module_batch_at_cursor profile_sql_server \<and> starts_with_sqlserver_module_ddl (range_text b)
      then Some (range_text b)
      else find_statement_at_cursor tokenize profile_default (range_text b) relative_cursor)"

fun find_in_batches ::
    "tokenizer \<Rightarrow> string \<Rightarrow> nat \<Rightarrow> sql_statement_range option \<Rightarrow> sql_statement_range list \<Rightarrow> string option" where
  "find_in_batches tokenize sql cursor prev [] =
     Some (case prev of Some b \<Rightarrow> range_text b | None \<Rightarrow> trim sql)"
| "find_in_batches tokenize sql cursor prev (b # bs) =
     (if range_start b \<le> cursor \<and> cursor \<le> range_end b then
        (case (slice_to sql cursor, slice_to sql (range_start b)) of
           (Some upto_cursor, Some upto_batch) \<Rightarrow>
             batch_text_at_cursor tokenize b (utf16_count upto_cursor - utf16_count upto_batch)
         | _ \<Rightarrow> None)
      else if cursor < range_start b then
        (case prev of
           Some q \<Rightarrow> batch_text_at_cursor tokenize q (utf16_count (range_text q))
         | None \<Rightarrow> Some (range_text b))
      else find_in_batches tokenize sql cursor (Some b) bs)"

definition find_sqlserver_statement_at_cursor :: "tokenizer \<Rightarrow> string \<Rightarrow> nat \<Rightarrow> string option" where
  "find_sqlserver_statement_at_cursor tokenize sql cursor_pos =
     find_in_batches tokenize sql (utf16_offset_to_byte_index sql cursor_pos) None
       (split_sql_batch_ranges profile_sql_server sql)"

definition find_statement_at_cursor_for_database ::
    "tokenizer \<Rightarrow> database_type \<Rightarrow> string \<Rightarrow> nat \<Rightarrow> string option" where
  "find_statement_at_cursor_for_database tokenize db_type sql cursor_pos =
     (if db_type = SqlServer then find_sqlserver_statement_at_cursor tokenize sql cursor_pos
      else find_statement_at_cursor_psql tokenize (profile_for_database_type db_type) sql cursor_pos)"

section \<open>The reference for an import\<close>

fun split_at :: "('a \<Rightarrow> bool) \<Rightarrow> 'a list \<Rightarrow> 'a list list" where
  "split_at p [] = [[]]"
| "split_at p (x # xs) =
     (if p x then [] # split_at p xs else (case split_at p xs of [] \<Rightarrow> [[x]] | g # gs \<Rightarrow> (x # g) # gs))"

definition unlines :: "string list \<Rightarrow> string" where
  "unlines ls = concat (map (\<lambda>l. l @ [nl]) ls)"

definition is_go :: "string \<Rightarrow> bool" where
  "is_go line = eq_ignore_ascii_case (trim line) ''go''"

definition script_batches :: "string \<Rightarrow> string list" where
  "script_batches sql =
     filter (\<lambda>b. b \<noteq> []) (map (trim \<circ> unlines) (split_at is_go (map trim_end_cr (split_char nl sql))))"

text \<open>What happens to the batch while lines are pushed.\<close>

fun lines_run :: "string \<Rightarrow> string list \<Rightarrow> string \<times> string list" where
  "lines_run acc [] = (acc, [])"
| "lines_run acc (l # ls) =
     (if is_go l then (let (acc1, out) = lines_run [] ls in (acc1, filter (\<lambda>b. b \<noteq> []) [trim acc] @ out))
      else lines_run (acc @ l @ [nl]) ls)"

lemma split_at_not_Nil [simp]: "split_at p xs \<noteq> []"
  by (induction xs) (auto split: list.splits)

lemma lines_run_batches:
  "snd (lines_run acc ls) @ filter (\<lambda>b. b \<noteq> []) [trim (fst (lines_run acc ls))] =
   filter (\<lambda>b. b \<noteq> []) (map trim (case split_at is_go ls of g # gs \<Rightarrow> (acc @ unlines g) # map unlines gs))"
proof (induction ls arbitrary: acc)
  case (Cons l ls)
  obtain g gs where g: "split_at is_go ls = g # gs" by (cases "split_at is_go ls") auto
  show ?case
    using Cons.IH [of "[]"] Cons.IH [of "acc @ l @ [nl]"] g
    by (cases "is_go l") (auto simp: unlines_def case_prod_beta)
qed (simp add: unlines_def)

lemma split_char_append_last:
  "split_char d (x @ y) = butlast (split_char d x) @ split_char d (last (split_char d x) @ y)"
proof (induction x)
  case (Cons c x)
  obtain w ws where w: "split_char d x = w # ws" by (cases "split_char d x") auto
  show ?case using Cons w by (cases ws) (auto split: list.splits)
qed simp

lemma last_split_char: "d \<notin> set (last (split_char d x))"
proof (induction x)
  case (Cons c x)
  then show ?case by (cases "split_char d x") auto
qed simp

lemma push_line_run:
  "push_line s line = (s\<lparr>batch := fst (lines_run (batch s) [line])\<rparr>, snd (lines_run (batch s) [line]))"
  by (simp add: push_line_def push_batch_def is_go_def)

lemma lines_run_Cons:
  "lines_run acc (l # ls) =
     (fst (lines_run (fst (lines_run acc [l])) ls), snd (lines_run acc [l]) @ snd (lines_run (fst (lines_run acc [l])) ls))"
  by (simp add: case_prod_beta)

lemma push_lines_run:
  "push_lines s =
     (let ls = split_char nl (partial_line s); (acc, out) = lines_run (batch s) (map trim_end_cr (butlast ls))
      in (\<lparr>batch = acc, partial_line = last ls\<rparr>, out))"
proof (induction s rule: push_lines.induct)
  case (1 s)
  show ?case
  proof (cases "dropWhile (\<lambda>c. c \<noteq> nl) (partial_line s)")
    case Nil
    then have "nl \<notin> set (partial_line s)" by (auto simp: dropWhile_eq_Nil_conv)
    then show ?thesis by (simp add: push_lines.simps [of s] Nil split_char_no_sep)
  next
    case (Cons c rest)
    define line where "line = takeWhile (\<lambda>c. c \<noteq> nl) (partial_line s)"
    have "c = nl" using hd_dropWhile [of "\<lambda>c. c \<noteq> nl" "partial_line s"] Cons by simp
    then have partial: "partial_line s = line @ nl # rest"
      using takeWhile_dropWhile_id [of "\<lambda>c. c \<noteq> nl" "partial_line s"] Cons by (simp add: line_def)
    have "nl \<notin> set line" by (auto simp: line_def dest: set_takeWhileD)
    then have split: "split_char nl (partial_line s) = line # split_char nl rest"
      by (simp add: partial split_char_append_sep)
    let ?s1 = "s\<lparr>partial_line := rest, batch := fst (lines_run (batch s) [trim_end_cr line])\<rparr>"
    have push: "push_line (s\<lparr>partial_line := rest\<rparr>) (trim_end_cr line) = (?s1, snd (lines_run (batch s) [trim_end_cr line]))"
      by (simp add: push_line_run)
    have "push_lines ?s1 = (let ls = split_char nl rest; (acc, out) = lines_run (batch ?s1) (map trim_end_cr (butlast ls))
        in (\<lparr>batch = acc, partial_line = last ls\<rparr>, out))"
      using 1 [OF Cons refl, of "push_line (s\<lparr>partial_line := rest\<rparr>) (trim_end_cr line)"] push by (simp add: line_def)
    then show ?thesis
      unfolding split using lines_run_Cons [of "batch s" "trim_end_cr line" "map trim_end_cr (butlast (split_char nl rest))"]
      by (simp add: push_lines.simps [of s] Cons line_def [symmetric] push case_prod_beta Let_def del: lines_run.simps)
  qed
qed

lemma trim_newline: "trim (t @ [nl]) = trim t"
proof (cases "dropWhile is_whitespace t")
  have ws: "is_whitespace nl" by (simp add: is_whitespace_def code_def)
  case Nil
  then have "dropWhile is_whitespace (t @ [nl]) = dropWhile is_whitespace [nl]"
    by (intro dropWhile_append2) (simp add: dropWhile_eq_Nil_conv)
  then show ?thesis using ws by (simp add: trim_def Nil)
next
  have ws: "is_whitespace nl" by (simp add: is_whitespace_def code_def)
  case (Cons c cs)
  then have "dropWhile is_whitespace (t @ [nl]) = (c # cs) @ [nl]"
    by (metis dropWhile_append3 dropWhile_append1 dropWhile_eq_Nil_conv list.distinct(1))
  then show ?thesis using ws by (simp add: trim_def Cons)
qed

lemma batch_finish_run:
  assumes "lines_run (batch s) [trim_end_cr (partial_line s)] = (acc, out)"
  shows "batch_finish s = out @ filter (\<lambda>b. b \<noteq> []) [trim acc]"
proof (cases "partial_line s = []")
  case True
  moreover have "\<not> is_go []" by (simp add: is_go_def eq_ignore_ascii_case_def to_ascii_lowercase_def trim_def)
  ultimately show ?thesis
    using assms trim_newline [of "batch s"] by (auto simp: batch_finish_def push_batch_def trim_end_cr_def)
next
  case False
  then show ?thesis using assms by (simp add: batch_finish_def push_line_run push_batch_def)
qed

lemma lines_run_append:
  "lines_run acc (ls @ ks) =
     (fst (lines_run (fst (lines_run acc ls)) ks), snd (lines_run acc ls) @ snd (lines_run (fst (lines_run acc ls)) ks))"
  by (induction ls arbitrary: acc) (auto simp: case_prod_beta)

lemma run_batches_lines:
  assumes "nl \<notin> set (partial_line s)"
    "lines_run (batch s) (map trim_end_cr (split_char nl (partial_line s @ concat chunks))) = (acc, out)"
  shows "run_batches s chunks = out @ filter (\<lambda>b. b \<noteq> []) [trim acc]"
  using assms
proof (induction chunks arbitrary: s acc out)
  case Nil
  then show ?case using batch_finish_run [of s acc out] by (simp add: split_char_no_sep)
next
  case (Cons chunk chunks)
  define ls where "ls = split_char nl (partial_line s @ chunk)"
  obtain acc1 out1 where run: "lines_run (batch s) (map trim_end_cr (butlast ls)) = (acc1, out1)" by fastforce
  let ?s1 = "\<lparr>batch = acc1, partial_line = last ls\<rparr>"
  have push: "batch_push_chunk s chunk = (?s1, out1)"
    using run by (simp add: batch_push_chunk_def push_lines_run Let_def ls_def)
  obtain acc2 out2 where rest: "lines_run acc1 (map trim_end_cr (split_char nl (last ls @ concat chunks))) = (acc2, out2)" by fastforce
  have "split_char nl (partial_line s @ concat (chunk # chunks)) = butlast ls @ split_char nl (last ls @ concat chunks)"
    using split_char_append_last [of nl "partial_line s @ chunk" "concat chunks"] by (simp add: ls_def)
  with Cons.prems(2) run rest have "acc = acc2" "out = out1 @ out2" by (auto simp: lines_run_append)
  moreover have "run_batches ?s1 chunks = out2 @ filter (\<lambda>b. b \<noteq> []) [trim acc2]"
    using rest last_split_char by (intro Cons.IH) (simp_all add: ls_def)
  ultimately show ?case by (simp add: push)
qed

text \<open>C12: However a script arrives in chunks, the batches of the import are those between the lines of the
  script that say GO, trimmed, without empty ones.\<close>

theorem streaming_batches_exact:
  "run_batches batch_splitter_default chunks = script_batches (concat chunks)"
proof -
  let ?ls = "map trim_end_cr (split_char nl (concat chunks))"
  obtain acc out where run: "lines_run [] ?ls = (acc, out)" by fastforce
  obtain g gs where "split_at is_go ?ls = g # gs" by (cases "split_at is_go ?ls") auto
  then show ?thesis
    using run_batches_lines [of batch_splitter_default chunks acc out] run lines_run_batches [of "[]" ?ls]
    by (simp add: batch_splitter_default_def script_batches_def comp_def)
qed

text \<open>The batches of the editor are slices of its text, in order.\<close>

lemma batch_range_lines_ok:
  assumes "ranges_ok pre ranges"
  shows "ranges_ok (pre @ part @ join [nl] lines) (batch_range_lines profile sc pre part lines ranges)"
  using assms
proof (induction profile sc pre part lines ranges rule: batch_range_lines.induct)
  case (1 profile sc pre part ranges)
  then show ?case by (simp add: push_statement_range_ok)
next
  case (2 profile sc pre part line lines ranges)
  have whole: "line @ (if lines = [] then [] else [nl]) @ join [nl] lines = join [nl] (line # lines)"
    by (cases lines) simp_all
  show ?case
  proof (cases "is_batch_separator profile sc line")
    case True
    have "ranges_ok ((pre @ part) @ line @ (if lines = [] then [] else [nl])) (push_statement_range profile_default pre part ranges)"
      using 2(3) by (intro ranges_ok_append push_statement_range_ok)
    with 2(1) [OF refl refl refl refl refl True] True whole show ?thesis by (simp add: Let_def)
  next
    case False
    with 2(2) [OF refl refl refl refl refl False 2(3)] whole show ?thesis by (simp add: Let_def)
  qed
qed

lemma batch_ranges_are_slices: "ranges_ok sql (split_sql_batch_ranges profile sql)"
  using batch_range_lines_ok [of "[]" "[]" "[]" "split_char nl sql" profile]
  by (simp add: split_sql_batch_ranges_def join_split_char ranges_ok_def in_order_def)

text \<open>A separator inside a comment: the editor keeps the batch, the import cuts it.\<close>

lemma commented_go_cut_by_import:
  "split_sql_batches (''A /*'' @ [nl] @ ''GO'' @ [nl] @ ''*/'') = [''A /*'' @ [nl] @ ''GO'' @ [nl] @ ''*/'']"
  "run_batches batch_splitter_default [''A /*'' @ [nl] @ ''GO'' @ [nl] @ ''*/''] = [''A /*'', ''*/'']"
  by code_simp+

end
