(* ===== verification/Sql_Risk.thy ===== *)
theory Sql_Risk
  imports Database_Type
begin

text \<open>
  The risk rules on parsed statements (\<open>sql_risk.rs\<close>): classification as reading, writing, DDL or
  transaction control, and the rules that say which writes need the permission for dangerous
  operations, among them the recognition of predicates that restrict nothing.

  Statements, queries and expressions are trees of the SQL parser. The datatypes below have the
  constructors and fields that the rules look at, and one constructor for all others, which keeps its
  subexpressions. A call has the last part of the function's name. A subquery keeps the expressions
  that a visitor finds in it. Two things that the parser's library and the language decide are arguments: \<open>le\<close>, the derived order on expressions, and \<open>f64\<close>, the
  number that a literal denotes.

  Shown: a statement that needs the permission is never classified as reading, and one that does not
  need it has only plain writes, unless the source of an INSERT has common table expressions; a disjunction with complementary null checks is true on every row,
  one with complementary comparisons, IN lists or BETWEEN checks on every row without NULL, in the
  three-valued logic of SQL. A comparison of a column with itself in parentheses is not recognised,
  and neither is a call with side effects among the rows of an INSERT.
\<close>

section \<open>Expressions\<close>

datatype sql_value = Number string bool | SingleQuotedString string | Boolean bool | Null | OtherValue nat

datatype binary_operator = And | Or | Eq | NotEq | Gt | GtEq | Lt | LtEq | Spaceship | OtherOperator nat

text \<open>An identifier is its text and the character it is quoted with.\<close>

datatype ident = Ident (ident_value: string) (quote_style: "char option")

datatype expr =
    Identifier ident
  | CompoundIdentifier "ident list"
  | Value sql_value
  | Nested expr
  | UnaryNot expr
  | BinaryOp expr binary_operator expr
  | IsNull expr
  | IsNotNull expr
  | IsTrue expr
  | IsNotTrue expr
  | IsFalse expr
  | IsNotFalse expr
  | IsDistinctFrom expr expr
  | IsNotDistinctFrom expr expr
  | InList expr "expr list" bool
  | Between expr bool expr expr
  | Like bool bool expr expr "string option"
  | ILike bool bool expr expr "string option"
  | InSubquery expr "expr list"
  | Exists "expr list"
  | Subquery "expr list"
  | Function string "expr list"
  | OtherExpr nat "expr list"

fun children :: "expr \<Rightarrow> expr list" where
  "children (Identifier _) = []"
| "children (CompoundIdentifier _) = []"
| "children (Value _) = []"
| "children (Nested e) = [e]"
| "children (UnaryNot e) = [e]"
| "children (BinaryOp l op r) = [l, r]"
| "children (IsNull e) = [e]"
| "children (IsNotNull e) = [e]"
| "children (IsTrue e) = [e]"
| "children (IsNotTrue e) = [e]"
| "children (IsFalse e) = [e]"
| "children (IsNotFalse e) = [e]"
| "children (IsDistinctFrom l r) = [l, r]"
| "children (IsNotDistinctFrom l r) = [l, r]"
| "children (InList e es negated) = e # es"
| "children (Between e negated low high) = [e, low, high]"
| "children (Like negated any e pattern escape) = [e, pattern]"
| "children (ILike negated any e pattern escape) = [e, pattern]"
| "children (InSubquery e es) = e # es"
| "children (Exists es) = es"
| "children (Subquery es) = es"
| "children (Function name es) = es"
| "children (OtherExpr k es) = es"

lemma size_member: "x \<in> set es \<Longrightarrow> size x < Suc (size_list size es)" for x :: expr
  by (induction es) auto

lemma children_smaller [termination_simp]: "x \<in> set (children e) \<Longrightarrow> size x < size e"
  by (cases e) (auto dest: size_member)

text \<open>All expressions that the visitor of the parser's library reaches.\<close>

fun visited :: "expr \<Rightarrow> expr list" where
  "visited e = e # concat (map visited (children e))"

declare visited.simps [simp del]

definition is_sql_value_keyword :: "string \<Rightarrow> bool" where
  "is_sql_value_keyword v \<longleftrightarrow> to_ascii_lowercase v \<in>
     {''current_catalog'', ''current_date'', ''current_role'', ''current_schema'', ''current_time'', ''current_timestamp'',
      ''current_user'', ''localtime'', ''localtimestamp'', ''session_user'', ''system_user'', ''user''}"

definition expr_contains_column_reference :: "expr \<Rightarrow> bool" where
  "expr_contains_column_reference e =
     list_ex (\<lambda>x. case x of Identifier v \<Rightarrow> \<not> is_sql_value_keyword (ident_value v) | CompoundIdentifier _ \<Rightarrow> True | _ \<Rightarrow> False) (visited e)"

definition expr_contains_subquery :: "expr \<Rightarrow> bool" where
  "expr_contains_subquery e =
     list_ex (\<lambda>x. case x of InSubquery _ _ \<Rightarrow> True | Exists _ \<Rightarrow> True | Subquery _ \<Rightarrow> True | _ \<Rightarrow> False) (visited e)"

fun strip_nested_expr :: "expr \<Rightarrow> expr" where
  "strip_nested_expr (Nested e) = strip_nested_expr e"
| "strip_nested_expr e = e"

section \<open>Complementary branches of a disjunction\<close>

datatype predicate_comparison_operator = CEq | CNotEq | CGt | CGtEq | CLt | CLtEq

fun predicate_comparison_operator_of :: "binary_operator \<Rightarrow> predicate_comparison_operator option" where
  "predicate_comparison_operator_of Eq = Some CEq"
| "predicate_comparison_operator_of Spaceship = Some CEq"
| "predicate_comparison_operator_of NotEq = Some CNotEq"
| "predicate_comparison_operator_of Gt = Some CGt"
| "predicate_comparison_operator_of GtEq = Some CGtEq"
| "predicate_comparison_operator_of Lt = Some CLt"
| "predicate_comparison_operator_of LtEq = Some CLtEq"
| "predicate_comparison_operator_of _ = None"

fun complementary_comparison_operator :: "predicate_comparison_operator \<Rightarrow> predicate_comparison_operator" where
  "complementary_comparison_operator CEq = CNotEq"
| "complementary_comparison_operator CNotEq = CEq"
| "complementary_comparison_operator CGt = CLtEq"
| "complementary_comparison_operator CGtEq = CLt"
| "complementary_comparison_operator CLt = CGtEq"
| "complementary_comparison_operator CLtEq = CGt"

fun reverse_comparison_operator :: "predicate_comparison_operator \<Rightarrow> predicate_comparison_operator" where
  "reverse_comparison_operator CGt = CLt"
| "reverse_comparison_operator CGtEq = CLtEq"
| "reverse_comparison_operator CLt = CGt"
| "reverse_comparison_operator CLtEq = CGtEq"
| "reverse_comparison_operator op = op"

definition comparison_operators_are_complementary ::
    "predicate_comparison_operator \<Rightarrow> predicate_comparison_operator \<Rightarrow> bool" where
  "comparison_operators_are_complementary l r \<longleftrightarrow> complementary_comparison_operator l = r"

record predicate_comparison_check =
  pc_left :: expr
  pc_right :: expr
  pc_operator :: predicate_comparison_operator

text \<open>Each function strips parentheses first, and a negation turns the check around.\<close>

fun comparison_check :: "(expr \<Rightarrow> expr \<Rightarrow> bool) \<Rightarrow> expr \<Rightarrow> bool \<Rightarrow> predicate_comparison_check option" where
  "comparison_check le (Nested e) outer_negated = comparison_check le e outer_negated"
| "comparison_check le (UnaryNot e) outer_negated = comparison_check le e (\<not> outer_negated)"
| "comparison_check le (BinaryOp l op r) outer_negated =
     (if \<not> expr_contains_column_reference (BinaryOp l op r) then None
      else
        (case predicate_comparison_operator_of op of
           None \<Rightarrow> None
         | Some operator \<Rightarrow>
             (let operator1 = (if outer_negated then complementary_comparison_operator operator else operator);
                  left = strip_nested_expr l; right = strip_nested_expr r in
              Some (if le left right then \<lparr>pc_left = left, pc_right = right, pc_operator = operator1\<rparr>
                    else \<lparr>pc_left = right, pc_right = left, pc_operator = reverse_comparison_operator operator1\<rparr>))))"
| "comparison_check le _ outer_negated = None"

fun collect_or :: "(expr \<Rightarrow> 'c option) \<Rightarrow> expr \<Rightarrow> 'c list" where
  "collect_or check (Nested e) = collect_or check e"
| "collect_or check (BinaryOp l op r) =
     (if op = Or then collect_or check l @ collect_or check r
      else (case check (BinaryOp l op r) of Some c \<Rightarrow> [c] | None \<Rightarrow> []))"
| "collect_or check e = (case check e of Some c \<Rightarrow> [c] | None \<Rightarrow> [])"

fun any_pair :: "('c \<Rightarrow> 'c \<Rightarrow> bool) \<Rightarrow> 'c list \<Rightarrow> bool" where
  "any_pair p [] = False"
| "any_pair p (c # cs) = (list_ex (p c) cs \<or> any_pair p cs)"

definition collect_or_comparison_checks :: "(expr \<Rightarrow> expr \<Rightarrow> bool) \<Rightarrow> expr \<Rightarrow> predicate_comparison_check list" where
  "collect_or_comparison_checks le = collect_or (\<lambda>e. comparison_check le e False)"

definition or_contains_complementary_comparisons :: "(expr \<Rightarrow> expr \<Rightarrow> bool) \<Rightarrow> expr \<Rightarrow> bool" where
  "or_contains_complementary_comparisons le e =
     any_pair (\<lambda>c d. pc_left c = pc_left d \<and> pc_right c = pc_right d \<and>
         comparison_operators_are_complementary (pc_operator c) (pc_operator d))
       (collect_or_comparison_checks le e)"

fun null_check_with_negation :: "expr \<Rightarrow> bool \<Rightarrow> (expr \<times> bool) option" where
  "null_check_with_negation (Nested e) outer_negated = null_check_with_negation e outer_negated"
| "null_check_with_negation (UnaryNot e) outer_negated = null_check_with_negation e (\<not> outer_negated)"
| "null_check_with_negation (IsNull e) outer_negated = Some (strip_nested_expr e, outer_negated)"
| "null_check_with_negation (IsNotNull e) outer_negated = Some (strip_nested_expr e, \<not> outer_negated)"
| "null_check_with_negation _ outer_negated = None"

definition or_contains_complementary_null_checks :: "expr \<Rightarrow> bool" where
  "or_contains_complementary_null_checks e =
     any_pair (\<lambda>c d. fst c = fst d \<and> snd c \<noteq> snd d) (collect_or (\<lambda>e. null_check_with_negation e False) e)"

record predicate_in_list_check =
  pi_expr :: expr
  pi_list :: "expr list"
  pi_negated :: bool

fun insert_by :: "(expr \<Rightarrow> expr \<Rightarrow> bool) \<Rightarrow> expr \<Rightarrow> expr list \<Rightarrow> expr list" where
  "insert_by le x [] = [x]"
| "insert_by le x (y # ys) = (if le x y then x # y # ys else y # insert_by le x ys)"

definition sort_by :: "(expr \<Rightarrow> expr \<Rightarrow> bool) \<Rightarrow> expr list \<Rightarrow> expr list" where
  "sort_by le xs = foldr (insert_by le) xs []"

fun dedup :: "expr list \<Rightarrow> expr list" where
  "dedup (x # y # ys) = (if x = y then dedup (y # ys) else x # dedup (y # ys))"
| "dedup xs = xs"

definition is_value :: "expr \<Rightarrow> bool" where
  "is_value e = (case e of Value _ \<Rightarrow> True | _ \<Rightarrow> False)"

definition normalized_list :: "(expr \<Rightarrow> expr \<Rightarrow> bool) \<Rightarrow> expr list \<Rightarrow> expr list" where
  "normalized_list le es =
     (let stripped = map strip_nested_expr es in
      if list_all (\<lambda>e. is_value (strip_nested_expr e)) stripped then dedup (sort_by le stripped) else stripped)"

fun in_list_check :: "(expr \<Rightarrow> expr \<Rightarrow> bool) \<Rightarrow> expr \<Rightarrow> bool \<Rightarrow> predicate_in_list_check option" where
  "in_list_check le (Nested e) outer_negated = in_list_check le e outer_negated"
| "in_list_check le (UnaryNot e) outer_negated = in_list_check le e (\<not> outer_negated)"
| "in_list_check le (InList e es negated) outer_negated =
     (if expr_contains_column_reference e \<and> es \<noteq> [] then
        Some \<lparr>pi_expr = strip_nested_expr e, pi_list = normalized_list le es, pi_negated = (negated \<noteq> outer_negated)\<rparr>
      else None)"
| "in_list_check le _ outer_negated = None"

definition or_contains_complementary_in_lists :: "(expr \<Rightarrow> expr \<Rightarrow> bool) \<Rightarrow> expr \<Rightarrow> bool" where
  "or_contains_complementary_in_lists le e =
     any_pair (\<lambda>c d. pi_expr c = pi_expr d \<and> pi_list c = pi_list d \<and> pi_negated c \<noteq> pi_negated d)
       (collect_or (\<lambda>e. in_list_check le e False) e)"

record predicate_between_check =
  pb_expr :: expr
  pb_low :: expr
  pb_high :: expr
  pb_negated :: bool

fun between_check :: "expr \<Rightarrow> bool \<Rightarrow> predicate_between_check option" where
  "between_check (Nested e) outer_negated = between_check e outer_negated"
| "between_check (UnaryNot e) outer_negated = between_check e (\<not> outer_negated)"
| "between_check (Between e negated low high) outer_negated =
     (if expr_contains_column_reference e then
        Some \<lparr>pb_expr = strip_nested_expr e, pb_low = strip_nested_expr low, pb_high = strip_nested_expr high,
          pb_negated = (negated \<noteq> outer_negated)\<rparr>
      else None)"
| "between_check _ outer_negated = None"

definition or_contains_complementary_between_checks :: "expr \<Rightarrow> bool" where
  "or_contains_complementary_between_checks e =
     any_pair (\<lambda>c d. pb_expr c = pb_expr d \<and> pb_low c = pb_low d \<and> pb_high c = pb_high d \<and> pb_negated c \<noteq> pb_negated d)
       (collect_or (\<lambda>e. between_check e False) e)"

section \<open>Predicates that restrict nothing\<close>

fun or_contains_conjunctive_branch :: "expr \<Rightarrow> bool" where
  "or_contains_conjunctive_branch (Nested e) = or_contains_conjunctive_branch e"
| "or_contains_conjunctive_branch (BinaryOp l op r) =
     (if op = Or then or_contains_conjunctive_branch l \<or> or_contains_conjunctive_branch r else op = And)"
| "or_contains_conjunctive_branch _ = False"

definition like_pattern_matches_all :: "expr \<Rightarrow> bool" where
  "like_pattern_matches_all e =
     (case strip_nested_expr e of
        Value (SingleQuotedString pattern) \<Rightarrow> pattern \<noteq> [] \<and> list_all (\<lambda>c. c = CHR ''%'') pattern
      | _ \<Rightarrow> False)"

definition is_comparison_operator :: "binary_operator \<Rightarrow> bool" where
  "is_comparison_operator op \<longleftrightarrow> op \<in> {Eq, NotEq, Gt, Lt, GtEq, LtEq, Spaceship}"

definition constant_comparison_truth ::
    "(string \<Rightarrow> ('f :: linorder) option) \<Rightarrow> expr \<Rightarrow> binary_operator \<Rightarrow> expr \<Rightarrow> bool option" where
  "constant_comparison_truth f64 l op r =
     (case (l, r) of
        (Value x, Value y) \<Rightarrow>
          if op \<in> {Eq, Spaceship} then Some (x = y)
          else if op = NotEq then Some (x \<noteq> y)
          else if op \<in> {Gt, Lt, GtEq, LtEq} then
            (case (x, y) of
               (Number m _, Number n _) \<Rightarrow>
                 Option.bind (f64 m) (\<lambda>a. Option.bind (f64 n) (\<lambda>b.
                   Some (if op = Gt then b < a else if op = Lt then a < b else if op = GtEq then b \<le> a else a \<le> b)))
             | _ \<Rightarrow> None)
          else None
      | _ \<Rightarrow> None)"

definition value_is_truthy :: "(string \<Rightarrow> ('f :: {linorder, zero}) option) \<Rightarrow> sql_value \<Rightarrow> bool" where
  "value_is_truthy f64 v =
     (case v of Boolean b \<Rightarrow> b
      | Number n _ \<Rightarrow> (case f64 n of Some x \<Rightarrow> x \<noteq> 0 | None \<Rightarrow> False)
      | _ \<Rightarrow> False)"

definition value_is_falsy :: "(string \<Rightarrow> ('f :: {linorder, zero}) option) \<Rightarrow> sql_value \<Rightarrow> bool" where
  "value_is_falsy f64 v =
     (case v of Boolean b \<Rightarrow> \<not> b
      | Number n _ \<Rightarrow> (case f64 n of Some x \<Rightarrow> x = 0 | None \<Rightarrow> False)
      | Null \<Rightarrow> True
      | _ \<Rightarrow> False)"

text \<open>The two checks that precede every case.\<close>

definition opaque_or :: "expr \<Rightarrow> bool \<Rightarrow> bool" where
  "opaque_or e b \<longleftrightarrow> expr_contains_subquery e \<or> \<not> expr_contains_column_reference e \<or> b"

fun predicate_is_obviously_unbounded ::
    "(string \<Rightarrow> ('f :: {linorder, zero}) option) \<Rightarrow> (expr \<Rightarrow> expr \<Rightarrow> bool) \<Rightarrow> expr \<Rightarrow> bool"
  and predicate_is_obviously_false ::
    "(string \<Rightarrow> ('f :: {linorder, zero}) option) \<Rightarrow> (expr \<Rightarrow> expr \<Rightarrow> bool) \<Rightarrow> expr \<Rightarrow> bool" where
  "predicate_is_obviously_unbounded f64 le (Nested e) =
     opaque_or (Nested e) (predicate_is_obviously_unbounded f64 le e)"
| "predicate_is_obviously_unbounded f64 le (Value v) = opaque_or (Value v) (value_is_truthy f64 v)"
| "predicate_is_obviously_unbounded f64 le (UnaryNot e) =
     opaque_or (UnaryNot e) (predicate_is_obviously_false f64 le e)"
| "predicate_is_obviously_unbounded f64 le (BinaryOp l op r) =
     opaque_or (BinaryOp l op r)
       (if op = And then predicate_is_obviously_unbounded f64 le l \<and> predicate_is_obviously_unbounded f64 le r
        else if op = Or then
          or_contains_conjunctive_branch (BinaryOp l op r) \<or>
          or_contains_complementary_null_checks (BinaryOp l op r) \<or>
          or_contains_complementary_comparisons le (BinaryOp l op r) \<or>
          or_contains_complementary_in_lists le (BinaryOp l op r) \<or>
          or_contains_complementary_between_checks (BinaryOp l op r) \<or>
          predicate_is_obviously_unbounded f64 le l \<or> predicate_is_obviously_unbounded f64 le r
        else if is_comparison_operator op then
          (case constant_comparison_truth f64 l op r of
             Some b \<Rightarrow> b
           | None \<Rightarrow> l = r \<and> op \<in> {Eq, GtEq, LtEq, Spaceship})
        else False)"
| "predicate_is_obviously_unbounded f64 le (IsNotDistinctFrom l r) =
     opaque_or (IsNotDistinctFrom l r) (strip_nested_expr l = strip_nested_expr r)"
| "predicate_is_obviously_unbounded f64 le (IsTrue e) = opaque_or (IsTrue e) (predicate_is_obviously_unbounded f64 le e)"
| "predicate_is_obviously_unbounded f64 le (IsNotFalse e) =
     opaque_or (IsNotFalse e) (predicate_is_obviously_unbounded f64 le e)"
| "predicate_is_obviously_unbounded f64 le (Like negated any e pattern escape) =
     opaque_or (Like negated any e pattern escape)
       (\<not> negated \<and> \<not> any \<and> escape = None \<and> expr_contains_column_reference e \<and> like_pattern_matches_all pattern)"
| "predicate_is_obviously_unbounded f64 le (ILike negated any e pattern escape) =
     opaque_or (ILike negated any e pattern escape)
       (\<not> negated \<and> \<not> any \<and> escape = None \<and> expr_contains_column_reference e \<and> like_pattern_matches_all pattern)"
| "predicate_is_obviously_unbounded f64 le e = opaque_or e False"
| "predicate_is_obviously_false f64 le (Nested e) = predicate_is_obviously_false f64 le e"
| "predicate_is_obviously_false f64 le (Value v) = value_is_falsy f64 v"
| "predicate_is_obviously_false f64 le (UnaryNot e) = predicate_is_obviously_unbounded f64 le e"
| "predicate_is_obviously_false f64 le (BinaryOp l op r) =
     (if op = And then predicate_is_obviously_false f64 le l \<or> predicate_is_obviously_false f64 le r
      else if op = Or then predicate_is_obviously_false f64 le l \<and> predicate_is_obviously_false f64 le r
      else if is_comparison_operator op then
        constant_comparison_truth f64 l op r = Some False \<or> l = r \<and> op \<in> {NotEq, Gt, Lt}
      else False)"
| "predicate_is_obviously_false f64 le (IsDistinctFrom l r) = (strip_nested_expr l = strip_nested_expr r)"
| "predicate_is_obviously_false f64 le (IsFalse e) = predicate_is_obviously_unbounded f64 le e"
| "predicate_is_obviously_false f64 le (IsNotTrue e) = predicate_is_obviously_unbounded f64 le e"
| "predicate_is_obviously_false f64 le e = False"

section \<open>Statements\<close>

datatype sql_risk = ReadOnly | Write | Ddl | Transaction

fun sql_risk_to_string :: "sql_risk \<Rightarrow> string" where
  "sql_risk_to_string ReadOnly = ''read-only''"
| "sql_risk_to_string Write = ''write''"
| "sql_risk_to_string Ddl = ''DDL''"
| "sql_risk_to_string Transaction = ''transaction''"

datatype show_statement =
    ShowTables | ShowColumns | ShowCatalogs | ShowDatabases | ShowSchemas | ShowViews | ShowFunctions | ShowCreate
  | ShowVariable | ShowVariables | ShowStatus | ShowProcessList | ShowCharset | ShowObjects | ShowCollation

datatype ddl_statement =
    CreateTable | CreateView | CreateIndex | CreateSchema | CreateSequence | CreateRole | CreateType | AlterTable
  | AlterIndex | AlterView | DropObject | Truncate | Grant | Revoke

datatype transaction_statement = StartTransaction | Commit | Rollback

datatype on_insert = DuplicateKeyUpdate | OnConflictDoUpdate | OnConflictDoNothing | OtherOnInsert

record update_fields =
  update_has_joins :: bool
  update_has_from :: bool
  update_or_replace :: bool
  update_selection :: "expr option"

text \<open>Each table of \<open>FROM\<close> is given by whether it has joins.\<close>

record delete_fields =
  delete_has_tables :: bool
  delete_has_using :: bool
  delete_from :: "bool list"
  delete_selection :: "expr option"

record insert_fields =
  insert_replace_into :: bool
  insert_overwrite :: bool
  insert_or_replace :: bool
  insert_on :: "on_insert option"

text \<open>
  A query has common table expressions, a body, whether it has locks, and the expressions that the
  visitor reaches. A SELECT is given by whether it has an INTO clause.
\<close>

datatype query = Query "query list" set_expr bool "expr list"
and set_expr =
    SelectExpr bool
  | QueryExpr query
  | SetOperation set_expr set_expr
  | InsertExpr statement
  | UpdateExpr statement
  | DeleteExpr statement
  | MergeExpr statement
  | ValuesExpr
  | TableExpr
and statement =
    QueryStatement query
  | Explain bool statement
  | ExplainTable
  | Show show_statement
  | Insert insert_fields "query option"
  | Update update_fields
  | Delete delete_fields
  | Merge
  | DdlStatement ddl_statement
  | TransactionStatement transaction_statement
  | Copy
  | Pragma
  | Use
  | OtherStatement nat

definition SIDE_EFFECT_SELECT_FUNCTIONS :: "string list" where
  "SIDE_EFFECT_SELECT_FUNCTIONS =
     [''lo_create'', ''lo_import'', ''lo_unlink'', ''nextval'', ''pg_advisory_lock'', ''pg_advisory_unlock'',
      ''pg_advisory_unlock_all'', ''pg_advisory_xact_lock'', ''pg_cancel_backend'', ''pg_reload_conf'',
      ''pg_terminate_backend'', ''pg_try_advisory_lock'', ''pg_try_advisory_xact_lock'', ''setval'', ''sys_cancel_backend'']"

definition calls_known_side_effect_function :: "expr list \<Rightarrow> bool" where
  "calls_known_side_effect_function es =
     list_ex (\<lambda>e. case e of Function name _ \<Rightarrow> list_ex (eq_ignore_ascii_case name) SIDE_EFFECT_SELECT_FUNCTIONS | _ \<Rightarrow> False) es"

fun query_is_write_capable :: "query \<Rightarrow> bool \<Rightarrow> bool"
  and set_expr_is_write_capable :: "set_expr \<Rightarrow> bool \<Rightarrow> bool" where
  "query_is_write_capable (Query ctes body has_locks es) detect =
     (list_ex (\<lambda>q. query_is_write_capable q detect) ctes \<or> set_expr_is_write_capable body detect \<or> has_locks \<or>
      calls_known_side_effect_function es)"
| "set_expr_is_write_capable (SelectExpr has_into) detect = (detect \<and> has_into)"
| "set_expr_is_write_capable (QueryExpr q) detect = query_is_write_capable q detect"
| "set_expr_is_write_capable (SetOperation l r) detect =
     (set_expr_is_write_capable l detect \<or> set_expr_is_write_capable r detect)"
| "set_expr_is_write_capable (InsertExpr _) detect = True"
| "set_expr_is_write_capable (UpdateExpr _) detect = True"
| "set_expr_is_write_capable (DeleteExpr _) detect = True"
| "set_expr_is_write_capable (MergeExpr _) detect = True"
| "set_expr_is_write_capable ValuesExpr detect = False"
| "set_expr_is_write_capable TableExpr detect = False"

fun classify_statement :: "statement \<Rightarrow> bool \<Rightarrow> sql_risk" where
  "classify_statement (QueryStatement q) detect = (if query_is_write_capable q detect then Write else ReadOnly)"
| "classify_statement (Explain analyze st) detect = (if analyze then classify_statement st detect else ReadOnly)"
| "classify_statement ExplainTable detect = ReadOnly"
| "classify_statement (Show _) detect = ReadOnly"
| "classify_statement (DdlStatement _) detect = Ddl"
| "classify_statement (TransactionStatement _) detect = Transaction"
| "classify_statement _ detect = Write"

definition insert_is_dangerous :: "insert_fields \<Rightarrow> set_expr option \<Rightarrow> bool" where
  "insert_is_dangerous i source \<longleftrightarrow>
     insert_replace_into i \<or> insert_overwrite i \<or> insert_or_replace i \<or>
     (case insert_on i of None \<Rightarrow> False | Some on \<Rightarrow> on \<noteq> OnConflictDoNothing) \<or>
     (case source of None \<Rightarrow> False | Some body \<Rightarrow> body \<noteq> ValuesExpr)"

definition selection_is_dangerous ::
    "(string \<Rightarrow> ('f :: {linorder, zero}) option) \<Rightarrow> (expr \<Rightarrow> expr \<Rightarrow> bool) \<Rightarrow> expr option \<Rightarrow> bool" where
  "selection_is_dangerous f64 le selection =
     (case selection of None \<Rightarrow> True | Some e \<Rightarrow> predicate_is_obviously_unbounded f64 le e)"

fun query_body :: "query \<Rightarrow> set_expr" where
  "query_body (Query ctes body has_locks es) = body"

fun statement_is_dangerous ::
    "(string \<Rightarrow> ('f :: {linorder, zero}) option) \<Rightarrow> (expr \<Rightarrow> expr \<Rightarrow> bool) \<Rightarrow> statement \<Rightarrow> bool \<Rightarrow> bool"
  and query_is_dangerous ::
    "(string \<Rightarrow> ('f :: {linorder, zero}) option) \<Rightarrow> (expr \<Rightarrow> expr \<Rightarrow> bool) \<Rightarrow> query \<Rightarrow> bool \<Rightarrow> bool"
  and set_expr_is_dangerous ::
    "(string \<Rightarrow> ('f :: {linorder, zero}) option) \<Rightarrow> (expr \<Rightarrow> expr \<Rightarrow> bool) \<Rightarrow> set_expr \<Rightarrow> bool \<Rightarrow> bool" where
  "statement_is_dangerous f64 le Use detect = False"
| "statement_is_dangerous f64 le (QueryStatement q) detect = query_is_dangerous f64 le q detect"
| "statement_is_dangerous f64 le (Insert i source) detect = insert_is_dangerous i (map_option query_body source)"
| "statement_is_dangerous f64 le (Update u) detect =
     (update_has_joins u \<or> update_has_from u \<or> update_or_replace u \<or> selection_is_dangerous f64 le (update_selection u))"
| "statement_is_dangerous f64 le (Delete d) detect =
     (delete_has_tables d \<or> delete_has_using d \<or> length (delete_from d) \<noteq> 1 \<or>
      (case delete_from d of [] \<Rightarrow> True | has_joins # _ \<Rightarrow> has_joins) \<or> selection_is_dangerous f64 le (delete_selection d))"
| "statement_is_dangerous f64 le Merge detect = True"
| "statement_is_dangerous f64 le (Explain analyze st) detect =
     (if analyze then statement_is_dangerous f64 le st detect
      else classify_statement (Explain analyze st) detect \<noteq> ReadOnly)"
| "statement_is_dangerous f64 le st detect = (classify_statement st detect \<noteq> ReadOnly)"
| "query_is_dangerous f64 le (Query ctes body has_locks es) detect =
     (list_ex (\<lambda>q. query_is_dangerous f64 le q detect) ctes \<or> set_expr_is_dangerous f64 le body detect \<or> has_locks \<or>
      calls_known_side_effect_function es)"
| "set_expr_is_dangerous f64 le (SelectExpr has_into) detect = (detect \<and> has_into)"
| "set_expr_is_dangerous f64 le (QueryExpr q) detect = query_is_dangerous f64 le q detect"
| "set_expr_is_dangerous f64 le (SetOperation l r) detect =
     (set_expr_is_dangerous f64 le l detect \<or> set_expr_is_dangerous f64 le r detect)"
| "set_expr_is_dangerous f64 le (InsertExpr st) detect = statement_is_dangerous f64 le st detect"
| "set_expr_is_dangerous f64 le (UpdateExpr st) detect = statement_is_dangerous f64 le st detect"
| "set_expr_is_dangerous f64 le (DeleteExpr st) detect = statement_is_dangerous f64 le st detect"
| "set_expr_is_dangerous f64 le (MergeExpr st) detect = statement_is_dangerous f64 le st detect"
| "set_expr_is_dangerous f64 le ValuesExpr detect = False"
| "set_expr_is_dangerous f64 le TableExpr detect = False"

section \<open>Dangerous statements write\<close>

lemma dangerous_write_capable:
  "statement_is_dangerous f64 le st detect \<Longrightarrow> classify_statement st detect \<noteq> ReadOnly"
  "query_is_dangerous f64 le q detect \<Longrightarrow> query_is_write_capable q detect"
  "set_expr_is_dangerous f64 le b detect \<Longrightarrow> set_expr_is_write_capable b detect"
  by (induction f64 le st detect and f64 le q detect and f64 le b detect
      rule: statement_is_dangerous_query_is_dangerous_set_expr_is_dangerous.induct)
    (auto simp: list_ex_iff split: if_splits)

text \<open>
  What the permission for dangerous operations leaves to a caller that does not have it. The writes
  of a statement are those in its common table expressions, its body, the source of an INSERT and
  below \<open>EXPLAIN ANALYZE\<close>; \<open>USE\<close>, which changes the session, is listed among them.
\<close>

fun writes :: "statement \<Rightarrow> statement list"
  and query_writes :: "query \<Rightarrow> statement list"
  and set_expr_writes :: "set_expr \<Rightarrow> statement list" where
  "writes (QueryStatement q) = query_writes q"
| "writes (Explain analyze st) = (if analyze then writes st else [])"
| "writes ExplainTable = []"
| "writes (Show _) = []"
| "writes (Insert i source) = Insert i source # (case source of None \<Rightarrow> [] | Some q \<Rightarrow> query_writes q)"
| "writes st = [st]"
| "query_writes (Query ctes body has_locks es) = concat (map query_writes ctes) @ set_expr_writes body"
| "set_expr_writes (SelectExpr _) = []"
| "set_expr_writes (QueryExpr q) = query_writes q"
| "set_expr_writes (SetOperation l r) = set_expr_writes l @ set_expr_writes r"
| "set_expr_writes (InsertExpr st) = writes st"
| "set_expr_writes (UpdateExpr st) = writes st"
| "set_expr_writes (DeleteExpr st) = writes st"
| "set_expr_writes (MergeExpr st) = writes st"
| "set_expr_writes ValuesExpr = []"
| "set_expr_writes TableExpr = []"

fun source_has_with :: "statement \<Rightarrow> bool" where
  "source_has_with (Insert i (Some (Query ctes body has_locks es))) = (ctes \<noteq> [])"
| "source_has_with _ = False"

definition restricted :: "expr option \<Rightarrow> bool" where
  "restricted selection =
     (case selection of None \<Rightarrow> False | Some e \<Rightarrow> expr_contains_column_reference e \<and> \<not> expr_contains_subquery e)"

fun plain_write :: "statement \<Rightarrow> bool" where
  "plain_write (Insert i source) =
     (\<not> insert_replace_into i \<and> \<not> insert_overwrite i \<and> \<not> insert_or_replace i \<and>
      insert_on i \<in> {None, Some OnConflictDoNothing} \<and>
      (case source of None \<Rightarrow> True | Some q \<Rightarrow> query_body q = ValuesExpr))"
| "plain_write (Update u) = (\<not> update_has_joins u \<and> \<not> update_has_from u \<and> \<not> update_or_replace u \<and> restricted (update_selection u))"
| "plain_write (Delete d) = (\<not> delete_has_tables d \<and> \<not> delete_has_using d \<and> delete_from d = [False] \<and> restricted (delete_selection d))"
| "plain_write _ = False"

lemma unbounded_if_opaque: "opaque_or e False \<Longrightarrow> predicate_is_obviously_unbounded f64 le e"
  by (cases e) (auto simp: opaque_or_def)

lemma safe_selection_restricted: "\<not> selection_is_dangerous f64 le selection \<Longrightarrow> restricted selection"
  using unbounded_if_opaque
  by (auto simp: selection_is_dangerous_def restricted_def opaque_or_def split: option.splits)

lemma single_table: "length xs = Suc 0 \<Longrightarrow> \<not> (case xs of [] \<Rightarrow> True | x # _ \<Rightarrow> x) \<Longrightarrow> xs = [False]"
  by (cases xs) auto

lemma safe_insert_plain:
  "\<not> insert_is_dangerous i (map_option query_body source) \<Longrightarrow> plain_write (Insert i source)"
  by (auto simp: insert_is_dangerous_def split: option.splits)

text \<open>Without common table expressions the rows of a plain INSERT hold no further write.\<close>

lemma plain_source:
  assumes "plain_write (Insert i (Some q))" "\<not> source_has_with (Insert i (Some q))"
  shows "query_writes q = []"
  using assms by (cases q) auto

lemma safe_insert_writes:
  assumes "\<not> insert_is_dangerous i (map_option query_body source)"
    and "\<forall>w\<in>set (writes (Insert i source)). \<not> source_has_with w"
  shows "\<forall>w\<in>set (writes (Insert i source)). plain_write w"
  using safe_insert_plain [OF assms(1)] assms(2) plain_source [of i]
  by (cases source) (auto simp del: plain_write.simps)

lemma safe_writes_plain:
  "\<not> statement_is_dangerous f64 le st detect \<Longrightarrow> \<forall>w\<in>set (writes st). \<not> source_has_with w \<Longrightarrow>
     \<forall>w\<in>set (writes st). plain_write w \<or> w = Use"
  "\<not> query_is_dangerous f64 le q detect \<Longrightarrow> \<forall>w\<in>set (query_writes q). \<not> source_has_with w \<Longrightarrow>
     \<forall>w\<in>set (query_writes q). plain_write w \<or> w = Use"
  "\<not> set_expr_is_dangerous f64 le b detect \<Longrightarrow> \<forall>w\<in>set (set_expr_writes b). \<not> source_has_with w \<Longrightarrow>
     \<forall>w\<in>set (set_expr_writes b). plain_write w \<or> w = Use"
proof (induction f64 le st detect and f64 le q detect and f64 le b detect
    rule: statement_is_dangerous_query_is_dangerous_set_expr_is_dangerous.induct)
  case (3 f64 le i source detect)
  then show ?case using safe_insert_writes [of i source] by (auto simp del: writes.simps plain_write.simps)
qed (auto simp: list_ex_iff safe_selection_restricted single_table)

text \<open>C11: What the permission for dangerous operations guards. A statement that needs it is never classified
  as reading. In a statement that does not need it, every write, also one inside a common table
  expression or below EXPLAIN ANALYZE, is a plain INSERT of listed rows, an UPDATE or DELETE of a single
  table with a predicate that refers to a column and has no subquery, or a USE; this holds for the
  statements in which no source of an INSERT has common table expressions, which the rules do not look at.\<close>

theorem dangerous_gate:
  "(statement_is_dangerous f64 le st detect \<longrightarrow> classify_statement st detect \<noteq> ReadOnly) \<and>
   (\<not> statement_is_dangerous f64 le st detect \<and> (\<forall>w\<in>set (writes st). \<not> source_has_with w) \<longrightarrow>
    (\<forall>w\<in>set (writes st). plain_write w \<or> w = Use))"
  using dangerous_write_capable(1) safe_writes_plain(1) by blast

text \<open>A DELETE of all rows below EXPLAIN ANALYZE, and an UPDATE by key that returns its rows.\<close>

definition sample_delete :: statement where
  "sample_delete = Explain True (Delete \<lparr>delete_has_tables = False, delete_has_using = False, delete_from = [False],
      delete_selection = None\<rparr>)"

definition sample_update :: statement where
  "sample_update = QueryStatement (Query [] (UpdateExpr (Update \<lparr>update_has_joins = False, update_has_from = False,
      update_or_replace = False,
      update_selection = Some (BinaryOp (Identifier (Ident ''id'' None)) Eq (Value (Number ''1'' False)))\<rparr>)) False [])"

theorem dangerous_gate_witness:
  "classify_statement sample_delete True \<noteq> ReadOnly \<and> list_all (\<lambda>w. plain_write w \<or> w = Use) (writes sample_update) \<and>
   writes sample_update \<noteq> []"
proof -
  let ?f = "\<lambda>_ :: string. Some (1 :: int)" and ?le = "\<lambda>_ _ :: expr. True"
  have "statement_is_dangerous ?f ?le sample_delete True" by code_simp
  moreover have "\<not> statement_is_dangerous ?f ?le sample_update True" by code_simp
  moreover have "writes sample_update \<noteq> []" "\<forall>w\<in>set (writes sample_update). \<not> source_has_with w" by code_simp+
  ultimately show ?thesis
    using dangerous_gate [of ?f ?le sample_delete True] dangerous_gate [of ?f ?le sample_update True]
    unfolding list_all_iff by blast
qed

text \<open>The common table expressions of the source of an INSERT are not looked at: a DELETE of all rows there
  needs no permission, although the same query on its own does.\<close>

lemma insert_source_with_missed:
  "let everything = Delete \<lparr>delete_has_tables = False, delete_has_using = False, delete_from = [False], delete_selection = None\<rparr>;
       source = Query [Query [] (DeleteExpr everything) False []] ValuesExpr False [];
       st = Insert \<lparr>insert_replace_into = False, insert_overwrite = False, insert_or_replace = False, insert_on = None\<rparr> (Some source)
   in statement_is_dangerous f64 le (QueryStatement source) detect \<and> \<not> statement_is_dangerous f64 le st detect \<and>
      everything \<in> set (writes st)"
  by (simp add: insert_is_dangerous_def selection_is_dangerous_def)

text \<open>A function with side effects makes a query dangerous, but not an INSERT that calls it in its rows.\<close>

lemma insert_calls_side_effect:
  "query_is_dangerous f64 le (Query [] ValuesExpr False [Function ''pg_terminate_backend'' []]) detect \<and>
   \<not> statement_is_dangerous f64 le
     (Insert \<lparr>insert_replace_into = False, insert_overwrite = False, insert_or_replace = False, insert_on = None\<rparr>
       (Some (Query [] ValuesExpr False [Function ''pg_terminate_backend'' []]))) detect"
  by (simp add: insert_is_dangerous_def calls_known_side_effect_function_def SIDE_EFFECT_SELECT_FUNCTIONS_def
      eq_ignore_ascii_case_def)

text \<open>A column compared with itself restricts nothing; in parentheses it is not recognised.\<close>

lemma nested_self_comparison_missed:
  "predicate_is_obviously_unbounded f64 le (BinaryOp (Identifier (Ident ''id'' None)) Eq (Identifier (Ident ''id'' None))) \<and>
   \<not> predicate_is_obviously_unbounded f64 le (BinaryOp (Nested (Identifier (Ident ''id'' None))) Eq (Identifier (Ident ''id'' None)))"
proof -
  have "expr_contains_column_reference (BinaryOp (Nested (Identifier (Ident ''id'' None))) Eq (Identifier (Ident ''id'' None)))"
    "\<not> expr_contains_subquery (BinaryOp (Nested (Identifier (Ident ''id'' None))) Eq (Identifier (Ident ''id'' None)))"
    by code_simp+
  then show ?thesis by (simp add: opaque_or_def is_comparison_operator_def constant_comparison_truth_def)
qed

section \<open>Complementary branches are tautologies\<close>

text \<open>
  The three-valued logic of SQL: \<open>None\<close> is unknown. A row gives every expression a value, \<open>None\<close>
  for NULL; \<open>other\<close> is the truth of the predicates that are not interpreted.
\<close>

definition and3 :: "bool option \<Rightarrow> bool option \<Rightarrow> bool option" where
  "and3 x y = (if x = Some False \<or> y = Some False then Some False else if x = None \<or> y = None then None else Some True)"

definition or3 :: "bool option \<Rightarrow> bool option \<Rightarrow> bool option" where
  "or3 x y = (if x = Some True \<or> y = Some True then Some True else if x = None \<or> y = None then None else Some False)"

fun holds :: "predicate_comparison_operator \<Rightarrow> ('v :: linorder) \<Rightarrow> 'v \<Rightarrow> bool" where
  "holds CEq x y = (x = y)"
| "holds CNotEq x y = (x \<noteq> y)"
| "holds CGt x y = (y < x)"
| "holds CGtEq x y = (y \<le> x)"
| "holds CLt x y = (x < y)"
| "holds CLtEq x y = (x \<le> y)"

definition compare3 :: "predicate_comparison_operator \<Rightarrow> ('v :: linorder) option \<Rightarrow> 'v option \<Rightarrow> bool option" where
  "compare3 op x y = (case (x, y) of (Some a, Some b) \<Rightarrow> Some (holds op a b) | _ \<Rightarrow> None)"

definition in3 :: "('v :: linorder) option \<Rightarrow> 'v option list \<Rightarrow> bool option" where
  "in3 x ys = foldr (\<lambda>y. or3 (compare3 CEq x y)) ys (Some False)"

fun truth :: "(expr \<Rightarrow> ('v :: linorder) option) \<Rightarrow> (expr \<Rightarrow> bool option) \<Rightarrow> expr \<Rightarrow> bool option" where
  "truth val other (Nested e) = truth val other e"
| "truth val other (UnaryNot e) = map_option Not (truth val other e)"
| "truth val other (BinaryOp l op r) =
     (if op = And then and3 (truth val other l) (truth val other r)
      else if op = Or then or3 (truth val other l) (truth val other r)
      else if op = Spaceship then Some (val l = val r)
      else (case predicate_comparison_operator_of op of
          Some operator \<Rightarrow> compare3 operator (val l) (val r)
        | None \<Rightarrow> other (BinaryOp l op r)))"
| "truth val other (IsNull e) = Some (val e = None)"
| "truth val other (IsNotNull e) = Some (val e \<noteq> None)"
| "truth val other (InList e es negated) = map_option (\<lambda>b. b \<noteq> negated) (in3 (val e) (map val es))"
| "truth val other (Between e negated low high) =
     map_option (\<lambda>b. b \<noteq> negated) (and3 (compare3 CGtEq (val e) (val low)) (compare3 CLtEq (val e) (val high)))"
| "truth val other e = other e"

lemma any_pairE:
  assumes "any_pair p cs"
  obtains c d where "c \<in> set cs" "d \<in> set cs" "p c d"
  using assms by (induction cs) (auto simp: list_ex_iff)

text \<open>The expressions whose values a predicate compares.\<close>

fun operands :: "expr \<Rightarrow> expr list" where
  "operands (Nested e) = operands e"
| "operands (UnaryNot e) = operands e"
| "operands (BinaryOp l op r) = (if op = And \<or> op = Or then operands l @ operands r else [l, r])"
| "operands (InList e es negated) = e # es"
| "operands (Between e negated low high) = [e, low, high]"
| "operands _ = []"

text \<open>A check collected from a disjunction comes from a branch, and the disjunction is true when the branch is.\<close>

lemma or3_true: "or3 x y = Some True \<longleftrightarrow> x = Some True \<or> y = Some True"
  by (auto simp: or3_def)

lemma collect_or_branch:
  assumes "c \<in> set (collect_or check e)"
  shows "\<exists>e'. check e' = Some c \<and> set (operands e') \<subseteq> set (operands e) \<and>
    (truth val other e' = Some True \<longrightarrow> truth val other e = Some True)"
  using assms
proof (induction check e rule: collect_or.induct)
  case (2 check l op r)
  show ?case
  proof (cases "op = Or")
    case True
    then have "c \<in> set (collect_or check l) \<or> c \<in> set (collect_or check r)" using 2(3) by auto
    with 2(1) [OF True] 2(2) [OF True] obtain e' where e': "check e' = Some c"
      "set (operands e') \<subseteq> set (operands l) \<union> set (operands r)"
      "truth val other e' = Some True \<longrightarrow> truth val other l = Some True \<or> truth val other r = Some True"
      by blast
    then show ?thesis by (intro exI [of _ e']) (simp add: True or3_true)
  next
    case False
    then have "check (BinaryOp l op r) = Some c" using 2(3) by (auto split: option.splits)
    then show ?thesis by blast
  qed
next
  case (1 check e)
  then show ?case by simp
qed (fastforce simp del: truth.simps operands.simps split: option.splits)+

lemma strip_value:
  assumes "\<And>e. val (Nested e) = val e"
  shows "val (strip_nested_expr e) = val e"
  using assms by (induction e rule: strip_nested_expr.induct) simp_all

lemma null_check_truth:
  assumes "\<And>e. val (Nested e) = val e" "null_check_with_negation e neg = Some (x, b)"
  shows "truth val other e = Some ((val x = None) = (b = neg))"
  using assms(2) by (induction e neg rule: null_check_with_negation.induct) (auto simp: strip_value [of val, OF assms(1)])

lemma holds_complementary: "holds (complementary_comparison_operator op) x y = (\<not> holds op x y)"
  by (cases op) auto

lemma holds_reverse: "holds (reverse_comparison_operator op) y x = holds op x y"
  by (cases op) auto

lemma comparison_truth:
  assumes "predicate_comparison_operator_of op = Some operator" "val l = Some a" "val r = Some b"
  shows "truth val other (BinaryOp l op r) = Some (holds operator a b)"
  using assms by (cases op) (auto simp: compare3_def)

lemma comparison_check_truth:
  assumes nested: "\<And>e. val (Nested e) = val e" and total: "\<forall>x\<in>set (operands e). val x \<noteq> None"
    and check: "comparison_check le e neg = Some c"
  shows "truth val other e = Some (holds (pc_operator c) (the (val (pc_left c))) (the (val (pc_right c))) \<noteq> neg)"
  using total check
proof (induction le e neg rule: comparison_check.induct)
  case (2 le e neg)
  then show ?case by auto
next
  case (3 le l op r neg)
  then obtain operator where op: "predicate_comparison_operator_of op = Some operator"
    by (auto split: if_splits option.splits)
  obtain a b where ab: "val l = Some a" "val r = Some b" using 3(1) op by (cases op) auto
  let ?op = "if neg then complementary_comparison_operator operator else operator"
  have "c = \<lparr>pc_left = strip_nested_expr l, pc_right = strip_nested_expr r, pc_operator = ?op\<rparr> \<or>
      c = \<lparr>pc_left = strip_nested_expr r, pc_right = strip_nested_expr l, pc_operator = reverse_comparison_operator ?op\<rparr>"
    using 3(2) op by (auto simp: Let_def split: if_splits)
  moreover have "val (strip_nested_expr l) = Some a" "val (strip_nested_expr r) = Some b"
    using strip_value [of val, OF nested] ab by simp_all
  ultimately have "holds (pc_operator c) (the (val (pc_left c))) (the (val (pc_right c))) = holds ?op a b"
    by (auto simp: holds_reverse)
  moreover have "holds ?op a b = (holds operator a b \<noteq> neg)" by (simp add: holds_complementary)
  ultimately show ?case using comparison_truth [OF op ab] by auto
qed auto

lemma in3_total:
  assumes "x \<noteq> None" "None \<notin> set ys"
  shows "in3 x ys = Some (x \<in> set ys)"
proof -
  obtain a where a: "x = Some a" using assms(1) by auto
  have "foldr (\<lambda>y. or3 (compare3 CEq (Some a) y)) ys (Some False) = Some (Some a \<in> set ys)"
    using assms(2) by (induction ys) (auto simp: or3_def compare3_def split: option.splits)
  then show ?thesis by (simp add: in3_def a)
qed

lemma set_insert_by: "set (insert_by le x ys) = insert x (set ys)"
  by (induction ys) auto

lemma set_sort_by: "set (sort_by le xs) = set xs"
  by (induction xs) (auto simp: sort_by_def set_insert_by)

lemma set_dedup: "set (dedup xs) = set xs"
  by (induction xs rule: dedup.induct) auto

lemma set_normalized_list: "set (normalized_list le es) = strip_nested_expr ` set es"
  by (simp add: normalized_list_def Let_def set_dedup set_sort_by)

lemma in_list_check_truth:
  assumes nested: "\<And>e. val (Nested e) = val e" and total: "\<forall>x\<in>set (operands e). val x \<noteq> None"
    and check: "in_list_check le e neg = Some c"
  shows "truth val other e = Some ((val (pi_expr c) \<in> val ` set (pi_list c)) \<noteq> (pi_negated c \<noteq> neg))"
  using total check
proof (induction le e neg rule: in_list_check.induct)
  case (3 le e es negated neg)
  have "val e \<noteq> None" "None \<notin> set (map val es)" using 3(1) by (auto simp: image_iff)
  then have "in3 (val e) (map val es) = Some (val e \<in> val ` set es)" by (simp add: in3_total)
  moreover have "val ` strip_nested_expr ` set es = val ` set es"
    using strip_value [of val, OF nested] by (simp add: image_image)
  ultimately show ?case
    using 3(2) strip_value [of val, OF nested] by (auto simp: set_normalized_list split: if_splits)
qed auto

lemma between_check_truth:
  assumes nested: "\<And>e. val (Nested e) = val e" and total: "\<forall>x\<in>set (operands e). val x \<noteq> None"
    and check: "between_check e neg = Some c"
  shows "truth val other e =
    Some ((val (pb_expr c) \<in> {x. \<exists>a b i. val (pb_low c) = Some a \<and> val (pb_high c) = Some b \<and> x = Some i \<and> a \<le> i \<and> i \<le> b})
      \<noteq> (pb_negated c \<noteq> neg))"
  using total check
proof (induction e neg rule: between_check.induct)
  case (3 e negated low high neg)
  obtain i a b where v: "val e = Some i" "val low = Some a" "val high = Some b"
    using 3(1) by auto
  have strip: "val (strip_nested_expr x) = val x" for x using strip_value [of val, OF nested] .
  have "c = \<lparr>pb_expr = strip_nested_expr e, pb_low = strip_nested_expr low, pb_high = strip_nested_expr high,
      pb_negated = (negated \<noteq> neg)\<rparr>"
    using 3(2) by (simp split: if_splits)
  then show ?case by (auto simp: v strip compare3_def and3_def)
qed auto

lemma complementary_pair_true:
  assumes "any_pair p (collect_or check e)"
    and "\<And>c d. p c d \<Longrightarrow> T c \<or> T d"
    and "\<And>e' c. check e' = Some c \<Longrightarrow> set (operands e') \<subseteq> set (operands e) \<Longrightarrow> truth val other e' = Some (T c)"
  shows "truth val other e = Some True"
proof -
  from assms(1) obtain c d where "c \<in> set (collect_or check e)" "d \<in> set (collect_or check e)" "p c d" by (rule any_pairE)
  then obtain c where c: "c \<in> set (collect_or check e)" "T c" using assms(2) by blast
  from collect_or_branch [OF c(1), of val other] obtain e' where
    "check e' = Some c" "set (operands e') \<subseteq> set (operands e)"
    "truth val other e' = Some True \<longrightarrow> truth val other e = Some True" by blast
  then show ?thesis using assms(3) c(2) by simp
qed

lemma complementary_checks_true:
  assumes nested: "\<And>e. val (Nested e) = val e" and total: "\<forall>x\<in>set (operands e). val x \<noteq> None"
  shows "or_contains_complementary_comparisons le e \<Longrightarrow> truth val other e = Some True"
    and "or_contains_complementary_in_lists le e \<Longrightarrow> truth val other e = Some True"
    and "or_contains_complementary_between_checks e \<Longrightarrow> truth val other e = Some True"
proof -
  have branch: "\<forall>x\<in>set (operands e'). val x \<noteq> None" if "set (operands e') \<subseteq> set (operands e)" for e'
    using that total by blast
  show "truth val other e = Some True" if "or_contains_complementary_comparisons le e"
    using that unfolding or_contains_complementary_comparisons_def collect_or_comparison_checks_def
  proof (rule complementary_pair_true)
    show "truth val other e' = Some (holds (pc_operator c) (the (val (pc_left c))) (the (val (pc_right c))) \<noteq> False)"
      if "comparison_check le e' False = Some c" "set (operands e') \<subseteq> set (operands e)" for e' c
      by (rule comparison_check_truth [of val e' le False c other, OF nested branch [OF that(2)] that(1)])
  qed (auto simp: comparison_operators_are_complementary_def holds_complementary dest!: sym [of "complementary_comparison_operator _"])
  show "truth val other e = Some True" if "or_contains_complementary_in_lists le e"
    using that unfolding or_contains_complementary_in_lists_def
  proof (rule complementary_pair_true)
    show "truth val other e' = Some ((val (pi_expr c) \<in> val ` set (pi_list c)) \<noteq> (pi_negated c \<noteq> False))"
      if "in_list_check le e' False = Some c" "set (operands e') \<subseteq> set (operands e)" for e' c
      by (rule in_list_check_truth [of val e' le False c other, OF nested branch [OF that(2)] that(1)])
  qed auto
  show "truth val other e = Some True" if "or_contains_complementary_between_checks e"
    using that unfolding or_contains_complementary_between_checks_def
  proof (rule complementary_pair_true)
    show "truth val other e' = Some ((val (pb_expr c) \<in> {x. \<exists>a b i. val (pb_low c) = Some a \<and> val (pb_high c) = Some b \<and>
        x = Some i \<and> a \<le> i \<and> i \<le> b}) \<noteq> (pb_negated c \<noteq> False))"
      if "between_check e' False = Some c" "set (operands e') \<subseteq> set (operands e)" for e' c
      by (rule between_check_truth [of val e' False c other, OF nested branch [OF that(2)] that(1)])
  qed auto
qed

lemma complementary_null_checks_true:
  assumes nested: "\<And>e. val (Nested e) = val e" and "or_contains_complementary_null_checks e"
  shows "truth val other e = Some True"
  using assms(2) unfolding or_contains_complementary_null_checks_def
proof (rule complementary_pair_true [where T = "\<lambda>c. (val (fst c) = None) = (snd c = False)"])
  fix e' c
  assume "null_check_with_negation e' False = Some c"
  then show "truth val other e' = Some ((val (fst c) = None) = (snd c = False))"
    using null_check_truth [of val e' False "fst c" "snd c" other, OF nested] by simp
qed auto

text \<open>C10: A disjunction that is rejected for complementary branches restricts nothing, in the three-valued logic of
  SQL. With complementary null checks it is true on every row; with complementary comparisons, IN
  lists or BETWEEN checks it is true on every row on which the compared expressions are not NULL.\<close>

theorem complementary_or_is_tautology:
  assumes "\<And>e. val (Nested e) = val e"
  shows "(or_contains_complementary_null_checks e \<longrightarrow> truth val other e = Some True) \<and>
    ((or_contains_complementary_comparisons le e \<or> or_contains_complementary_in_lists le e \<or>
      or_contains_complementary_between_checks e) \<and> (\<forall>x\<in>set (operands e). val x \<noteq> None) \<longrightarrow>
     truth val other e = Some True)"
  using complementary_null_checks_true [of val e other, OF assms] complementary_checks_true(1,2) [of val e le other, OF assms]
    complementary_checks_true(3) [of val e other, OF assms]
  by blast

text \<open>A row on which the column has the value 5.\<close>

definition example_row :: "expr \<Rightarrow> int option" where
  "example_row e = (case strip_nested_expr e of Identifier _ \<Rightarrow> Some 5 | Value (Number _ _) \<Rightarrow> Some 3 | _ \<Rightarrow> None)"

theorem complementary_or_is_tautology_witness:
  "(let gt = BinaryOp (Identifier (Ident ''id'' None)) Gt (Value (Number ''3'' False)) in
    truth example_row (\<lambda>_. None) (BinaryOp gt Or (UnaryNot (Nested gt))) = Some True) \<and>
   truth example_row (\<lambda>_. None) (BinaryOp (IsNull (Identifier (Ident ''x'' None))) Or (IsNotNull (Identifier (Ident ''x'' None)))) = Some True"
proof -
  let ?gt = "BinaryOp (Identifier (Ident ''id'' None)) Gt (Value (Number ''3'' False))" and ?le = "\<lambda>_ _ :: expr. True"
  let ?c = "BinaryOp ?gt Or (UnaryNot (Nested ?gt))"
  let ?n = "BinaryOp (IsNull (Identifier (Ident ''x'' None))) Or (IsNotNull (Identifier (Ident ''x'' None)))"
  have nested: "\<And>e. example_row (Nested e) = example_row e" by (simp add: example_row_def)
  have "or_contains_complementary_comparisons ?le ?c" "\<forall>x\<in>set (operands ?c). example_row x \<noteq> None"
    "or_contains_complementary_null_checks ?n"
    by code_simp+
  then show ?thesis
    unfolding Let_def
    using complementary_or_is_tautology [of example_row ?c "\<lambda>_. None" ?le, OF nested]
      complementary_or_is_tautology [of example_row ?n "\<lambda>_. None" ?le, OF nested] by blast
qed

end
