(* ===== verification/Spec2Isabelle.thy ===== *)
theory Spec2Isabelle
  imports Two_Phase_Properties Encrypted_Payload Desensitize Query_Cancel Write_Unlock Config_Expression
    Config_Trace Federated Schema_Visibility Wkb State_Calibrator Correction Data_Compare Text_Export
    Task_Supervisor Sql_Batches Sql_Risk
begin

text \<open>
  Verification of the core of DBX, a database client with federated queries. All modelled code is
  Rust under \<open>src/crates/dbx-core/src\<close>; file names below are relative to it.

  \<^bold>\<open>The program.\<close> DBX keeps connections to many databases. A query may name tables of several
  connections; \<open>federated.rs\<close> finds out which, validates the references and rewrites a query that
  needs one connection only, and \<open>federation_schema_visibility.rs\<close> says which schemas and tables may
  be seen. Running queries are registered in \<open>query_cancel.rs\<close>, through which they are cancelled, and
  \<open>write_unlock.rs\<close> opens read-only connections for writing for a few minutes. Multi-database
  changes run under the two-phase commit of \<open>two_phase_commit.rs\<close>, which stores its log and a state
  machine entry through the backends of \<open>state_persistence.rs\<close>; the local backend is a table of
  \<open>storage.rs\<close>. The same file encrypts and signs stored payloads and masks secrets in what is
  exported. \<open>config/\<close> merges layered configurations under a guard on tags, resolves expressions in
  them and traces changes. \<open>state_calibrator.rs\<close> reconciles the objects of a source and a target
  with a baseline, \<open>data_compare.rs\<close> compares the rows of two tables, \<open>correction.rs\<close> plans the
  statements that remove differences, and \<open>db/wkb.rs\<close> decodes geometry columns. Scripts are cut into
  statements by \<open>sql.rs\<close>, parsed statements are judged by \<open>sql_risk.rs\<close>, names are quoted and pages are asked for as \<open>sql_dialect/\<close> says for each
  product, results are written as text by \<open>csv_export.rs\<close> and \<open>text_export.rs\<close>, and background tasks
  run under \<open>task_supervisor.rs\<close>.

  \<^bold>\<open>The theories.\<close>

  \<^item> \<open>Rust_Prelude\<close>: results, computations that may fail over an explicit state, characters and
    strings, byte slices, hash maps with their iteration order, and the locale \<open>simulation\<close> of a
    component and its specification. \<open>Json\<close>: JSON values, their equality, which does not see the
    order of keys, and the interface of a serializer.
  \<^item> \<open>State_Store\<close>: the \<open>state_store\<close> table and the local, Redis and database backends. The
    locales \<open>kv_backend\<close> and \<open>versioned_backend\<close> state what the clients of a backend rely on;
    they are interpreted on the three backends.
  \<^item> \<open>State_Machine\<close>: \<open>StateMachine\<close> with its transition table, and a step relation that
    interleaves clients between their load and their compare-and-swap. Concurrent transitions follow
    the table; a transition computes its reference; a second creation or a backend without
    compare-and-swap gets stuck.
  \<^item> \<open>Two_Phase_Commit\<close>, \<open>Two_Phase_Store\<close>, \<open>Two_Phase_Properties\<close>: the coordinator with its
    phases, its log and recovery, over arbitrary participants. The calls follow the protocol, no
    participant commits without unanimous consent, the outcome and the stored log agree with the
    calls, retries are bounded, and recovery is idempotent and respects the logged decision.
  \<^item> \<open>Encrypted_Payload\<close>: round trip of encryption, HMAC against its definition, and what a
    signature binds. \<open>Desensitize\<close>: what masking keeps and hides at every path of a value, and
    where it panics.
  \<^item> \<open>Query_Cancel\<close>: every operation of \<open>RunningQueries\<close> and its guards, interleaved by
    \<open>rq_step\<close>. Stale guards are harmless, interrupts run at most once, a terminal report is true.
    \<open>Write_Unlock\<close>: the exact window, and the race between an expiry check and a new window.
  \<^item> \<open>Config_Tags\<close>, \<open>Config_Layer\<close>, \<open>Config_Expression\<close>, \<open>Config_Trace\<close>: the files of
    \<open>config/\<close>. The merge is a choice by priority, the guard checks keys only, resolution is all or
    nothing, and the ring buffer refines the newest part of an unbounded log.
  \<^item> \<open>Federated_Text\<close>, \<open>Federated\<close>: \<open>federated.rs\<close>, with its regular expressions written out
    as scans. The analysis, the validation and the rewriting are characterised exactly.
    \<open>Schema_Visibility\<close>: what the manager answers is determined by the history of the edits of
    each connection.
  \<^item> \<open>Wkb\<close>: the decoder reads back every geometry the format can express.
  \<^item> \<open>State_Calibrator\<close>: reconciliation reports every object once and symmetrically, and a new
    baseline is a three-way merge. \<open>Correction\<close>: the order of the statements of a plan and the
    statements that are missing from it.
  \<^item> \<open>Database_Type\<close>, \<open>Sql_Dialect\<close>: the products, their paging strategies and the quoting of
    names. A qualified name is read back as its parts, for every product and linked server, where
    names are quoted.
  \<^item> \<open>Data_Compare\<close>: the difference of two row sets patches the target into the source; a
    comparison is refused exactly without usable keys; fetching by pages returns the table where the
    pages advance, and never ends where they do not.
  \<^item> \<open>Text_Export\<close>: CSV, TSV, Markdown and JSON texts. The locale \<open>cell_format\<close> proves the round
    trip once, for CSV and for TSV; writing by batches gives the same text as writing at once.
  \<^item> \<open>Task_Supervisor\<close>: the operations, split at the lock they take, interleaved with tasks and a
    shutdown. A shutdown is final and returns.
  \<^item> \<open>Sql_Text\<close>, \<open>Sql_Splitter\<close>: recognition of comments, routine bodies and commands, and the
    streaming statement splitter. Statements are well formed, chunk boundaries after newlines are
    invisible, and a script printed from statements with quoted texts and comments is split into
    these statements.
  \<^item> \<open>Sql_Ranges\<close>: the scanner and the splitter of the editor, which gives ranges of the text, and the
    statement at the cursor. Ranges are disjoint slices, the cursor finds the statement around it, and
    a delimiter command that is repeated panics. \<open>Sql_Batches\<close>: the batches of SQL Server, in the
    import and in the editor. Chunks of the import are invisible.
  \<^item> \<open>Sql_Risk\<close>: the rules on parsed statements that say which are dangerous. What is not dangerous
    has plain writes only, except in a source of an INSERT that has common table expressions, and predicates rejected for complementary branches are tautologies.

  \<^bold>\<open>Correspondence.\<close> A struct is a record and an enum a datatype with the names of the source. A
  method that mutates takes and returns the state; a method that does input and output is a
  computation \<open>('s, 'a) io\<close> that ends in \<open>Ok\<close> or \<open>Err\<close>; where a slice may panic the result is an
  \<open>option\<close> and \<open>None\<close> is the panic. A hash map is an association list, so that iteration order is
  explicit; statements hold for every order. Characters are those of Latin-1 with their width in
  UTF-8, enough to have characters of one and of two bytes. Bytes, flags and priorities are words;
  counters that cannot reach their width in practice are natural numbers.

  \<^bold>\<open>Interleaving.\<close> Where operations run concurrently, a step is what happens under one lock or one
  statement of the database. In \<open>State_Machine\<close> the steps are the load and the compare-and-swap of
  \<open>transition\<close>. In \<open>Query_Cancel\<close> a registration takes its number and enters the map in one step; the
  code draws the number before it locks, and the number serves only to tell registrations apart. In
  \<open>Task_Supervisor\<close> an abort takes effect at once, where the runtime waits for the task to yield.

  \<^bold>\<open>Parameters.\<close> Code outside the repository is an argument: the cryptographic library (with
  \<open>crypto_ok\<close>), serializers (\<open>codec_ok\<close>), the printing of JSON values (\<open>texts_ok\<close>), the SQL parser
  (\<open>visitor_ok\<close>), its tokenizer and the order \<open>le\<close> of its expressions, percent decoding, the execution of a page query
  (\<open>answers_pages\<close>), regular expressions of masking rules, SHA-256, participants of a transaction, the
  clock, new identifiers, the process environment, and the parsing and printing of doubles. \<open>DatabaseType\<close> is generated by the build; its
  model has the variants the code names and one for the others.

  \<^bold>\<open>Bounds.\<close> \<open>transition_attempts\<close> starts with 4 attempts and \<open>commit_attempts\<close> with the retries of
  the code, its own loop bounds. \<open>parse_wkb_geometry\<close> carries a bound on nesting that starts at the
  number of bytes; \<open>decode_depth_enough\<close> shows that every greater bound gives the same. The
  stack this recursion needs is not modelled. The loop
  that fetches pages may run for ever and is a partial function, \<open>None\<close> where it does not end. All
  other functions are total, with a termination proof where the recursion is not structural.

  \<^bold>\<open>Not modelled.\<close> The database drivers, tunnels, agents, language-model clients, message queues,
  the web, MCP and command-line front ends, the desktop shell and its user interface are input and
  output over libraries and services. The S3 backend is a signed HTTP client. The module
  \<open>config/governance.rs\<close> is disabled and not compiled. The SQL generators, the risk rules on
  unparsed text, the metrics, schema comparison and the transfer of rows are not translated; of the comparison results, the
  fields that correction plans read are. Poisoned mutexes, logging and memory limits are left out.
\<close>

end
